(* ===== verification/Creek_Prelude.thy ===== *)
theory Creek_Prelude
  imports Main "HOL-Library.AList" "HOL-Library.Char_ord" "HOL-Library.List_Lexorder"
    "HOL-Library.Multiset"
begin

text \<open>
  The vocabulary the component theories share: Go's machine integers, Go's maps, the result type
  of a fallible call, and the in-place insertion sort that two packages write out by hand.

  \<^item> A Go \<open>int\<close> or \<open>int64\<close> is an \<open>int\<close> in the model; every addition or multiplication that the
    code performs on one goes through \<open>wrap64\<close> (two's complement, 64 bits), a \<open>uint64\<close> through
    \<open>uwrap64\<close>.
  \<^item> A Go map with string keys is an association list \<open>'v gomap\<close>. Reading is \<open>map_of\<close>, writing
    \<open>AList.update\<close>, deleting \<open>AList.delete\<close>; \<open>gm_ok\<close> (no key twice) is the representation
    invariant. Go leaves the iteration order of a map open: every list that satisfies \<open>gm_ok\<close>
    is a possible order, and the theorems quantify over all of them.
  \<^item> A Go function that returns \<open>(T, error)\<close> returns \<open>'e + 'a\<close>, with \<open>Inl\<close> the error.
  \<^item> Go strings are byte strings: \<open>string\<close>, ordered lexicographically by byte.
\<close>

named_theorems gomap_simps \<open>reading, writing and listing Go maps\<close>

section \<open>Machine integers\<close>

definition wrap64 :: "int \<Rightarrow> int" where
  "wrap64 x = (x + 2 ^ 63) mod 2 ^ 64 - 2 ^ 63"

definition uwrap64 :: "int \<Rightarrow> int" where
  "uwrap64 x = x mod 2 ^ 64"

definition int64_ok :: "int \<Rightarrow> bool" where
  "int64_ok x \<longleftrightarrow> - (2 ^ 63) \<le> x \<and> x < 2 ^ 63"

lemma wrap64_id [simp]: "int64_ok x \<Longrightarrow> wrap64 x = x"
  by (simp add: wrap64_def int64_ok_def)

lemma wrap64_range: "int64_ok (wrap64 x)"
proof -
  have "0 \<le> (x + 2 ^ 63) mod 2 ^ 64" and "(x + 2 ^ 63) mod 2 ^ 64 < (2 ^ 64 :: int)"
    by simp_all
  then show ?thesis
    unfolding wrap64_def int64_ok_def by auto
qed

lemma uwrap64_id [simp]: "0 \<le> x \<Longrightarrow> x < 2 ^ 64 \<Longrightarrow> uwrap64 x = x"
  by (simp add: uwrap64_def)

lemma uwrap64_range: "0 \<le> uwrap64 x \<and> uwrap64 x < 2 ^ 64"
  by (simp add: uwrap64_def)

text \<open>The successor of a counter that is not at its last value is a bigger counter.\<close>

lemma wrap64_Suc: "0 \<le> x \<Longrightarrow> x < 2 ^ 63 - 1 \<Longrightarrow> wrap64 (x + 1) = x + 1"
  by (rule wrap64_id) (simp add: int64_ok_def)

lemma uwrap64_Suc: "0 \<le> x \<Longrightarrow> x < 2 ^ 64 - 1 \<Longrightarrow> uwrap64 (x + 1) = x + 1"
  by (rule uwrap64_id) simp_all

text \<open>A \<open>uint64\<close> increment always changes the value, wrap-around included.\<close>

lemma uwrap64_Suc_neq: "0 \<le> x \<Longrightarrow> x < 2 ^ 64 \<Longrightarrow> uwrap64 (x + 1) \<noteq> x"
  by (cases "x = 2 ^ 64 - 1") (simp_all add: uwrap64_def)

section \<open>Go maps\<close>

type_synonym 'v gomap = "(string \<times> 'v) list"

abbreviation gm_get :: "'v gomap \<Rightarrow> string \<Rightarrow> 'v option" where
  "gm_get \<equiv> map_of"

abbreviation gm_set :: "string \<Rightarrow> 'v \<Rightarrow> 'v gomap \<Rightarrow> 'v gomap" where
  "gm_set \<equiv> AList.update"

abbreviation gm_del :: "string \<Rightarrow> 'v gomap \<Rightarrow> 'v gomap" where
  "gm_del \<equiv> AList.delete"

abbreviation gm_keys :: "'v gomap \<Rightarrow> string list" where
  "gm_keys m \<equiv> map fst m"

definition gm_ok :: "'v gomap \<Rightarrow> bool" where
  "gm_ok m \<longleftrightarrow> distinct (gm_keys m)"

lemma gm_ok_empty [simp, intro]: "gm_ok []"
  by (simp add: gm_ok_def)

lemma gm_ok_set [simp, intro]: "gm_ok m \<Longrightarrow> gm_ok (gm_set k v m)"
  by (simp add: gm_ok_def distinct_update)

lemma gm_ok_del [simp, intro]: "gm_ok m \<Longrightarrow> gm_ok (gm_del k m)"
  by (simp add: gm_ok_def distinct_delete)

lemma gm_get_set [simp, gomap_simps]: "gm_get (gm_set k v m) = (gm_get m)(k \<mapsto> v)"
  by (simp add: update_conv' fun_eq_iff)

lemma gm_get_del [simp, gomap_simps]: "gm_get (gm_del k m) = (gm_get m)(k := None)"
  by (simp add: delete_conv' fun_eq_iff)

lemma gm_get_None [gomap_simps]: "gm_get m k = None \<longleftrightarrow> k \<notin> set (gm_keys m)"
  by (simp add: map_of_eq_None_iff)

lemma gm_get_Some_key: "gm_get m k = Some v \<Longrightarrow> k \<in> set (gm_keys m)"
  by (metis gm_get_None option.distinct(1))

lemma gm_key_Some: "k \<in> set (gm_keys m) \<Longrightarrow> \<exists>v. gm_get m k = Some v"
  by (metis gm_get_None not_Some_eq)

lemma gm_get_in: "gm_get m k = Some v \<Longrightarrow> (k, v) \<in> set m"
  by (rule map_of_SomeD)

lemma gm_in_get: "gm_ok m \<Longrightarrow> (k, v) \<in> set m \<Longrightarrow> gm_get m k = Some v"
  by (simp add: gm_ok_def)

lemma gm_keys_set [gomap_simps]: "set (gm_keys (gm_set k v m)) = insert k (set (gm_keys m))"
  by (metis dom_map_of_conv_image_fst dom_fun_upd gm_get_set image_set option.distinct(1))

lemma gm_keys_del [gomap_simps]: "set (gm_keys (gm_del k m)) = set (gm_keys m) - {k}"
  by (metis dom_map_of_conv_image_fst dom_fun_upd gm_get_del image_set)

lemma fst_set_set [simp]: "fst ` set (gm_set k v m) = insert k (fst ` set m)"
  using gm_keys_set [of k v m] by simp

lemma fst_set_del [simp]: "fst ` set (gm_del k m) = fst ` set m - {k}"
  using gm_keys_del [of k m] by simp

text \<open>Two lists that agree on every lookup hold the same keys, so sorting the keys agrees.\<close>

lemma gm_eq_keys: "gm_get m = gm_get m' \<Longrightarrow> set (gm_keys m) = set (gm_keys m')"
  by (metis dom_map_of_conv_image_fst image_set)

lemma gm_eq_sorted_keys:
  assumes "gm_ok m" "gm_ok m'" "gm_get m = gm_get m'"
  shows "sort (gm_keys m) = sort (gm_keys m')"
  using assms gm_eq_keys [OF assms(3)]
  by (intro sorted_distinct_set_unique) (simp_all add: gm_ok_def)

text \<open>Building a map by writing one entry after another (a decode loop) keeps the invariant,
  and the last write of a key wins.\<close>

lemma gm_ok_fold_set: "gm_ok m \<Longrightarrow> gm_ok (fold (\<lambda>x. gm_set (k x) (v x)) xs m)"
  by (induction xs arbitrary: m) auto

lemma gm_get_fold_set_notin:
  "a \<notin> k ` set xs \<Longrightarrow> gm_get (fold (\<lambda>x. gm_set (k x) (v x)) xs m) a = gm_get m a"
  by (induction xs arbitrary: m) auto

lemma gm_get_fold_set:
  assumes "distinct (map k xs)" and "x \<in> set xs"
  shows "gm_get (fold (\<lambda>x. gm_set (k x) (v x)) xs m) (k x) = Some (v x)"
  using assms
proof (induction xs arbitrary: m)
  case Nil
  then show ?case by simp
next
  case (Cons y ys)
  show ?case
  proof (cases "x = y")
    case True
    with Cons.prems have "k x \<notin> k ` set ys" by auto
    with True show ?thesis by (simp add: gm_get_fold_set_notin)
  next
    case False
    with Cons show ?thesis by simp
  qed
qed

text \<open>\<open>gm_all P m\<close>: every entry of the map satisfies \<open>P\<close>.\<close>

definition gm_all :: "(string \<Rightarrow> 'v \<Rightarrow> bool) \<Rightarrow> 'v gomap \<Rightarrow> bool" where
  "gm_all P m \<longleftrightarrow> (\<forall>(k, v) \<in> set m. P k v)"

lemma gm_all_empty [simp]: "gm_all P []"
  by (simp add: gm_all_def)

lemma set_update_subset: "set (gm_set k v m) \<subseteq> insert (k, v) (set m)"
  by (induction m) auto

lemma gm_all_set [intro]: "gm_all P m \<Longrightarrow> P k v \<Longrightarrow> gm_all P (gm_set k v m)"
  using set_update_subset [of k v m] by (fastforce simp: gm_all_def)

lemma gm_all_del [intro]: "gm_all P m \<Longrightarrow> gm_all P (gm_del k m)"
  by (auto simp: gm_all_def AList.delete_eq)

lemma gm_all_get: "gm_all P m \<Longrightarrow> gm_get m k = Some v \<Longrightarrow> P k v"
  by (auto simp: gm_all_def dest: gm_get_in)

lemma gm_all_mono: "gm_all P m \<Longrightarrow> (\<And>k v. P k v \<Longrightarrow> Q k v) \<Longrightarrow> gm_all Q m"
  by (auto simp: gm_all_def)

lemma gm_all_iff: "gm_ok m \<Longrightarrow> gm_all P m \<longleftrightarrow> (\<forall>k v. gm_get m k = Some v \<longrightarrow> P k v)"
  using gm_in_get [of m] by (auto simp: gm_all_def dest: gm_get_in)

section \<open>Insertion sort, as the code writes it\<close>

text \<open>
  The inner loop \<open>for j := i; j > 0 && s[j-1] > s[j]; j--\<close> swaps the element at \<open>j\<close> downwards;
  the outer loop runs it for \<open>i = 1, ..., len(s)-1\<close>. Both are kept as they are: the list is
  updated by index, and the comparison looks at a key.
\<close>

fun sift_down :: "('a \<Rightarrow> 'k::linorder) \<Rightarrow> 'a list \<Rightarrow> nat \<Rightarrow> 'a list" where
  "sift_down key s 0 = s"
| "sift_down key s (Suc j) =
     (if key (s ! j) > key (s ! Suc j)
      then sift_down key (s[j := s ! Suc j, Suc j := s ! j]) j
      else s)"

definition insertion_sort :: "('a \<Rightarrow> 'k::linorder) \<Rightarrow> 'a list \<Rightarrow> 'a list" where
  "insertion_sort key s = fold (\<lambda>i s. sift_down key s i) [1..<length s] s"

lemma length_sift_down [simp]: "length (sift_down key s j) = length s"
  by (induction key s j rule: sift_down.induct) auto

lemma mset_sift_down [simp]: "j < length s \<Longrightarrow> mset (sift_down key s j) = mset s"
proof (induction key s j rule: sift_down.induct)
  case (1 key s)
  show ?case by simp
next
  case (2 key s j)
  then show ?case by (simp add: mset_swap)
qed

text \<open>
  Sifting touches only positions up to \<open>j\<close>; if the prefix before \<open>j\<close> is sorted, the prefix up to
  and including \<open>j\<close> is sorted afterwards. The general form says where the sifted element goes.
\<close>

lemma sift_down_append:
  "j < length xs \<Longrightarrow> sift_down key (xs @ ys) j = sift_down key xs j @ ys"
proof (induction key xs j rule: sift_down.induct)
  case (1 key s)
  show ?case by simp
next
  case (2 key s j)
  then show ?case by (simp add: nth_append list_update_append)
qed

lemma sift_down_snoc:
  "sorted (map key xs) \<Longrightarrow>
   sift_down key (xs @ [x]) (length xs) =
     takeWhile (\<lambda>y. key y \<le> key x) xs @ x # dropWhile (\<lambda>y. key y \<le> key x) xs"
proof (induction xs rule: rev_induct)
  case Nil
  show ?case by simp
next
  case (snoc z zs)
  from snoc.prems have zs: "sorted (map key zs)" and z: "\<And>y. y \<in> set zs \<Longrightarrow> key y \<le> key z"
    by (auto simp: sorted_append)
  show ?case
  proof (cases "key x < key z")
    case True
    have swap: "(zs @ [z, x])[length zs := x, Suc (length zs) := z] = zs @ [x] @ [z]"
      by (simp add: list_update_append)
    have "sift_down key (zs @ [z, x]) (Suc (length zs)) =
        sift_down key ((zs @ [x]) @ [z]) (length zs)"
      using True swap by (simp add: nth_append)
    also have "\<dots> = sift_down key (zs @ [x]) (length zs) @ [z]"
      by (rule sift_down_append) simp
    finally have eq: "sift_down key ((zs @ [z]) @ [x]) (length (zs @ [z])) =
        sift_down key (zs @ [x]) (length zs) @ [z]" by simp
    have zx: "\<not> key z \<le> key x" using True by simp
    show ?thesis
    proof (cases "\<forall>y \<in> set zs. key y \<le> key x")
      case all: True
      then show ?thesis using eq snoc.IH [OF zs] zx
        by (simp add: takeWhile_append dropWhile_append)
    next
      case False
      then show ?thesis using eq snoc.IH [OF zs]
        by (auto simp: takeWhile_append dropWhile_append)
    qed
  next
    case False
    have all: "\<And>y. y \<in> set (zs @ [z]) \<Longrightarrow> key y \<le> key x"
      using False z by fastforce
    have "takeWhile (\<lambda>y. key y \<le> key x) (zs @ [z]) = zs @ [z]"
      and "dropWhile (\<lambda>y. key y \<le> key x) (zs @ [z]) = []"
      using all by (auto simp: takeWhile_eq_all_conv)
    moreover have "sift_down key ((zs @ [z]) @ [x]) (length (zs @ [z])) = zs @ [z, x]"
      using False by (simp add: nth_append)
    ultimately show ?thesis by simp
  qed
qed

lemma sorted_insert_at:
  assumes "sorted (map key xs)"
  shows "sorted (map key (takeWhile (\<lambda>y. key y \<le> key x) xs @ x # dropWhile (\<lambda>y. key y \<le> key x) xs))"
  using assms
proof (induction xs)
  case Nil
  show ?case by simp
next
  case (Cons a as)
  then show ?case
    by (cases "key a \<le> key x") (auto dest: set_takeWhileD set_dropWhileD)
qed

lemma insertion_sort_prefix:
  "n \<le> length s \<Longrightarrow> 0 < n \<Longrightarrow>
   (let t = fold (\<lambda>i s. sift_down key s i) [1..<n] s
    in mset t = mset s \<and> sorted (map key (take n t)) \<and> length t = length s)"
proof (induction n)
  case 0
  then show ?case by simp
next
  case (Suc n)
  show ?case
  proof (cases "n = 0")
    case True
    then show ?thesis by (cases s) simp_all
  next
    case False
    define t where "t = fold (\<lambda>i s. sift_down key s i) [1..<n] s"
    have t: "mset t = mset s" "sorted (map key (take n t))" "length t = length s"
      using Suc False by (simp_all add: t_def Let_def)
    have fold: "fold (\<lambda>i s. sift_down key s i) [1..<Suc n] s = sift_down key t n"
      using False by (simp add: t_def)
    have split: "t = (take n t @ [t ! n]) @ drop (Suc n) t"
      using Suc.prems t(3) by (simp add: take_Suc_conv_app_nth [symmetric])
    have len: "length (take n t) = n" using Suc.prems t(3) by simp
    have "sift_down key t n = sift_down key (take n t @ [t ! n]) n @ drop (Suc n) t"
      using sift_down_append [of n "take n t @ [t ! n]" key "drop (Suc n) t"] len split by simp
    moreover have "length (sift_down key (take n t @ [t ! n]) n) = Suc n"
      using len by simp
    ultimately have "take (Suc n) (sift_down key t n) = sift_down key (take n t @ [t ! n]) n"
      by simp
    also have "\<dots> = takeWhile (\<lambda>y. key y \<le> key (t ! n)) (take n t) @ t ! n #
        dropWhile (\<lambda>y. key y \<le> key (t ! n)) (take n t)"
      using sift_down_snoc [OF t(2), of "t ! n"] len by simp
    finally have "sorted (map key (take (Suc n) (sift_down key t n)))"
      using sorted_insert_at [OF t(2)] by simp
    then show ?thesis
      using Suc.prems t fold by (simp add: Let_def)
  qed
qed

lemma mset_insertion_sort: "mset (insertion_sort key s) = mset s"
  using insertion_sort_prefix [of "length s" s key]
  by (cases "s = []") (simp_all add: insertion_sort_def Let_def)

lemma sorted_insertion_sort: "sorted (map key (insertion_sort key s))"
  using insertion_sort_prefix [of "length s" s key]
  by (cases "s = []") (auto simp: insertion_sort_def Let_def dest: arg_cong [of _ _ length])

lemma set_insertion_sort [simp]: "set (insertion_sort key s) = set s"
  by (metis mset_insertion_sort set_mset_mset)

lemma insertion_sort_eq_sort: "insertion_sort (\<lambda>x. x) s = sort s"
  by (rule properties_for_sort [symmetric])
    (simp_all add: mset_insertion_sort sorted_insertion_sort [of "\<lambda>x. x", simplified])

section \<open>Systems of operations\<close>

text \<open>
  The contracts the components are proved against. An \<open>op_system\<close> runs operations on a state and
  has an invariant that every admissible operation keeps; a \<open>fallible_system\<close> also says which
  operations return an error, and promises that those leave the view of the state as it was; a
  \<open>monotone_system\<close> has a preorder that every operation climbs.
\<close>

locale op_system =
  fixes exec :: "'op \<Rightarrow> 's \<Rightarrow> 's" and op_ok :: "'op \<Rightarrow> bool" and inv :: "'s \<Rightarrow> bool"
  assumes inv_exec: "inv s \<Longrightarrow> op_ok op \<Longrightarrow> inv (exec op s)"
begin

lemma inv_run: "inv s \<Longrightarrow> list_all op_ok ops \<Longrightarrow> inv (fold exec ops s)"
  by (induction ops arbitrary: s) (auto intro: inv_exec)

lemma inv_run_prefix:
  "inv s \<Longrightarrow> list_all op_ok (ops @ ops') \<Longrightarrow> inv (fold exec ops s)"
  by (rule inv_run) simp_all

end

locale fallible_system = op_system exec op_ok inv
  for exec :: "'op \<Rightarrow> 's \<Rightarrow> 's" and op_ok :: "'op \<Rightarrow> bool" and inv :: "'s \<Rightarrow> bool" +
  fixes err :: "'op \<Rightarrow> 's \<Rightarrow> bool" and view :: "'s \<Rightarrow> 'v"
  assumes err_view: "inv s \<Longrightarrow> op_ok op \<Longrightarrow> err op s \<Longrightarrow> view (exec op s) = view s"
begin

lemma failed_run:
  assumes "inv s" and "list_all op_ok ops"
    and "\<And>op t. inv t \<Longrightarrow> op \<in> set ops \<Longrightarrow> err op t"
  shows "view (fold exec ops s) = view s"
  using assms
proof (induction ops arbitrary: s)
  case Nil
  show ?case by simp
next
  case (Cons op ops)
  then have "inv (exec op s)" and "view (exec op s) = view s"
    by (auto intro: inv_exec err_view)
  with Cons show ?case by simp
qed

end

locale monotone_system = op_system exec op_ok inv
  for exec :: "'op \<Rightarrow> 's \<Rightarrow> 's" and op_ok :: "'op \<Rightarrow> bool" and inv :: "'s \<Rightarrow> bool" +
  fixes le :: "'s \<Rightarrow> 's \<Rightarrow> bool"
  assumes le_refl: "le s s"
    and le_trans: "le s t \<Longrightarrow> le t u \<Longrightarrow> le s u"
    and le_exec: "inv s \<Longrightarrow> op_ok op \<Longrightarrow> le s (exec op s)"
begin

lemma le_run: "inv s \<Longrightarrow> list_all op_ok ops \<Longrightarrow> le s (fold exec ops s)"
proof (induction ops arbitrary: s)
  case Nil
  show ?case by (simp add: le_refl)
next
  case (Cons op ops)
  then show ?case
    by (auto intro: le_trans [OF le_exec] inv_exec)
qed

end

section \<open>Lists and options\<close>

text \<open>The first element that satisfies a test, the shape of every search loop of the code.\<close>

lemma find_Some_D: "find P xs = Some x \<Longrightarrow> x \<in> set xs \<and> P x"
  by (auto simp: find_Some_iff in_set_conv_nth)

lemma find_None_D: "find P xs = None \<longleftrightarrow> (\<forall>x \<in> set xs. \<not> P x)"
  by (auto simp: find_None_iff)

lemma find_snoc: "(\<And>x. x \<in> set xs \<Longrightarrow> \<not> P x) \<Longrightarrow> P y \<Longrightarrow> find P (xs @ [y]) = Some y"
  by (induction xs) auto

end
