(* ===== verification/State_Locks.thy ===== *)
theory State_Locks
  imports Creek_Prelude
begin

text \<open>
  \<open>internal/state/locks.go\<close>: the per-app locks. \<open>AppLock\<close> is the map from id to mutex; a mutex is a number,
  and \<open>fresh\<close> is the one the caller allocated in case there is none yet. Goroutines inside \<open>LockMany\<close>
  are threads of a step relation: what is still to lock, in order, and what is held, oldest first.
\<close>

section \<open>The lock map\<close>

definition AppLock :: "string \<Rightarrow> nat \<Rightarrow> nat gomap \<Rightarrow> nat \<times> nat gomap" where
  "AppLock i fresh m = (case gm_get m i of Some v \<Rightarrow> (v, m) | None \<Rightarrow> (fresh, gm_set i fresh m))"

definition sortedCopy :: "string list \<Rightarrow> string list" where
  "sortedCopy s = sort s"

fun dedup_loop :: "string list \<Rightarrow> string list \<Rightarrow> string list" where
  "dedup_loop out [] = out"
| "dedup_loop out (v # vs) = (if v \<noteq> last out then dedup_loop (out @ [v]) vs else dedup_loop out vs)"

definition dedupSorted :: "string list \<Rightarrow> string list" where
  "dedupSorted s = (if length s < 2 then s else dedup_loop [hd s] (tl s))"

definition lock_order :: "string list \<Rightarrow> string list" where
  "lock_order ids = (if ids = [] then [] else dedupSorted (sortedCopy ids))"

section \<open>Goroutines\<close>

record lk_thread =
  lt_want :: "string list"
  lt_held :: "string list"

definition LockMany :: "string list \<Rightarrow> lk_thread" where
  "LockMany ids = \<lparr>lt_want = lock_order ids, lt_held = []\<rparr>"

definition lk_holds :: "lk_thread list \<Rightarrow> string \<Rightarrow> bool" where
  "lk_holds sys l \<longleftrightarrow> list_ex (\<lambda>t. l \<in> set (lt_held t)) sys"

inductive lk_step :: "lk_thread list \<Rightarrow> lk_thread list \<Rightarrow> bool" where
  acquire: "i < length sys \<Longrightarrow> lt_want (sys ! i) = l # ws \<Longrightarrow> \<not> lk_holds sys l \<Longrightarrow>
    lk_step sys (sys[i := \<lparr>lt_want = ws, lt_held = lt_held (sys ! i) @ [l]\<rparr>])"
| release: "i < length sys \<Longrightarrow> lt_want (sys ! i) = [] \<Longrightarrow> lt_held (sys ! i) = hs @ [l] \<Longrightarrow>
    lk_step sys (sys[i := \<lparr>lt_want = [], lt_held = hs\<rparr>])"

inductive_cases lk_stepE: "lk_step sys sys'"

definition lk_finished :: "lk_thread list \<Rightarrow> bool" where
  "lk_finished sys \<longleftrightarrow> list_all (\<lambda>t. lt_want t = [] \<and> lt_held t = []) sys"

section \<open>The order\<close>

lemma dedup_loop_spec:
  assumes "sorted_wrt (<) out" and "out \<noteq> []" and "sorted (last out # vs)"
  shows "sorted_wrt (<) (dedup_loop out vs) \<and> set (dedup_loop out vs) = set out \<union> set vs"
  using assms
proof (induction out vs rule: dedup_loop.induct)
  case (1 out)
  then show ?case by simp
next
  case (2 out v vs)
  show ?case
  proof (cases "v = last out")
    case True
    with 2 show ?thesis by auto
  next
    case False
    then have lt: "last out < v" using 2(5) by (auto simp: less_le)
    have all: "x \<le> last out" if "x \<in> set out" for x
      using that 2(3,4) by (induction out rule: rev_induct) (auto simp: sorted_wrt_append)
    have "sorted_wrt (<) (out @ [v])" using 2(3) lt all by (fastforce simp: sorted_wrt_append)
    with False 2 show ?thesis by auto
  qed
qed

lemma lock_order_spec: "sorted_wrt (<) (lock_order ids) \<and> set (lock_order ids) = set ids"
proof (cases "sort ids")
  case Nil
  then have "ids = []" by (metis set_empty set_sort)
  then show ?thesis by (simp add: lock_order_def)
next
  case (Cons v vs)
  have st: "sorted (v # vs)" using Cons by (metis sorted_sort)
  have ids: "set (v # vs) = set ids" using Cons by (metis set_sort)
  have "lock_order ids = (if vs = [] then [v] else dedup_loop [v] vs)"
    using Cons by (cases vs) (auto simp: lock_order_def dedupSorted_def sortedCopy_def)
  with dedup_loop_spec [of "[v]" vs] st ids show ?thesis by auto
qed

section \<open>Invariant, progress, termination\<close>

definition thread_ok :: "lk_thread \<Rightarrow> bool" where
  "thread_ok t \<longleftrightarrow> sorted_wrt (<) (lt_held t @ lt_want t)"

definition lk_inv :: "lk_thread list \<Rightarrow> bool" where
  "lk_inv sys \<longleftrightarrow> list_all thread_ok sys \<and>
     (\<forall>i j. i < length sys \<and> j < length sys \<and> i \<noteq> j \<longrightarrow> set (lt_held (sys ! i)) \<inter> set (lt_held (sys ! j)) = {})"

lemma thread_ok_prefix: "sorted_wrt (<) (hs @ [l]) \<Longrightarrow> sorted_wrt (<) hs"
  by (simp add: sorted_wrt_append)

lemma lk_inv_step: "lk_step sys sys' \<Longrightarrow> lk_inv sys \<Longrightarrow> lk_inv sys'"
proof (induction rule: lk_step.induct)
  case (acquire i sys l ws)
  have ok: "thread_ok \<lparr>lt_want = ws, lt_held = lt_held (sys ! i) @ [l]\<rparr>"
    using acquire by (auto simp: lk_inv_def list_all_length thread_ok_def)
  have free: "l \<notin> set (lt_held (sys ! j))" if "j < length sys" for j
    using acquire(3) that by (auto simp: lk_holds_def list_ex_iff)
  show ?case
    using acquire ok free unfolding lk_inv_def list_all_length
    by (auto simp: nth_list_update)
next
  case (release i sys hs l)
  have ok: "thread_ok \<lparr>lt_want = [], lt_held = hs\<rparr>"
    using release by (auto simp: lk_inv_def list_all_length thread_ok_def sorted_wrt_append)
  show ?case
    using release ok unfolding lk_inv_def list_all_length
    by (auto simp: nth_list_update) (metis Un_iff disjoint_iff set_append)+
qed

definition lk_measure :: "lk_thread list \<Rightarrow> nat" where
  "lk_measure sys = sum_list (map (\<lambda>t. 2 * length (lt_want t) + length (lt_held t)) sys)"

lemma sum_list_update_less:
  "i < length xs \<Longrightarrow> f y < f (xs ! i) \<Longrightarrow> sum_list (map f (xs[i := y])) < sum_list (map f xs)" for f :: "'a \<Rightarrow> nat"
proof (induction xs arbitrary: i)
  case (Cons x xs)
  then show ?case by (cases i) auto
qed simp

lemma lk_measure_step: "lk_step sys sys' \<Longrightarrow> lk_measure sys' < lk_measure sys"
  unfolding lk_measure_def by (induction rule: lk_step.induct) (auto intro!: sum_list_update_less)

text \<open>Some thread can always move: look at the blocked thread that waits for the largest lock.\<close>

lemma lk_progress:
  assumes inv: "lk_inv sys" and "\<not> lk_finished sys"
  shows "\<exists>sys'. lk_step sys sys'"
proof (rule ccontr)
  assume stuck: "\<nexists>sys'. lk_step sys sys'"
  have held0: "lt_held t = []" if "t \<in> set sys" "lt_want t = []" for t
  proof (rule ccontr)
    assume "lt_held t \<noteq> []"
    then obtain hs l where "lt_held t = hs @ [l]" by (metis rev_exhaust)
    with that stuck show False by (metis in_set_conv_nth lk_step.release)
  qed
  let ?B = "{t \<in> set sys. lt_want t \<noteq> []}"
  have ne: "?B \<noteq> {}" using assms(2) held0 by (auto simp: lk_finished_def list_all_iff)
  define m where "m = Max ((\<lambda>t. hd (lt_want t)) ` ?B)"
  have "m \<in> (\<lambda>t. hd (lt_want t)) ` ?B" unfolding m_def by (rule Max_in) (use ne in auto)
  then obtain t where t: "t \<in> set sys" "lt_want t \<noteq> []" "hd (lt_want t) = m" by auto
  then obtain ws where ws: "lt_want t = m # ws" by (cases "lt_want t") auto
  obtain i where i: "i < length sys" "sys ! i = t" using t(1) by (metis in_set_conv_nth)
  have "lk_holds sys m" using stuck lk_step.acquire [OF i(1)] ws i(2) by blast
  then obtain u where u: "u \<in> set sys" "m \<in> set (lt_held u)" by (auto simp: lk_holds_def list_ex_iff)
  then have uw: "lt_want u \<noteq> []" using held0 [of u] by auto
  have "thread_ok u" using inv u(1) by (simp add: lk_inv_def list_all_iff)
  then have "m < hd (lt_want u)" using u(2) uw by (auto simp: thread_ok_def sorted_wrt_append)
  moreover have "hd (lt_want u) \<le> m" unfolding m_def by (rule Max_ge) (use u uw in auto)
  ultimately show False by simp
qed

lemma lk_start_inv: "lk_inv (map LockMany idss)"
  using lock_order_spec by (auto simp: lk_inv_def list_all_iff thread_ok_def LockMany_def)

lemma lk_reach_inv: "lk_step\<^sup>*\<^sup>* sys sys' \<Longrightarrow> lk_inv sys \<Longrightarrow> lk_inv sys'"
  by (induction rule: rtranclp_induct) (auto intro: lk_inv_step)

lemma lk_completes: "lk_inv sys \<Longrightarrow> \<exists>sys'. lk_step\<^sup>*\<^sup>* sys sys' \<and> lk_finished sys'"
proof (induction "lk_measure sys" arbitrary: sys rule: less_induct)
  case less
  show ?case
  proof (cases "lk_finished sys")
    case False
    then obtain s1 where s1: "lk_step sys s1" using lk_progress less.prems by blast
    from less.hyps [OF lk_measure_step [OF s1] lk_inv_step [OF s1 less.prems]]
    obtain s2 where "lk_step\<^sup>*\<^sup>* s1 s2" "lk_finished s2" by blast
    with s1 show ?thesis by (meson converse_rtranclp_into_rtranclp)
  qed blast
qed

section \<open>Properties\<close>

text \<open>
  C40: No deadlock among cross-app operations. Goroutines that lock any sets of apps with \<open>LockMany\<close>, in any
  interleaving, never block one another for good: in every reachable state that is not finished some
  goroutine can take its next step, no lock is ever held by two of them, every step uses up a bounded
  budget, and so every run can be, and every maximal run is, completed with all locks released.
\<close>

theorem LockMany_deadlock_free:
  assumes "lk_step\<^sup>*\<^sup>* (map LockMany idss) sys"
  shows "(lk_finished sys \<or> (\<exists>sys'. lk_step sys sys')) \<and> (\<forall>sys'. lk_step sys sys' \<longrightarrow> lk_measure sys' < lk_measure sys) \<and>
    (\<exists>sys'. lk_step\<^sup>*\<^sup>* sys sys' \<and> lk_finished sys') \<and>
    (\<forall>i j. i < length sys \<and> j < length sys \<and> i \<noteq> j \<longrightarrow> set (lt_held (sys ! i)) \<inter> set (lt_held (sys ! j)) = {})"
proof -
  have inv: "lk_inv sys" by (rule lk_reach_inv [OF assms lk_start_inv])
  then show ?thesis using lk_progress [OF inv] lk_measure_step lk_completes [OF inv] by (auto simp: lk_inv_def)
qed

theorem LockMany_deadlock_free_witness:
  "\<exists>sys'. lk_step\<^sup>*\<^sup>* (map LockMany [[''b'', ''a''], [''a'', ''b'']]) sys' \<and> lk_finished sys'"
  using LockMany_deadlock_free [of "[[''b'', ''a''], [''a'', ''b'']]"] by blast

end
