(* ===== verification/Go_Strings.thy ===== *)
theory Go_Strings
  imports Creek_Prelude
begin

text \<open>
  What the code uses of Go's \<open>strings\<close> and \<open>path/filepath\<close> packages, on byte strings: prefix and
  suffix tests and cuts, splitting on a byte, trimming ASCII white space, and the lexical path
  functions \<open>Clean\<close>, \<open>IsAbs\<close>, \<open>Join\<close>, \<open>Rel\<close> and \<open>Base\<close> with the Unix separator. A cleaned path is
  studied through its list of segments: \<open>path_segs\<close> of an absolute cleaned path has no empty,
  \<open>"."\<close> or \<open>".."\<close> segment, and \<open>Rel\<close> is the difference of two segment lists.
\<close>

section \<open>Prefixes, suffixes, splitting\<close>

definition HasPrefix :: "string \<Rightarrow> string \<Rightarrow> bool" where
  "HasPrefix s p \<longleftrightarrow> take (length p) s = p"

definition HasSuffix :: "string \<Rightarrow> string \<Rightarrow> bool" where
  "HasSuffix s p \<longleftrightarrow> length p \<le> length s \<and> drop (length s - length p) s = p"

definition CutPrefix :: "string \<Rightarrow> string \<Rightarrow> string option" where
  "CutPrefix s p = (if HasPrefix s p then Some (drop (length p) s) else None)"

definition TrimPrefix :: "string \<Rightarrow> string \<Rightarrow> string" where
  "TrimPrefix s p = (if HasPrefix s p then drop (length p) s else s)"

definition TrimSuffix :: "string \<Rightarrow> string \<Rightarrow> string" where
  "TrimSuffix s p = (if HasSuffix s p then take (length s - length p) s else s)"

lemma HasPrefix_append [simp]: "HasPrefix (p @ s) p"
  by (simp add: HasPrefix_def)

lemma HasPrefix_iff: "HasPrefix s p \<longleftrightarrow> (\<exists>r. s = p @ r)"
  by (auto simp: HasPrefix_def) (metis append_take_drop_id)

lemma HasSuffix_iff: "HasSuffix s p \<longleftrightarrow> (\<exists>r. s = r @ p)"
proof
  assume "HasSuffix s p"
  then have "s = take (length s - length p) s @ p"
    by (metis HasSuffix_def append_take_drop_id)
  then show "\<exists>r. s = r @ p" by blast
qed (auto simp: HasSuffix_def)

lemma TrimPrefix_append [simp]: "TrimPrefix (p @ s) p = s"
  by (simp add: TrimPrefix_def)

lemma TrimSuffix_append [simp]: "TrimSuffix (s @ p) p = s"
  by (simp add: TrimSuffix_def HasSuffix_iff)

lemma TrimSuffix_id: "\<not> HasSuffix s p \<Longrightarrow> TrimSuffix s p = s"
  by (simp add: TrimSuffix_def)

text \<open>\<open>strings.Split(s, c)\<close> for a one-byte separator: never empty, \<open>[""]\<close> for the empty string.\<close>

fun split_on :: "char \<Rightarrow> string \<Rightarrow> string list" where
  "split_on c [] = [[]]"
| "split_on c (x # xs) =
     (if x = c then [] # split_on c xs
      else case split_on c xs of [] \<Rightarrow> [[x]] | w # ws \<Rightarrow> (x # w) # ws)"

fun join_on :: "char \<Rightarrow> string list \<Rightarrow> string" where
  "join_on c [] = []"
| "join_on c [w] = w"
| "join_on c (w # ws) = w @ c # join_on c ws"

lemma split_on_neq_Nil [simp]: "split_on c s \<noteq> []"
  by (induction s) (auto split: list.splits)

lemma split_on_no_sep: "w \<in> set (split_on c s) \<Longrightarrow> c \<notin> set w"
  by (induction s arbitrary: w) (auto split: list.splits if_splits)

lemma join_split: "join_on c (split_on c s) = s"
proof (induction s)
  case Nil
  show ?case by simp
next
  case (Cons x xs)
  obtain w ws where sp: "split_on c xs = w # ws"
    by (cases "split_on c xs") auto
  with Cons show ?case by (cases ws) auto
qed

lemma split_on_nosep: "c \<notin> set w \<Longrightarrow> split_on c w = [w]"
  by (induction w) auto

lemma split_on_append_sep: "c \<notin> set w \<Longrightarrow> split_on c (w @ c # s) = w # split_on c s"
  by (induction w) auto

lemma split_on_append: "split_on c (s @ c # t) = split_on c s @ split_on c t"
  by (induction s) (auto split: list.splits)

lemma split_join:
  "ws \<noteq> [] \<Longrightarrow> (\<And>w. w \<in> set ws \<Longrightarrow> c \<notin> set w) \<Longrightarrow> split_on c (join_on c ws) = ws"
  by (induction c ws rule: join_on.induct) (auto simp: split_on_nosep split_on_append_sep)

section \<open>White space\<close>

definition is_space :: "char \<Rightarrow> bool" where
  "is_space c \<longleftrightarrow> c \<in> {CHR 0x09, CHR 0x0A, CHR 0x0B, CHR 0x0C, CHR 0x0D, CHR '' ''}"

definition TrimSpace :: "string \<Rightarrow> string" where
  "TrimSpace s = rev (dropWhile is_space (rev (dropWhile is_space s)))"

text \<open>\<open>bufio.ScanLines\<close>: lines without their end and without a carriage return before it.\<close>

definition ScanLines :: "string \<Rightarrow> string list" where
  "ScanLines s = (let ls = split_on (CHR 0x0A) s in map (\<lambda>l. TrimSuffix l [CHR 0x0D]) (if last ls = [] then butlast ls else ls))"

text \<open>\<open>strings.FieldsFunc\<close>: the maximal runs of bytes that do not satisfy the test.\<close>

fun split_by :: "(char \<Rightarrow> bool) \<Rightarrow> string \<Rightarrow> string list" where
  "split_by f [] = [[]]"
| "split_by f (x # xs) =
     (if f x then [] # split_by f xs
      else case split_by f xs of [] \<Rightarrow> [[x]] | w # ws \<Rightarrow> (x # w) # ws)"

definition FieldsFunc :: "(char \<Rightarrow> bool) \<Rightarrow> string \<Rightarrow> string list" where
  "FieldsFunc f s = filter (\<lambda>w. w \<noteq> []) (split_by f s)"

definition Fields :: "string \<Rightarrow> string list" where
  "Fields s = FieldsFunc is_space s"

lemma split_by_no_sep: "w \<in> set (split_by f s) \<Longrightarrow> c \<in> set w \<Longrightarrow> \<not> f c"
proof (induction s arbitrary: w)
  case Nil
  then show ?case by simp
next
  case (Cons a s)
  then show ?case by (cases "split_by f s") (auto split: if_splits, blast)
qed

lemma FieldsFunc_clean: "w \<in> set (FieldsFunc f s) \<Longrightarrow> w \<noteq> [] \<and> (\<forall>c \<in> set w. \<not> f c)"
  by (auto simp: FieldsFunc_def dest: split_by_no_sep)

section \<open>Numbers\<close>

text \<open>
  \<open>strconv.ParseUint\<close>, \<open>strconv.ParseInt\<close> and \<open>strconv.Atoi\<close>: \<open>None\<close> is the syntax or range error.
  The digits of base \<open>b\<close> are \<open>0-9\<close> and the letters in either case; an empty string is an error.
\<close>

definition digit_val :: "char \<Rightarrow> nat option" where
  "digit_val c =
     (let n = of_char c :: nat in
      if 48 \<le> n \<and> n \<le> 57 then Some (n - 48)
      else if 97 \<le> n \<and> n \<le> 122 then Some (n - 87)
      else if 65 \<le> n \<and> n \<le> 90 then Some (n - 55)
      else None)"

fun parse_digits :: "nat \<Rightarrow> nat \<Rightarrow> string \<Rightarrow> nat option" where
  "parse_digits b acc [] = Some acc"
| "parse_digits b acc (c # cs) =
     (case digit_val c of
        None \<Rightarrow> None
      | Some d \<Rightarrow> if d < b then parse_digits b (acc * b + d) cs else None)"

definition ParseUint :: "nat \<Rightarrow> string \<Rightarrow> nat option" where
  "ParseUint b s =
     (if s = [] then None
      else case parse_digits b 0 s of
        None \<Rightarrow> None
      | Some n \<Rightarrow> if n < 2 ^ 64 then Some n else None)"

definition ParseInt :: "string \<Rightarrow> int option" where
  "ParseInt s =
     (let neg = HasPrefix s ''-'';
          t = (if HasPrefix s ''-'' \<or> HasPrefix s ''+'' then tl s else s)
      in case ParseUint 10 t of
        None \<Rightarrow> None
      | Some n \<Rightarrow>
          if neg then (if n \<le> 2 ^ 63 then Some (- int n) else None)
          else (if n < 2 ^ 63 then Some (int n) else None))"

text \<open>\<open>strconv.FormatUint(n, 10)\<close>, and \<open>FormatInt\<close> on top of it.\<close>

definition digit_char :: "nat \<Rightarrow> char" where
  "digit_char d = char_of (48 + d)"

fun FormatUint :: "nat \<Rightarrow> string" where
  "FormatUint n =
     (if n < 10 then [digit_char n] else FormatUint (n div 10) @ [digit_char (n mod 10)])"

declare FormatUint.simps [simp del]

definition FormatInt :: "int \<Rightarrow> string" where
  "FormatInt i = (if i < 0 then CHR ''-'' # FormatUint (nat (- i)) else FormatUint (nat i))"

lemma digit_val_char [simp]: "d < 10 \<Longrightarrow> digit_val (digit_char d) = Some d"
  by (simp add: digit_val_def digit_char_def)

lemma parse_digits_append:
  "parse_digits b acc (xs @ ys) =
     (case parse_digits b acc xs of None \<Rightarrow> None | Some a \<Rightarrow> parse_digits b a ys)"
  by (induction b acc xs rule: parse_digits.induct) (auto split: option.splits)

lemma parse_FormatUint: "parse_digits 10 0 (FormatUint n) = Some n"
proof (induction n rule: FormatUint.induct)
  case (1 n)
  then show ?case
    by (cases "n < 10")
      (simp_all add: FormatUint.simps [of n] parse_digits_append)
qed

lemma FormatUint_neq_Nil [simp]: "FormatUint n \<noteq> []"
  by (simp add: FormatUint.simps [of n])

lemma ParseUint_FormatUint: "n < 2 ^ 64 \<Longrightarrow> ParseUint 10 (FormatUint n) = Some n"
  by (simp add: ParseUint_def parse_FormatUint)

lemma FormatUint_inject: "FormatUint m = FormatUint n \<longleftrightarrow> m = n"
  by (metis option.inject parse_FormatUint)

lemma of_char_digit: "d < 10 \<Longrightarrow> (of_char (digit_char d) :: nat) = 48 + d"
  by (simp add: digit_char_def)

lemma FormatUint_digits: "c \<in> set (FormatUint n) \<Longrightarrow> 48 \<le> (of_char c :: nat) \<and> (of_char c :: nat) \<le> 57"
proof (induction n rule: FormatUint.induct)
  case (1 n)
  then show ?case by (auto simp: FormatUint.simps [of n] of_char_digit split: if_splits)
qed

lemma ParseInt_FormatUint: "ParseInt (FormatUint n) = (if n < 2 ^ 63 then Some (int n) else None)"
proof -
  obtain c cs where c: "FormatUint n = c # cs" by (cases "FormatUint n") auto
  then have "c \<noteq> CHR ''-''" "c \<noteq> CHR ''+''" using FormatUint_digits [of c n] by auto
  then have "\<not> HasPrefix (FormatUint n) ''-''" "\<not> HasPrefix (FormatUint n) ''+''"
    using c by (auto simp: HasPrefix_def)
  then show ?thesis by (simp add: ParseInt_def ParseUint_def parse_FormatUint Let_def)
qed

lemma ParseUint_bound: "ParseUint b s = Some n \<Longrightarrow> n < 2 ^ 64"
  by (auto simp: ParseUint_def split: option.splits if_splits)

lemma ParseInt_ok: "ParseInt s = Some i \<Longrightarrow> int64_ok i"
  by (auto simp: ParseInt_def int64_ok_def Let_def split: option.splits if_splits)

section \<open>Lexical paths\<close>

abbreviation (input) sep :: char where
  "sep \<equiv> CHR ''/''"

definition IsAbs :: "string \<Rightarrow> bool" where
  "IsAbs p \<longleftrightarrow> HasPrefix p ''/''"

text \<open>
  \<open>filepath.Clean\<close>: the stack holds the output segments, last first. An empty or \<open>"."\<close> segment is
  dropped; \<open>".."\<close> removes the last output segment unless that is itself a \<open>".."\<close>; at the root of
  an absolute path it is dropped, and in front of a relative path it is kept.
\<close>

fun clean_segs :: "bool \<Rightarrow> string list \<Rightarrow> string list \<Rightarrow> string list" where
  "clean_segs rooted [] out = rev out"
| "clean_segs rooted (w # ws) out =
     (if w = [] \<or> w = ''.'' then clean_segs rooted ws out
      else if w = ''..'' then
        (case out of
           [] \<Rightarrow> clean_segs rooted ws (if rooted then [] else [''..''])
         | o1 # os \<Rightarrow> if o1 = ''..'' then clean_segs rooted ws (''..'' # out)
                     else clean_segs rooted ws os)
      else clean_segs rooted ws (w # out))"

definition path_segs :: "string \<Rightarrow> string list" where
  "path_segs p = clean_segs (IsAbs p) (split_on sep p) []"

definition Clean :: "string \<Rightarrow> string" where
  "Clean p =
     (if IsAbs p then sep # join_on sep (path_segs p)
      else if path_segs p = [] then ''.'' else join_on sep (path_segs p))"

definition Join :: "string \<Rightarrow> string \<Rightarrow> string" where
  "Join a b =
     (if a = [] \<and> b = [] then []
      else if a = [] then Clean b
      else if b = [] then Clean a
      else Clean (a @ sep # b))"

text \<open>\<open>filepath.Rel\<close> on cleaned arguments; \<open>None\<close> is its error.\<close>

fun drop_common :: "string list \<Rightarrow> string list \<Rightarrow> string list \<times> string list" where
  "drop_common (x # xs) (y # ys) = (if x = y then drop_common xs ys else (x # xs, y # ys))"
| "drop_common xs ys = (xs, ys)"

definition Rel :: "string \<Rightarrow> string \<Rightarrow> string option" where
  "Rel base targ =
     (if Clean base = Clean targ then Some ''.''
      else if IsAbs (Clean base) \<noteq> IsAbs (Clean targ) then None
      else case drop_common (path_segs base) (path_segs targ) of
        (bs, ts) \<Rightarrow>
          if bs \<noteq> [] \<and> hd bs = ''..'' then None
          else Some (join_on sep (map (\<lambda>_. ''..'') bs @ ts)))"

text \<open>\<open>filepath.Base\<close> of a path without trailing separators handled by the general rule.\<close>

definition Base :: "string \<Rightarrow> string" where
  "Base p =
     (if p = [] then ''.''
      else let q = rev (dropWhile (\<lambda>c. c = sep) (rev p))
           in if q = [] then ''/'' else last (split_on sep q))"

subsection \<open>Segments of an absolute path\<close>

definition proper_seg :: "string \<Rightarrow> bool" where
  "proper_seg w \<longleftrightarrow> w \<noteq> [] \<and> w \<noteq> ''.'' \<and> w \<noteq> ''..'' \<and> sep \<notin> set w"

lemma clean_segs_proper:
  assumes "\<forall>w \<in> set ws. sep \<notin> set w" and "list_all proper_seg out"
  shows "list_all proper_seg (clean_segs True ws out)"
  using assms
proof (induction ws arbitrary: out)
  case Nil
  then show ?case by simp
next
  case (Cons w ws)
  from Cons.prems have ws: "\<forall>w \<in> set ws. sep \<notin> set w" by simp
  show ?case
  proof (cases "w = ''..''")
    case True
    with Cons.prems have "list_all proper_seg (tl out)" by (cases out) auto
    moreover have "out \<noteq> [] \<Longrightarrow> hd out \<noteq> ''..''"
      using Cons.prems by (cases out) (auto simp: proper_seg_def)
    ultimately show ?thesis
      using True Cons.IH [OF ws] by (cases out) auto
  next
    case False
    then show ?thesis
      using Cons.IH [OF ws, of out] Cons.IH [OF ws, of "w # out"] Cons.prems
      by (auto simp: proper_seg_def)
  qed
qed

lemma path_segs_proper: "IsAbs p \<Longrightarrow> list_all proper_seg (path_segs p)"
  by (auto simp: path_segs_def intro!: clean_segs_proper dest: split_on_no_sep)

lemma clean_segs_id:
  "list_all proper_seg ws \<Longrightarrow> clean_segs r ws out = rev out @ ws"
  by (induction ws arbitrary: out) (auto simp: proper_seg_def)

lemma split_join_proper:
  "list_all proper_seg ws \<Longrightarrow> ws \<noteq> [] \<Longrightarrow> split_on sep (join_on sep ws) = ws"
  by (rule split_join) (auto simp: list_all_iff proper_seg_def)

lemma split_join_abs:
  assumes "list_all proper_seg ws"
  shows "split_on sep (sep # join_on sep ws) = [] # (if ws = [] then [[]] else ws)"
  using split_join_proper [OF assms] by auto

lemma path_segs_abs_join:
  assumes "list_all proper_seg ws"
  shows "path_segs (sep # join_on sep ws) = ws"
proof (cases ws)
  case Nil
  then show ?thesis by (simp add: path_segs_def IsAbs_def HasPrefix_def)
next
  case (Cons a as)
  then show ?thesis
    using assms split_join_abs [OF assms] clean_segs_id [OF assms]
    by (simp add: path_segs_def del: split_on.simps clean_segs.simps(2))
      (simp add: clean_segs_id)
qed

lemma IsAbs_Cons [simp]: "IsAbs (sep # s)"
  by (simp add: IsAbs_def HasPrefix_def)

lemma Clean_abs: "IsAbs p \<Longrightarrow> Clean p = sep # join_on sep (path_segs p)"
  by (simp add: Clean_def)

lemma path_segs_Clean: "IsAbs p \<Longrightarrow> path_segs (Clean p) = path_segs p"
  by (simp add: Clean_abs path_segs_abs_join path_segs_proper)

lemma IsAbs_Clean: "IsAbs p \<Longrightarrow> IsAbs (Clean p)"
  by (simp add: Clean_abs)

lemma Clean_idem: "IsAbs p \<Longrightarrow> Clean (Clean p) = Clean p"
  by (simp add: Clean_abs path_segs_abs_join path_segs_proper)

lemma Clean_eq_iff: "IsAbs p \<Longrightarrow> IsAbs q \<Longrightarrow> Clean p = Clean q \<longleftrightarrow> path_segs p = path_segs q"
  by (metis Clean_abs path_segs_Clean)

lemma Clean_root_iff: "IsAbs p \<Longrightarrow> Clean p = ''/'' \<longleftrightarrow> path_segs p = []"
proof -
  assume p: "IsAbs p"
  have "path_segs ''/'' = []" by (simp add: path_segs_def IsAbs_def HasPrefix_def)
  moreover have "Clean ''/'' = ''/''" by (simp add: Clean_def IsAbs_def HasPrefix_def calculation)
  ultimately show ?thesis using Clean_eq_iff [OF p, of "''/''"] by simp
qed

text \<open>Joining an absolute directory with an absolute, traversal-free path appends its segments.\<close>

lemma clean_segs_append:
  "list_all proper_seg ws \<Longrightarrow> clean_segs r (ws @ vs) out = clean_segs r vs (rev ws @ out)"
  by (induction ws arbitrary: out) (auto simp: proper_seg_def)

lemma path_segs_Join_clean:
  assumes "list_all proper_seg as" and "list_all proper_seg bs"
  shows "path_segs (Join (sep # join_on sep as) (sep # join_on sep bs)) = as @ bs"
proof -
  let ?p = "(sep # join_on sep as) @ sep # sep # join_on sep bs"
  have sp: "split_on sep (sep # join_on sep as) = [] # (if as = [] then [[]] else as)"
    by (rule split_join_abs [OF assms(1)])
  have gen: "split_on sep (s @ sep # t) = split_on sep s @ split_on sep t" for s t
    by (induction s) (auto split: list.splits)
  have "split_on sep ?p = ([] # (if as = [] then [[]] else as)) @
      [] # (if bs = [] then [[]] else bs)"
    by (simp only: gen sp split_join_abs [OF assms(2)])
  moreover have "clean_segs True (([] # (if as = [] then [[]] else as)) @
      [] # (if bs = [] then [[]] else bs)) [] = as @ bs"
    using assms by (simp add: clean_segs_append clean_segs_id)
  moreover have "IsAbs ?p" by simp
  ultimately have "path_segs ?p = as @ bs"
    by (simp add: path_segs_def)
  then show ?thesis
    by (simp add: Join_def path_segs_Clean)
qed

lemma drop_common_eq:
  "drop_common xs ys = (bs, ts) \<Longrightarrow> \<exists>cs. xs = cs @ bs \<and> ys = cs @ ts"
proof (induction xs ys rule: drop_common.induct)
  case (1 x xs y ys)
  show ?case
  proof (cases "x = y")
    case True
    with 1 obtain cs where "xs = cs @ bs" "ys = cs @ ts" by auto
    with True show ?thesis by (intro exI [of _ "y # cs"]) simp
  next
    case False
    with 1 show ?thesis by auto
  qed
qed auto

lemma drop_common_prefix: "drop_common xs (xs @ ys) = ([], ys)"
  by (induction xs) simp_all

section \<open>The directory of a path\<close>

definition path_Dir :: "string \<Rightarrow> string" where
  "path_Dir p = (let d = rev (dropWhile (\<lambda>c. c \<noteq> sep) (rev p)) in Clean d)"

lemma path_Dir_abs: "IsAbs p \<Longrightarrow> IsAbs (path_Dir p)"
proof -
  assume "IsAbs p"
  then obtain r where "p = sep # r" by (cases p) (auto simp: IsAbs_def HasPrefix_def)
  then have "rev (dropWhile (\<lambda>c. c \<noteq> sep) (rev p)) = sep # (if sep \<in> set r then rev (dropWhile (\<lambda>c. c \<noteq> sep) (rev r)) else [])"
    by (auto simp: dropWhile_append)
  then have "IsAbs (rev (dropWhile (\<lambda>c. c \<noteq> sep) (rev p)))" by (simp add: IsAbs_def HasPrefix_def)
  then show ?thesis by (simp add: path_Dir_def IsAbs_Clean)
qed

end
