(* ===== verification/Sup_Config.thy ===== *)
theory Sup_Config
  imports Go_Strings "HOL-Library.Word"
begin

unbundle bit_operations_syntax

text \<open>
  The data of a supervised app and the pure decisions the supervisor takes before it starts one:
  \<open>internal/runtime/runtime.go\<close> (which binary runs an entry script), \<open>internal/sandbox/sandbox.go\<close>
  (the isolation spec), \<open>internal/supervisor/id.go\<close> (the app-ID grammar) and the parts of
  \<open>internal/supervisor/supervisor.go\<close> and \<open>runas.go\<close> that compute on a \<open>Config\<close>: default sandbox,
  default cgroup limits, capability parsing, the filtered environment, the restart backoff.
\<close>

section \<open>Runtimes\<close>

text \<open>\<open>type Runtime string\<close>: any string, of which four are known.\<close>

type_synonym runtime = string

abbreviation Bun :: runtime where "Bun \<equiv> ''bun''"
abbreviation Node :: runtime where "Node \<equiv> ''node''"
abbreviation Deno :: runtime where "Deno \<equiv> ''deno''"
abbreviation Workers :: runtime where "Workers \<equiv> ''workers''"

definition runtime_Valid :: "runtime \<Rightarrow> bool" where
  "runtime_Valid r \<longleftrightarrow> r = Bun \<or> r = Node \<or> r = Deno \<or> r = Workers"

definition to_lower :: "char \<Rightarrow> char" where
  "to_lower c = (if CHR ''A'' \<le> c \<and> c \<le> CHR ''Z'' then char_of (of_char c + 32 :: nat) else c)"

datatype runtime_error = UnknownRuntime string | EmptyEntry | InvalidRuntime string | NoSignal

definition runtime_Parse :: "string \<Rightarrow> runtime_error + runtime" where
  "runtime_Parse s =
     (let r = map to_lower (TrimSpace s) in
      if r = Bun then Inr Bun
      else if r = Node then Inr Node
      else if r = Deno then Inr Deno
      else if r = Workers then Inr Workers
      else Inl (UnknownRuntime s))"

definition runtime_Command :: "runtime \<Rightarrow> string \<Rightarrow> string list \<Rightarrow> runtime_error + string \<times> string list"
where
  "runtime_Command r entry extraArgs =
     (if entry = [] then Inl EmptyEntry
      else if \<not> runtime_Valid r then Inl (InvalidRuntime r)
      else if r = Bun then Inr (''bun'', entry # extraArgs)
      else if r = Node then Inr (''node'', entry # extraArgs)
      else if r = Deno then Inr (''deno'', [''run'', ''-A'', entry] @ extraArgs)
      else Inr (''workerd'', [''serve'', entry] @ extraArgs))"

text \<open>
  \<open>Detect\<close> looks at a directory: which of the four fingerprint files exist, and what the
  dependency tables of \<open>package.json\<close> name (\<open>None\<close> when it cannot be read or decoded).
\<close>

record project_dir =
  has_deno_json :: bool
  has_deno_jsonc :: bool
  has_bun_lockb :: bool
  has_package_json :: bool
  package_deps :: "(string list \<times> string list) option"

definition usesBun :: "(string list \<times> string list) option \<Rightarrow> bool" where
  "usesBun pkg =
     (case pkg of
        None \<Rightarrow> False
      | Some (deps, devDeps) \<Rightarrow>
          list_ex (\<lambda>n. n = ''bun'' \<or> n = ''bun-types'' \<or> n = ''@types/bun'') (deps @ devDeps))"

definition runtime_Detect :: "project_dir \<Rightarrow> runtime_error + runtime" where
  "runtime_Detect d =
     (if has_deno_json d \<or> has_deno_jsonc d then Inr Deno
      else if has_bun_lockb d then Inr Bun
      else if \<not> has_package_json d then Inl NoSignal
      else if usesBun (package_deps d) then Inr Bun
      else Inr Node)"

section \<open>The configuration of an app\<close>

record IDMap =
  im_ContainerID :: int
  im_HostID :: int
  im_Size :: int

record sandbox_spec =
  PIDNamespace :: bool
  UTSNamespace :: bool
  IPCNamespace :: bool
  MountNamespace :: bool
  UserNamespace :: bool
  UIDMappings :: "IDMap list"
  GIDMappings :: "IDMap list"
  AllowSetgroups :: bool
  NoNewPrivs :: bool
  Chroot :: string

definition spec_Any :: "sandbox_spec \<Rightarrow> bool" where
  "spec_Any s \<longleftrightarrow>
     PIDNamespace s \<or> UTSNamespace s \<or> IPCNamespace s \<or> MountNamespace s \<or> UserNamespace s \<or>
     NoNewPrivs s \<or> Chroot s \<noteq> []"

definition zero_spec :: sandbox_spec where
  "zero_spec = \<lparr>PIDNamespace = False, UTSNamespace = False, IPCNamespace = False,
     MountNamespace = False, UserNamespace = False, UIDMappings = [], GIDMappings = [],
     AllowSetgroups = False, NoNewPrivs = False, Chroot = []\<rparr>"

record limits =
  MemoryHigh :: int
  MemoryMax :: int
  PidsMax :: int
  CPUQuota :: int
  CPUPeriod :: int

record RunAs =
  ra_UID :: int
  ra_GID :: int

record VolumeMount =
  vm_VolumeID :: string
  vm_SubPath :: string
  vm_Target :: string
  vm_ReadOnly :: bool

record Config =
  cfg_ID :: string
  cfg_Command :: string
  cfg_Args :: "string list"
  cfg_Runtime :: runtime
  cfg_Entry :: string
  cfg_Port :: int
  cfg_Env :: "string list"
  cfg_CgroupLimits :: "limits option"
  cfg_Sandbox :: "sandbox_spec option"
  cfg_RunAs :: "RunAs option"
  cfg_RunAsRoot :: bool
  cfg_NetIsolation :: bool
  cfg_HealthCheckPath :: string
  cfg_VolumeMounts :: "VolumeMount list"

definition zero_Config :: Config where
  "zero_Config = \<lparr>cfg_ID = [], cfg_Command = [], cfg_Args = [], cfg_Runtime = [], cfg_Entry = [],
     cfg_Port = 0, cfg_Env = [], cfg_CgroupLimits = None, cfg_Sandbox = None, cfg_RunAs = None,
     cfg_RunAsRoot = False, cfg_NetIsolation = False, cfg_HealthCheckPath = [],
     cfg_VolumeMounts = []\<rparr>"

text \<open>The exported, persisted part of a \<open>supervisor.Volume\<close> (the unexported fields carry
  \<open>json:"-"\<close> and are derived again at registration).\<close>

record Volume =
  vol_ID :: string
  vol_BackingPath :: string
  vol_ReadOnly :: bool
  vol_FSType :: string

section \<open>The app-ID grammar\<close>

datatype id_error = IdEmpty | IdTooLong nat | IdLeadingHyphen | IdBadByte nat char

abbreviation MaxIDLen :: nat where "MaxIDLen \<equiv> 63"

fun validate_bytes :: "nat \<Rightarrow> string \<Rightarrow> id_error option" where
  "validate_bytes i [] = None"
| "validate_bytes i (b # bs) =
     (if CHR ''a'' \<le> b \<and> b \<le> CHR ''z'' then validate_bytes (Suc i) bs
      else if CHR ''0'' \<le> b \<and> b \<le> CHR ''9'' then validate_bytes (Suc i) bs
      else if b = CHR ''-'' then (if i = 0 then Some IdLeadingHyphen else validate_bytes (Suc i) bs)
      else Some (IdBadByte i b))"

definition ValidateID :: "string \<Rightarrow> id_error option" where
  "ValidateID i =
     (if i = [] then Some IdEmpty
      else if length i > MaxIDLen then Some (IdTooLong (length i))
      else validate_bytes 0 i)"

definition id_char :: "char \<Rightarrow> bool" where
  "id_char b \<longleftrightarrow> CHR ''a'' \<le> b \<and> b \<le> CHR ''z'' \<or> CHR ''0'' \<le> b \<and> b \<le> CHR ''9'' \<or> b = CHR ''-''"

text \<open>The grammar of the doc comment, \<open>^[a-z0-9][a-z0-9-]{0,62}$\<close>.\<close>

definition id_grammar :: "string \<Rightarrow> bool" where
  "id_grammar i \<longleftrightarrow> i \<noteq> [] \<and> length i \<le> 63 \<and> list_all id_char i \<and> hd i \<noteq> CHR ''-''"

lemma validate_bytes_pos: "0 < i \<Longrightarrow> validate_bytes i bs = None \<longleftrightarrow> list_all id_char bs"
  by (induction i bs rule: validate_bytes.induct) (auto simp: id_char_def)

lemma ValidateID_grammar: "ValidateID i = None \<longleftrightarrow> id_grammar i"
proof (cases i)
  case Nil
  then show ?thesis by (simp add: ValidateID_def id_grammar_def)
next
  case (Cons b bs)
  then show ?thesis
    by (auto simp: ValidateID_def id_grammar_def validate_bytes_pos) (auto simp: id_char_def)
qed

lemma id_char_safe: "id_char c \<Longrightarrow> c \<noteq> CHR ''/'' \<and> c \<noteq> CHR ''.'' \<and> c \<noteq> CHR ''_'' \<and> \<not> is_space c"
  by (auto simp: id_char_def is_space_def less_eq_char_def)

abbreviation deployTempSuffix :: string where "deployTempSuffix \<equiv> ''__deploying''"

definition deployTempID :: "string \<Rightarrow> string" where
  "deployTempID i = i @ deployTempSuffix"

lemma grammar_no_temp: "id_grammar i \<Longrightarrow> \<not> HasSuffix i deployTempSuffix"
  by (auto simp: HasSuffix_iff id_grammar_def id_char_def less_eq_char_def)

lemma TrimSuffix_grammar [simp]: "id_grammar i \<Longrightarrow> TrimSuffix i deployTempSuffix = i"
  by (rule TrimSuffix_id) (rule grammar_no_temp)

section \<open>Resolving what to run\<close>

datatype exec_error =
    EmptyCommand | BadRuntime string | EmptyEntryForRuntime | ResolveRuntime runtime_error

definition resolveExec :: "Config \<Rightarrow> exec_error + string \<times> string list \<times> runtime" where
  "resolveExec cfg =
     (if cfg_Command cfg \<noteq> [] then Inr (cfg_Command cfg, cfg_Args cfg, cfg_Runtime cfg)
      else if cfg_Runtime cfg = [] then Inl EmptyCommand
      else if \<not> runtime_Valid (cfg_Runtime cfg) then Inl (BadRuntime (cfg_Runtime cfg))
      else if cfg_Entry cfg = [] then Inl EmptyEntryForRuntime
      else case runtime_Command (cfg_Runtime cfg) (cfg_Entry cfg) (cfg_Args cfg) of
        Inl e \<Rightarrow> Inl (ResolveRuntime e)
      | Inr (cmd, args) \<Rightarrow> Inr (cmd, args, cfg_Runtime cfg))"

section \<open>The supervisor's tunables\<close>

text \<open>The exported fields of \<open>Supervisor\<close>; durations are nanoseconds (\<open>time.Duration\<close>). The
  injected collaborators (logger, writers, health checker) appear only as "is one set".\<close>

record sup_opts =
  InitialBackoff :: int
  MaxBackoff :: int
  RestartWindow :: int
  CrashLoopThreshold :: int
  GracefulShutdownTimeout :: int
  KillWaitTimeout :: int
  DisableDefaultSandbox :: bool
  LogDir :: string
  WaitDelay :: int
  HealthCheckInterval :: int
  HealthCheckTimeout :: int
  HealthCheckFailureThreshold :: int
  HasHealthChecker :: bool
  CgroupParent :: string
  DefaultMemoryHigh :: int
  DefaultMemoryMax :: int
  NetSubnet :: string
  NetBridgeName :: string
  VolumeRoot :: string
  AllowedTargetPrefixes :: "string list"
  CgroupDelegated :: bool
  AppUIDBase :: int
  UIDStatePath :: string

abbreviation second :: int where "second \<equiv> 1000000000"

abbreviation DefaultAppUIDBase :: int where "DefaultAppUIDBase \<equiv> 1000000"

definition New_opts :: sup_opts where
  "New_opts = \<lparr>InitialBackoff = 1 * second, MaxBackoff = 30 * second, RestartWindow = 60 * second,
     CrashLoopThreshold = 5, GracefulShutdownTimeout = 30 * second, KillWaitTimeout = 5 * second,
     DisableDefaultSandbox = False, LogDir = [], WaitDelay = 0, HealthCheckInterval = 10 * second,
     HealthCheckTimeout = 2 * second, HealthCheckFailureThreshold = 3, HasHealthChecker = True,
     CgroupParent = [], DefaultMemoryHigh = 0, DefaultMemoryMax = 0, NetSubnet = [],
     NetBridgeName = [], VolumeRoot = [], AllowedTargetPrefixes = [], CgroupDelegated = False,
     AppUIDBase = DefaultAppUIDBase, UIDStatePath = []\<rparr>"

definition healthEnabled :: "sup_opts \<Rightarrow> bool" where
  "healthEnabled s \<longleftrightarrow>
     HealthCheckInterval s > 0 \<and> HealthCheckFailureThreshold s > 0 \<and> HasHealthChecker s"

text \<open>The host the daemon runs on, as the code observes it (\<open>goos\<close>, the effective capabilities).\<close>

record host_env =
  is_linux :: bool
  sys_admin_cap :: bool
  setid_caps :: bool
  kill_cap :: bool

section \<open>Effective capabilities\<close>

text \<open>The first \<open>CapEff:\<close> line of \<open>/proc/self/status\<close>, read as a 64-bit mask.\<close>

fun cap_eff :: "string list \<Rightarrow> 64 word option" where
  "cap_eff [] = None"
| "cap_eff (l # ls) =
     (case CutPrefix l ''CapEff:'' of
        None \<Rightarrow> cap_eff ls
      | Some rest \<Rightarrow> map_option of_nat (ParseUint 16 (TrimSpace rest)))"

definition parseSysAdminCap :: "string \<Rightarrow> bool" where
  "parseSysAdminCap data =
     (case cap_eff (split_on (CHR 0x0A) data) of
        None \<Rightarrow> False
      | Some caps \<Rightarrow> caps AND push_bit 21 1 \<noteq> 0)"

definition parseSetIDCaps :: "string \<Rightarrow> bool" where
  "parseSetIDCaps data =
     (case cap_eff (split_on (CHR 0x0A) data) of
        None \<Rightarrow> False
      | Some caps \<Rightarrow> (let want = push_bit 6 1 OR push_bit 7 1 in caps AND want = want))"

definition parseCapBits :: "string \<Rightarrow> 64 word \<Rightarrow> bool" where
  "parseCapBits data want =
     (case cap_eff (split_on (CHR 0x0A) data) of
        None \<Rightarrow> False
      | Some caps \<Rightarrow> caps AND want = want)"

definition canApplyDefaultSandbox :: "host_env \<Rightarrow> bool" where
  "canApplyDefaultSandbox h \<longleftrightarrow> is_linux h \<and> sys_admin_cap h"

definition PerAppUIDsAvailable :: "host_env \<Rightarrow> bool" where
  "PerAppUIDsAvailable h \<longleftrightarrow> is_linux h \<and> setid_caps h"

definition CanSignalApps :: "host_env \<Rightarrow> bool" where
  "CanSignalApps h \<longleftrightarrow> \<not> is_linux h \<or> kill_cap h"

text \<open>The three parsers are bit tests: the mask tests single out exactly the named bits.\<close>

lemma and_push_bit_1: "(w :: 64 word) AND push_bit n 1 = push_bit n (of_bool (bit w n))"
  by (rule bit_eqI) (auto simp: bit_simps)

lemma sysadmin_mask: "(w :: 64 word) AND push_bit 21 1 \<noteq> 0 \<longleftrightarrow> bit w 21"
  unfolding and_push_bit_1 by (cases "bit w 21") simp_all

lemma and_mask_bits: "(w :: 64 word) AND m = m \<longleftrightarrow> (\<forall>n. bit m n \<longrightarrow> bit w n)"
proof
  assume "w AND m = m"
  then show "\<forall>n. bit m n \<longrightarrow> bit w n" by (metis bit_and_iff)
next
  assume "\<forall>n. bit m n \<longrightarrow> bit w n"
  then show "w AND m = m" by (auto intro!: bit_eqI simp: bit_and_iff)
qed

lemma setid_mask_bits: "bit (push_bit 6 1 OR push_bit 7 1 :: 64 word) n \<longleftrightarrow> n = 6 \<or> n = 7"
  by (simp only: bit_or_iff bit_push_bit_iff bit_1_iff) auto

lemma parseSysAdminCap_bit:
  "parseSysAdminCap data \<longleftrightarrow>
     (\<exists>caps. cap_eff (split_on (CHR 0x0A) data) = Some caps \<and> bit caps 21)"
  by (simp only: parseSysAdminCap_def sysadmin_mask split: option.splits) simp

lemma parseSetIDCaps_bits:
  "parseSetIDCaps data \<longleftrightarrow>
     (\<exists>caps. cap_eff (split_on (CHR 0x0A) data) = Some caps \<and> bit caps 6 \<and> bit caps 7)"
  by (simp only: parseSetIDCaps_def and_mask_bits setid_mask_bits Let_def split: option.splits) auto

section \<open>Secure-by-default isolation\<close>

definition applyDefaultSandbox :: "host_env \<Rightarrow> Config \<Rightarrow> Config" where
  "applyDefaultSandbox h cfg =
     (if canApplyDefaultSandbox h then
        (case cfg_Sandbox cfg of
           None \<Rightarrow>
             cfg\<lparr>cfg_Sandbox := Some (zero_spec\<lparr>PIDNamespace := True, NoNewPrivs := True,
               MountNamespace := cfg_VolumeMounts cfg \<noteq> []\<rparr>)\<rparr>
         | Some sp \<Rightarrow>
             if \<not> spec_Any sp then
               cfg\<lparr>cfg_Sandbox := Some (sp\<lparr>PIDNamespace := True, NoNewPrivs := True,
                 MountNamespace := MountNamespace sp \<or> cfg_VolumeMounts cfg \<noteq> []\<rparr>)\<rparr>
             else cfg)
      else if \<not> is_linux h then cfg
      else if cfg_VolumeMounts cfg = [] then cfg
      else
        (case cfg_Sandbox cfg of
           None \<Rightarrow>
             cfg\<lparr>cfg_Sandbox := Some (zero_spec\<lparr>MountNamespace := True, PIDNamespace := True,
               NoNewPrivs := True\<rparr>)\<rparr>
         | Some sp \<Rightarrow>
             if \<not> spec_Any sp then
               cfg\<lparr>cfg_Sandbox := Some (sp\<lparr>MountNamespace := True, PIDNamespace := True,
                 NoNewPrivs := True\<rparr>)\<rparr>
             else cfg))"

definition applyCgroupDefaults :: "sup_opts \<Rightarrow> Config \<Rightarrow> Config" where
  "applyCgroupDefaults s cfg =
     (if CgroupParent s = [] then cfg
      else if DefaultMemoryHigh s \<le> 0 \<and> DefaultMemoryMax s \<le> 0 then cfg
      else case cfg_CgroupLimits cfg of
        None \<Rightarrow>
          cfg\<lparr>cfg_CgroupLimits := Some \<lparr>MemoryHigh = DefaultMemoryHigh s,
            MemoryMax = DefaultMemoryMax s, PidsMax = 0, CPUQuota = 0, CPUPeriod = 0\<rparr>\<rparr>
      | Some lim \<Rightarrow>
          (let lim1 = (if MemoryHigh lim = 0 \<and> DefaultMemoryHigh s > 0
                       then lim\<lparr>MemoryHigh := DefaultMemoryHigh s\<rparr> else lim);
               lim2 = (if MemoryMax lim1 = 0 \<and> DefaultMemoryMax s > 0
                       then lim1\<lparr>MemoryMax := DefaultMemoryMax s\<rparr> else lim1)
           in cfg\<lparr>cfg_CgroupLimits := Some lim2\<rparr>))"

section \<open>The child's environment\<close>

definition env_key :: "string \<Rightarrow> string" where
  "env_key kv = takeWhile (\<lambda>c. c \<noteq> CHR ''='') kv"

fun filterSupervisorEnv :: "string list \<Rightarrow> string list" where
  "filterSupervisorEnv [] = []"
| "filterSupervisorEnv (kv # env) =
     (if HasPrefix (env_key kv) ''CREEKD_'' \<or> HasPrefix (env_key kv) ''CREEKCTL_''
      then filterSupervisorEnv env
      else kv # filterSupervisorEnv env)"

text \<open>The environment \<open>startLocked\<close> hands to the process.\<close>

definition child_env :: "string list \<Rightarrow> int \<Rightarrow> string list \<Rightarrow> string list" where
  "child_env environ port extraEnv =
     filterSupervisorEnv environ @ [''PORT='' @ FormatInt port] @ extraEnv"

lemma filterSupervisorEnv_set:
  "kv \<in> set (filterSupervisorEnv env) \<longleftrightarrow>
     kv \<in> set env \<and> \<not> HasPrefix (env_key kv) ''CREEKD_'' \<and> \<not> HasPrefix (env_key kv) ''CREEKCTL_''"
  by (induction env) auto

section \<open>Restart backoff\<close>

fun backoff_loop :: "int \<Rightarrow> nat \<Rightarrow> int \<Rightarrow> int" where
  "backoff_loop mx 0 d = d"
| "backoff_loop mx (Suc n) d =
     (let d' = wrap64 (d * 2) in if d' \<ge> mx then mx else backoff_loop mx n d')"

definition computeBackoff :: "sup_opts \<Rightarrow> int \<Rightarrow> int" where
  "computeBackoff s n =
     (if n \<le> 0 then InitialBackoff s
      else backoff_loop (MaxBackoff s) (nat n) (InitialBackoff s))"

lemma backoff_loop_closed:
  assumes "0 < d" "d \<le> mx" "mx < 2 ^ 62"
  shows "backoff_loop mx n d = min mx (d * 2 ^ n)"
  using assms(1,2)
proof (induction n arbitrary: d)
  case 0
  then show ?case by simp
next
  case (Suc n)
  have w: "wrap64 (d * 2) = d * 2"
    using Suc.prems assms(3) by (intro wrap64_id) (auto simp: int64_ok_def)
  show ?case
  proof (cases "d * 2 \<ge> mx")
    case True
    have "mx \<le> d * 2 ^ Suc n"
    proof -
      have "d * 2 * 1 \<le> d * 2 * 2 ^ n"
        using Suc.prems by (intro mult_left_mono) simp_all
      with True show ?thesis by (simp add: mult.assoc)
    qed
    with True w show ?thesis by simp
  next
    case False
    with w Suc.IH [of "d * 2"] Suc.prems show ?thesis by (simp add: mult.assoc)
  qed
qed

end
