(* ===== verification/Sup_RunAs.thy ===== *)
theory Sup_RunAs
  imports Sup_Config
begin

text \<open>
  \<open>internal/supervisor/runas.go\<close>: the host identity of an app. The registry is seen through \<open>owners\<close>,
  the registered ids with the identity each app runs as. The allocator's state is the in-memory
  high-water mark and the contents of the mark file (\<open>None\<close>: no file). Writing the file takes its
  outcome from \<open>persist_io\<close>: it may fail before the rename (the file keeps its contents) or after it
  (the file has the new contents, the call still reports an error).
\<close>

section \<open>Operations\<close>

type_synonym owners = "(string \<times> RunAs option) list"

record uid_state =
  uidHWM :: int
  uidFile :: "string option"

datatype persist_io = PersistOk | PersistFailBefore | PersistFailAfter

datatype runas_error =
    RunAsNeedsLinux | RunAsNeedsCaps | RunAsNonPositive | RunAsInUse int string | RunAsPersist

definition autoRunAsEnabled :: "sup_opts \<Rightarrow> host_env \<Rightarrow> bool" where
  "autoRunAsEnabled o' h \<longleftrightarrow> \<not> DisableDefaultSandbox o' \<and> AppUIDBase o' > 0 \<and> PerAppUIDsAvailable h"

definition runAsOwnerLocked :: "owners \<Rightarrow> int \<Rightarrow> string \<Rightarrow> string" where
  "runAsOwnerLocked owners uid i =
     (let base = TrimSuffix i deployTempSuffix in
      case find (\<lambda>(other, ra). TrimSuffix other deployTempSuffix \<noteq> base \<and>
                               (case ra of None \<Rightarrow> False | Some r \<Rightarrow> ra_UID r = uid)) owners of
        None \<Rightarrow> []
      | Some (other, _) \<Rightarrow> other)"

definition persistUIDHighWater ::
  "sup_opts \<Rightarrow> persist_io \<Rightarrow> int \<Rightarrow> uid_state \<Rightarrow> bool \<times> uid_state"
where
  "persistUIDHighWater o' io uid st =
     (if UIDStatePath o' = [] then (True, st)
      else
        let written = st\<lparr>uidFile := Some (FormatInt uid @ [CHR 0x0A])\<rparr> in
        case io of
          PersistOk \<Rightarrow> (True, written)
        | PersistFailBefore \<Rightarrow> (False, st)
        | PersistFailAfter \<Rightarrow> (False, written))"

definition observeUIDLocked :: "sup_opts \<Rightarrow> int \<Rightarrow> uid_state \<Rightarrow> bool \<times> uid_state" where
  "observeUIDLocked o' uid st =
     (if AppUIDBase o' > 0 \<and> uid \<ge> AppUIDBase o' \<and> uid > uidHWM st
      then (True, st\<lparr>uidHWM := uid\<rparr>) else (False, st))"

definition ObserveRunAs :: "sup_opts \<Rightarrow> Config \<Rightarrow> uid_state \<Rightarrow> uid_state" where
  "ObserveRunAs o' cfg st =
     (case cfg_RunAs cfg of None \<Rightarrow> st | Some ra \<Rightarrow> snd (observeUIDLocked o' (ra_UID ra) st))"

definition SyncUIDHighWater :: "sup_opts \<Rightarrow> persist_io \<Rightarrow> uid_state \<Rightarrow> bool \<times> uid_state" where
  "SyncUIDHighWater o' io st =
     (if uidHWM st = 0 then (True, st) else persistUIDHighWater o' io (uidHWM st) st)"

text \<open>The search \<open>for s.runAsOwnerLocked(next, cfg.ID) != "" { next++ }\<close>. It visits consecutive
  numbers and the registry holds \<open>length owners\<close> apps, so it stops within that many increments:
  \<open>next_free_spec\<close> below.\<close>

fun next_free :: "owners \<Rightarrow> string \<Rightarrow> nat \<Rightarrow> int \<Rightarrow> int" where
  "next_free owners i 0 next = next"
| "next_free owners i (Suc k) next =
     (if runAsOwnerLocked owners next i \<noteq> [] then next_free owners i k (wrap64 (next + 1)) else next)"

definition resolveRunAsLocked ::
  "sup_opts \<Rightarrow> host_env \<Rightarrow> persist_io \<Rightarrow> owners \<Rightarrow> Config \<Rightarrow> uid_state \<Rightarrow> (runas_error + Config) \<times> uid_state"
where
  "resolveRunAsLocked o' h io owners cfg st =
     (if cfg_RunAsRoot cfg then (Inr (cfg\<lparr>cfg_RunAs := None\<rparr>), st)
      else case cfg_RunAs cfg of
        Some ra \<Rightarrow>
          if \<not> is_linux h then (Inl RunAsNeedsLinux, st)
          else if \<not> setid_caps h then (Inl RunAsNeedsCaps, st)
          else if ra_UID ra \<le> 0 \<or> ra_GID ra \<le> 0 then (Inl RunAsNonPositive, st)
          else
            let owner = runAsOwnerLocked owners (ra_UID ra) (cfg_ID cfg) in
            if owner \<noteq> [] then (Inl (RunAsInUse (ra_UID ra) owner), st)
            else
              let (raised, st1) = observeUIDLocked o' (ra_UID ra) st in
              if raised
              then let (ok, st2) = persistUIDHighWater o' io (uidHWM st1) st1
                   in if ok then (Inr cfg, st2) else (Inl RunAsPersist, st2)
              else (Inr cfg, st1)
      | None \<Rightarrow>
          if \<not> autoRunAsEnabled o' h then (Inr cfg, st)
          else if (case cfg_Sandbox cfg of None \<Rightarrow> False | Some sp \<Rightarrow> UserNamespace sp) then (Inr cfg, st)
          else
            let next0 = (if uidHWM st \<ge> AppUIDBase o' then wrap64 (uidHWM st + 1) else AppUIDBase o');
                next = next_free owners (cfg_ID cfg) (length owners) next0;
                (ok, st1) = persistUIDHighWater o' io next st
            in if \<not> ok then (Inl RunAsPersist, st1)
               else (Inr (cfg\<lparr>cfg_RunAs := Some \<lparr>ra_UID = next, ra_GID = next\<rparr>\<rparr>), st1\<lparr>uidHWM := next\<rparr>))"

definition LoadUIDHighWater :: "sup_opts \<Rightarrow> uid_state \<Rightarrow> bool \<times> uid_state" where
  "LoadUIDHighWater o' st =
     (if UIDStatePath o' = [] then (True, st)
      else case uidFile st of
        None \<Rightarrow> (True, st)
      | Some data \<Rightarrow>
          (case ParseInt (TrimSpace data) of
             None \<Rightarrow> (False, st)
           | Some n \<Rightarrow>
               if n < 0 then (False, st)
               else (True, if n > uidHWM st then st\<lparr>uidHWM := n\<rparr> else st)))"

definition inheritIdentity :: "Config \<Rightarrow> RunAs option \<Rightarrow> bool \<Rightarrow> Config" where
  "inheritIdentity v2 v1_runAs v1_runAsRoot =
     (if cfg_RunAs v2 \<noteq> None \<or> cfg_RunAsRoot v2 then v2
      else if v1_runAsRoot then v2\<lparr>cfg_RunAsRoot := True\<rparr>
      else v2\<lparr>cfg_RunAs := v1_runAs\<rparr>)"

section \<open>The owner search\<close>

definition owns :: "owners \<Rightarrow> string \<Rightarrow> int \<Rightarrow> bool" where
  "owns owners i uid \<longleftrightarrow> (\<exists>(other, ra) \<in> set owners. TrimSuffix other deployTempSuffix \<noteq> TrimSuffix i deployTempSuffix \<and>
     (case ra of None \<Rightarrow> False | Some r \<Rightarrow> ra_UID r = uid))"

lemma runAsOwner_iff:
  assumes "\<And>other ra. (other, ra) \<in> set owners \<Longrightarrow> other \<noteq> []"
  shows "runAsOwnerLocked owners uid i \<noteq> [] \<longleftrightarrow> owns owners i uid"
proof (cases "find (\<lambda>(other, ra). TrimSuffix other deployTempSuffix \<noteq> TrimSuffix i deployTempSuffix \<and>
      (case ra of None \<Rightarrow> False | Some r \<Rightarrow> ra_UID r = uid)) owners")
  case None
  then have "runAsOwnerLocked owners uid i = []" by (simp add: runAsOwnerLocked_def)
  moreover have "\<not> owns owners i uid" using None [unfolded find_None_D] by (auto simp: owns_def)
  ultimately show ?thesis by simp
next
  case (Some x)
  from find_Some_D [OF this] show ?thesis
    using Some assms by (cases x) (auto simp: runAsOwnerLocked_def owns_def)
qed

definition owned_uids :: "owners \<Rightarrow> string \<Rightarrow> int set" where
  "owned_uids owners i = {uid. owns owners i uid}"

lemma owned_uids_sub: "owned_uids owners i \<subseteq> (\<lambda>(other, ra). ra_UID (the ra)) ` set owners"
  by (force simp: owned_uids_def owns_def split: option.splits)

lemma finite_owned: "finite (owned_uids owners i)"
  by (rule finite_subset [OF owned_uids_sub]) simp

lemma card_owned: "card (owned_uids owners i) \<le> length owners"
proof -
  have "card (owned_uids owners i) \<le> card ((\<lambda>(other, ra). ra_UID (the ra)) ` set owners)"
    by (rule card_mono [OF _ owned_uids_sub]) simp
  also have "\<dots> \<le> card (set owners)" by (rule card_image_le) simp
  finally show ?thesis using card_length [of owners] by linarith
qed

lemma next_free_spec:
  assumes "\<And>other ra. (other, ra) \<in> set owners \<Longrightarrow> other \<noteq> []"
    and "card {u \<in> owned_uids owners i. n \<le> u} \<le> k" and "0 \<le> n" and "n + int k < 2 ^ 63"
  shows "\<not> owns owners i (next_free owners i k n) \<and> n \<le> next_free owners i k n \<and>
    next_free owners i k n \<le> n + int k"
  using assms(2-4)
proof (induction k arbitrary: n)
  case 0
  then have "{u \<in> owned_uids owners i. n \<le> u} = {}" using finite_owned by simp
  then show ?case by (auto simp: owned_uids_def)
next
  case (Suc k)
  show ?case
  proof (cases "owns owners i n")
    case True
    let ?A = "{u \<in> owned_uids owners i. n \<le> u}" and ?B = "{u \<in> owned_uids owners i. n + 1 \<le> u}"
    have "?A = insert n ?B" using True by (auto simp: owned_uids_def)
    then have "card ?A = Suc (card ?B)" using finite_owned by simp
    then have "card ?B \<le> k" using Suc.prems(1) by simp
    moreover have "wrap64 (n + 1) = n + 1" using Suc.prems by (intro wrap64_Suc) auto
    ultimately show ?thesis
      using Suc.IH [of "n + 1"] Suc.prems True runAsOwner_iff [OF assms(1), where i = i and uid = n] by simp
  next
    case False
    then show ?thesis using runAsOwner_iff [OF assms(1), where i = i and uid = n] by simp
  qed
qed

lemma next_free_ok:
  assumes "\<And>other ra. (other, ra) \<in> set owners \<Longrightarrow> other \<noteq> []" and "0 \<le> n"
    and "n + int (length owners) < 2 ^ 63"
  shows "\<not> owns owners i (next_free owners i (length owners) n) \<and>
    n \<le> next_free owners i (length owners) n \<and>
    next_free owners i (length owners) n \<le> n + int (length owners)"
proof -
  have "card {u \<in> owned_uids owners i. n \<le> u} \<le> card (owned_uids owners i)"
    by (rule card_mono [OF finite_owned]) auto
  then show ?thesis using card_owned [of owners i] assms by (intro next_free_spec) auto
qed

section \<open>The mark file\<close>

lemma FormatUint_solid: "\<forall>c \<in> set (FormatUint n). \<not> is_space c"
proof
  fix c assume "c \<in> set (FormatUint n)"
  from FormatUint_digits [OF this] show "\<not> is_space c" by (auto simp: is_space_def)
qed

lemma dropWhile_none: "\<forall>c \<in> set s. \<not> P c \<Longrightarrow> dropWhile P s = s"
  by (cases s) auto

lemma TrimSpace_line: "\<forall>c \<in> set s. \<not> is_space c \<Longrightarrow> TrimSpace (s @ [CHR 0x0A]) = s"
proof (cases "s = []")
  case True
  then show ?thesis by (simp add: TrimSpace_def is_space_def)
next
  case False
  assume a: "\<forall>c \<in> set s. \<not> is_space c"
  with False have "dropWhile is_space (s @ [CHR 0x0A]) = s @ [CHR 0x0A]" by (cases s) auto
  moreover have "dropWhile is_space (rev (s @ [CHR 0x0A])) = rev s"
    using a dropWhile_none [of "rev s" is_space] by (simp add: is_space_def)
  ultimately show ?thesis by (simp add: TrimSpace_def)
qed

definition file_mark :: "uid_state \<Rightarrow> int" where
  "file_mark st = (case uidFile st of None \<Rightarrow> 0 | Some data \<Rightarrow>
     (case ParseInt (TrimSpace data) of None \<Rightarrow> 0 | Some n \<Rightarrow> n))"

definition file_ok :: "uid_state \<Rightarrow> bool" where
  "file_ok st \<longleftrightarrow> (case uidFile st of None \<Rightarrow> True | Some data \<Rightarrow>
     (case ParseInt (TrimSpace data) of None \<Rightarrow> False | Some n \<Rightarrow> 0 \<le> n))"

lemma parse_written: "0 \<le> n \<Longrightarrow> n < 2 ^ 63 \<Longrightarrow> ParseInt (TrimSpace (FormatInt n @ [CHR 0x0A])) = Some n"
  using FormatUint_solid [of "nat n"]
  by (simp add: FormatInt_def TrimSpace_line ParseInt_FormatUint nat_less_iff)

lemma load_mark:
  "file_ok st \<Longrightarrow> UIDStatePath o' \<noteq> [] \<Longrightarrow> uidHWM st = 0 \<Longrightarrow>
   LoadUIDHighWater o' st = (True, st\<lparr>uidHWM := file_mark st\<rparr>)"
  by (cases "uidFile st")
    (auto simp: LoadUIDHighWater_def file_ok_def file_mark_def split: option.splits)

lemma persist_mark:
  assumes "0 \<le> uid" and "uid < 2 ^ 63" and "UIDStatePath o' \<noteq> []"
    and "persistUIDHighWater o' io uid st = (ok, st')"
  shows "uidHWM st' = uidHWM st" and "ok \<Longrightarrow> file_mark st' = uid" and "file_ok st \<Longrightarrow> file_ok st'"
    and "file_mark st' = uid \<or> file_mark st' = file_mark st"
  using assms parse_written [OF assms(1,2)]
  by (auto simp: persistUIDHighWater_def file_mark_def file_ok_def Let_def split: persist_io.splits)

section \<open>The allocator over time\<close>

text \<open>
  A run of the allocator: resolutions (each against an arbitrary registry) and daemon restarts, which
  load the mark file, observe the persisted identities and write the mark back. \<open>ur_granted\<close> collects
  every identity handed out, for ever; \<open>ur_steps\<close> counts the operations, to bound the mark.
\<close>

record uid_run =
  ur_st :: uid_state
  ur_granted :: "int list"
  ur_steps :: nat

datatype uid_op = UResolve persist_io owners Config | URestart persist_io "Config list"

fun uid_exec :: "sup_opts \<Rightarrow> host_env \<Rightarrow> uid_op \<Rightarrow> uid_run \<Rightarrow> uid_run" where
  "uid_exec o' h (UResolve io owners cfg) r =
     (let (res, st') = resolveRunAsLocked o' h io owners cfg (ur_st r)
      in \<lparr>ur_st = st', ur_granted =
            (case res of
               Inl _ \<Rightarrow> ur_granted r
             | Inr cfg' \<Rightarrow> (case cfg_RunAs cfg' of None \<Rightarrow> ur_granted r | Some ra \<Rightarrow> ra_UID ra # ur_granted r)),
          ur_steps = Suc (ur_steps r)\<rparr>)"
| "uid_exec o' h (URestart io cfgs) r =
     (let (ok, st1) = LoadUIDHighWater o' ((ur_st r)\<lparr>uidHWM := 0\<rparr>);
          st2 = fold (ObserveRunAs o') cfgs st1;
          (ok', st3) = SyncUIDHighWater o' io st2
      in r\<lparr>ur_st := st3, ur_steps := Suc (ur_steps r)\<rparr>)"

definition small_uid :: "Config \<Rightarrow> bool" where
  "small_uid cfg \<longleftrightarrow> (case cfg_RunAs cfg of None \<Rightarrow> True | Some ra \<Rightarrow> ra_UID ra < 2 ^ 32)"

definition owners_ok :: "owners \<Rightarrow> bool" where
  "owners_ok owners \<longleftrightarrow> length owners < 2 ^ 20 \<and> (\<forall>(other, ra) \<in> set owners. other \<noteq> [])"

text \<open>The admissible operations: a mark write for a pinned identity or a restart succeeds (what happens
  otherwise is \<open>pinned_retry_skips_persist\<close>); a failing write of an allocation is admissible.\<close>

fun uid_op_ok :: "uid_op \<Rightarrow> bool" where
  "uid_op_ok (UResolve io owners cfg) \<longleftrightarrow>
     small_uid cfg \<and> owners_ok owners \<and> (cfg_RunAs cfg \<noteq> None \<longrightarrow> io = PersistOk)"
| "uid_op_ok (URestart io cfgs) \<longleftrightarrow> list_all small_uid cfgs \<and> io = PersistOk"

definition mark_bound :: "nat \<Rightarrow> int" where
  "mark_bound k = 2 ^ 32 + int k * 2 ^ 21"

definition uid_inv :: "sup_opts \<Rightarrow> uid_run \<Rightarrow> bool" where
  "uid_inv o' r \<longleftrightarrow> 2 ^ 40 \<le> ur_steps r \<or>
     (file_ok (ur_st r) \<and> 0 \<le> uidHWM (ur_st r) \<and> uidHWM (ur_st r) \<le> file_mark (ur_st r) \<and>
      file_mark (ur_st r) < mark_bound (ur_steps r) \<and>
      (\<forall>u \<in> set (ur_granted r). AppUIDBase o' \<le> u \<longrightarrow> u \<le> uidHWM (ur_st r)))"

definition uid_conf :: "sup_opts \<Rightarrow> bool" where
  "uid_conf o' \<longleftrightarrow> 0 < AppUIDBase o' \<and> AppUIDBase o' < 2 ^ 32 \<and> UIDStatePath o' \<noteq> []"

lemma mark_bound_mono: "x < mark_bound k \<Longrightarrow> x < mark_bound (Suc k)"
  by (simp add: mark_bound_def)

lemma mark_bound_63: "k < 2 ^ 40 \<Longrightarrow> mark_bound (Suc k) < 2 ^ 62"
  by (simp add: mark_bound_def)

text \<open>What the automatic allocation does.\<close>

lemma resolve_auto:
  assumes "uid_conf o'" and "owners_ok owners" and "cfg_RunAs cfg = None" and "\<not> cfg_RunAsRoot cfg"
    and "0 \<le> uidHWM st" and "uidHWM st < 2 ^ 62"
    and "resolveRunAsLocked o' h io owners cfg st = (res, st')"
  shows "(st' = st \<and> res = Inr cfg) \<or>
    (\<exists>n. AppUIDBase o' \<le> n \<and> uidHWM st < n \<and> n \<le> max (AppUIDBase o') (uidHWM st + 1) + 2 ^ 20 \<and>
      \<not> owns owners (cfg_ID cfg) n \<and>
      (\<exists>ok. persistUIDHighWater o' io n st = (ok, st'\<lparr>uidHWM := uidHWM st\<rparr>) \<and>
        (if ok then res = Inr (cfg\<lparr>cfg_RunAs := Some \<lparr>ra_UID = n, ra_GID = n\<rparr>\<rparr>) \<and> uidHWM st' = n
         else res = Inl RunAsPersist \<and> uidHWM st' = uidHWM st)))"
proof (cases "autoRunAsEnabled o' h \<and> \<not> (case cfg_Sandbox cfg of None \<Rightarrow> False | Some sp \<Rightarrow> UserNamespace sp)")
  case False
  then have "resolveRunAsLocked o' h io owners cfg st = (Inr cfg, st)"
    using assms(3,4) by (cases "autoRunAsEnabled o' h") (simp_all add: resolveRunAsLocked_def)
  then show ?thesis using assms(7) by simp
next
  case True
  define n0 where "n0 = (if uidHWM st \<ge> AppUIDBase o' then wrap64 (uidHWM st + 1) else AppUIDBase o')"
  have w: "wrap64 (uidHWM st + 1) = uidHWM st + 1" using assms(5,6) by (intro wrap64_Suc) auto
  have n0: "AppUIDBase o' \<le> n0" "uidHWM st < n0" "n0 \<le> max (AppUIDBase o') (uidHWM st + 1)" "0 \<le> n0"
    "n0 < 2 ^ 62 + 1"
    using w assms(1,6) by (auto simp: n0_def uid_conf_def)
  define n where "n = next_free owners (cfg_ID cfg) (length owners) n0"
  have n: "\<not> owns owners (cfg_ID cfg) n" "n0 \<le> n" "n \<le> n0 + int (length owners)"
    using next_free_ok [of owners n0 "cfg_ID cfg"] assms(2) n0 by (auto simp: n_def owners_ok_def)
  have len: "int (length owners) < 2 ^ 20" using assms(2) by (simp add: owners_ok_def)
  obtain ok st1 where p: "persistUIDHighWater o' io n st = (ok, st1)" by force
  have h1: "uidHWM st1 = uidHWM st"
    using p by (auto simp: persistUIDHighWater_def Let_def split: if_splits persist_io.splits)
  have "(res, st') = (if \<not> ok then (Inl RunAsPersist, st1)
      else (Inr (cfg\<lparr>cfg_RunAs := Some \<lparr>ra_UID = n, ra_GID = n\<rparr>\<rparr>), st1\<lparr>uidHWM := n\<rparr>))"
    using assms(3,4,7) True p
    by (cases ok) (simp_all add: resolveRunAsLocked_def n0_def [symmetric] n_def Let_def)
  then show ?thesis
    using n n0 len p h1 by (intro disjI2 exI [of _ n]) (auto split: if_splits)
qed

lemma persist_io_ok [simp]: "persistUIDHighWater o' PersistOk u st =
    (True, if UIDStatePath o' = [] then st else st\<lparr>uidFile := Some (FormatInt u @ [CHR 0x0A])\<rparr>)"
  by (simp add: persistUIDHighWater_def)

lemma resolve_pinned:
  assumes "cfg_RunAs cfg = Some ra" and "\<not> cfg_RunAsRoot cfg"
    and "resolveRunAsLocked o' h PersistOk owners cfg st = (res, st')"
  shows "(\<exists>e. res = Inl e \<and> st' = st) \<or> res = Inr cfg \<and> st' = st \<and> (AppUIDBase o' > 0 \<longrightarrow> ra_UID ra < AppUIDBase o' \<or> ra_UID ra \<le> uidHWM st) \<or>
    res = Inr cfg \<and> uidHWM st < ra_UID ra \<and> 0 < ra_UID ra \<and>
      st' = snd (persistUIDHighWater o' PersistOk (ra_UID ra) (st\<lparr>uidHWM := ra_UID ra\<rparr>))"
  using assms
  by (auto simp: resolveRunAsLocked_def observeUIDLocked_def Let_def split: if_splits)

lemma observe_fold:
  "uidFile (fold (ObserveRunAs o') cfgs st) = uidFile st \<and> uidHWM st \<le> uidHWM (fold (ObserveRunAs o') cfgs st) \<and>
   (list_all small_uid cfgs \<longrightarrow> uidHWM (fold (ObserveRunAs o') cfgs st) \<le> max (uidHWM st) (2 ^ 32 - 1))"
proof (induction cfgs arbitrary: st)
  case Nil
  show ?case by simp
next
  case (Cons c cs)
  have "uidFile (ObserveRunAs o' c st) = uidFile st \<and> uidHWM st \<le> uidHWM (ObserveRunAs o' c st) \<and>
      (small_uid c \<longrightarrow> uidHWM (ObserveRunAs o' c st) \<le> max (uidHWM st) (2 ^ 32 - 1))"
    by (auto simp: ObserveRunAs_def observeUIDLocked_def small_uid_def split: option.split)
  with Cons.IH [of "ObserveRunAs o' c st"] show ?case by fastforce
qed

lemma file_mark_hwm [simp]: "file_mark (st\<lparr>uidHWM := n\<rparr>) = file_mark st" "file_ok (st\<lparr>uidHWM := n\<rparr>) = file_ok st"
  by (simp_all add: file_mark_def file_ok_def)

lemma uid_inv_restart:
  assumes "uid_conf o'" and "uid_inv o' r" and "uid_op_ok (URestart io cfgs)"
  shows "uid_inv o' (uid_exec o' h (URestart io cfgs) r)"
proof (cases "ur_steps r < 2 ^ 40 - 1")
  case False
  then show ?thesis by (simp add: uid_inv_def Let_def split: prod.split)
next
  case True
  let ?st = "ur_st r"
  have io: "io = PersistOk" and small: "list_all small_uid cfgs" using assms(3) by simp_all
  have inv: "file_ok ?st" "0 \<le> uidHWM ?st" "uidHWM ?st \<le> file_mark ?st" "file_mark ?st < mark_bound (ur_steps r)"
    "\<forall>u \<in> set (ur_granted r). AppUIDBase o' \<le> u \<longrightarrow> u \<le> uidHWM ?st"
    using assms(2) True by (auto simp: uid_inv_def)
  have path: "UIDStatePath o' \<noteq> []" using assms(1) by (simp add: uid_conf_def)
  define st1 where "st1 = ?st\<lparr>uidHWM := file_mark ?st\<rparr>"
  have l: "LoadUIDHighWater o' (?st\<lparr>uidHWM := 0\<rparr>) = (True, st1)"
    using load_mark [of "?st\<lparr>uidHWM := 0\<rparr>" o'] inv(1) path by (simp add: st1_def)
  define st2 where "st2 = fold (ObserveRunAs o') cfgs st1"
  have f2: "uidFile st2 = uidFile ?st" and h2: "file_mark ?st \<le> uidHWM st2"
    and b2: "uidHWM st2 \<le> max (file_mark ?st) (2 ^ 32 - 1)"
    using observe_fold [of o' cfgs st1] small by (auto simp: st2_def st1_def)
  have b2': "uidHWM st2 < mark_bound (Suc (ur_steps r))"
    using b2 inv(4) mark_bound_mono [of "file_mark ?st"] by (auto simp: mark_bound_def)
  have lim: "uidHWM st2 < 2 ^ 63" using b2' mark_bound_63 [of "ur_steps r"] True by simp
  define st3 where "st3 = snd (SyncUIDHighWater o' io st2)"
  have s3: "uidHWM st3 = uidHWM st2 \<and> file_ok st3 \<and> file_mark st3 = uidHWM st2"
  proof (cases "uidHWM st2 = 0")
    case True
    then have "st3 = st2" by (simp add: st3_def SyncUIDHighWater_def)
    moreover have "file_mark st2 = file_mark ?st" "file_ok st2 = file_ok ?st"
      using f2 by (simp_all add: file_mark_def file_ok_def)
    ultimately show ?thesis using True h2 inv by simp
  next
    case False
    obtain ok where p: "persistUIDHighWater o' io (uidHWM st2) st2 = (ok, st3)"
      using False by (cases "persistUIDHighWater o' io (uidHWM st2) st2") (simp add: st3_def SyncUIDHighWater_def)
    then have "ok" using io path by simp
    have "file_ok st2" using f2 inv(1) by (simp add: file_ok_def)
    with persist_mark [OF _ lim path p] \<open>ok\<close> h2 inv(2,3) show ?thesis by simp
  qed
  have "uid_exec o' h (URestart io cfgs) r = r\<lparr>ur_st := st3, ur_steps := Suc (ur_steps r)\<rparr>"
    using l by (simp add: st2_def [symmetric] st3_def split: prod.split)
  moreover have "u \<le> uidHWM st2" if "u \<in> set (ur_granted r)" "AppUIDBase o' \<le> u" for u
    using inv(3,5) that h2 by force
  ultimately show ?thesis
    using s3 b2' h2 inv(2,3) by (auto simp: uid_inv_def)
qed

lemma uid_inv_resolve:
  assumes "uid_conf o'" and "uid_inv o' r" and "uid_op_ok (UResolve io owners cfg)"
  shows "uid_inv o' (uid_exec o' h (UResolve io owners cfg) r)"
proof (cases "ur_steps r < 2 ^ 40 - 1")
  case False
  then show ?thesis by (simp add: uid_inv_def Let_def split: prod.split)
next
  case True
  let ?st = "ur_st r"
  have inv: "file_ok ?st" "0 \<le> uidHWM ?st" "uidHWM ?st \<le> file_mark ?st" "file_mark ?st < mark_bound (ur_steps r)"
    "\<forall>u \<in> set (ur_granted r). AppUIDBase o' \<le> u \<longrightarrow> u \<le> uidHWM ?st"
    using assms(2) True by (auto simp: uid_inv_def)
  have path: "UIDStatePath o' \<noteq> []" and base: "0 < AppUIDBase o'" "AppUIDBase o' < 2 ^ 32"
    using assms(1) by (simp_all add: uid_conf_def)
  have ops: "small_uid cfg" "owners_ok owners" "cfg_RunAs cfg \<noteq> None \<Longrightarrow> io = PersistOk"
    using assms(3) by auto
  have b62: "mark_bound (Suc (ur_steps r)) < 2 ^ 62" using True by (intro mark_bound_63) simp
  have bs: "file_mark ?st < mark_bound (Suc (ur_steps r))" using inv(4) by (rule mark_bound_mono)
  obtain res st' where res: "resolveRunAsLocked o' h io owners cfg ?st = (res, st')" by force
  show ?thesis
  proof (cases "cfg_RunAsRoot cfg")
    case root: True
    then have "res = Inr (cfg\<lparr>cfg_RunAs := None\<rparr>)" "st' = ?st" using res by (simp_all add: resolveRunAsLocked_def)
    then show ?thesis using res inv bs by (simp add: uid_inv_def)
  next
    case False
    show ?thesis
    proof (cases "cfg_RunAs cfg")
      case None
      have hw: "uidHWM ?st < 2 ^ 62" using inv(3) bs b62 by simp
      from resolve_auto [OF assms(1) ops(2) None False inv(2) hw res] show ?thesis
      proof (elim disjE exE conjE)
        assume "st' = ?st" "res = Inr cfg"
        then show ?thesis using res inv bs None by (simp add: uid_inv_def)
      next
        fix n ok
        assume n: "AppUIDBase o' \<le> n" "uidHWM ?st < n" "n \<le> max (AppUIDBase o') (uidHWM ?st + 1) + 2 ^ 20"
          and p: "persistUIDHighWater o' io n ?st = (ok, st'\<lparr>uidHWM := uidHWM ?st\<rparr>)"
          and c: "if ok then res = Inr (cfg\<lparr>cfg_RunAs := Some \<lparr>ra_UID = n, ra_GID = n\<rparr>\<rparr>) \<and> uidHWM st' = n
            else res = Inl RunAsPersist \<and> uidHWM st' = uidHWM ?st"
        have nb: "n < mark_bound (Suc (ur_steps r))"
          using n(3) base(2) inv(3,4) by (auto simp: mark_bound_def)
        then have lim: "0 \<le> n" "n < 2 ^ 63" using b62 n(1) base(1) by auto
        note pm = persist_mark [OF lim path p]
        show ?thesis
        proof (cases ok)
          case True
          then show ?thesis using pm(2,3) c res inv n nb lim by (auto simp: uid_inv_def)
        next
          case False
          then show ?thesis using pm(3,4) c res inv n nb bs by (auto simp: uid_inv_def)
        qed
      qed
    next
      case (Some ra)
      then have io: "io = PersistOk" using ops(3) by simp
      have ra: "ra_UID ra < 2 ^ 32" using ops(1) Some by (simp add: small_uid_def)
      from resolve_pinned [OF Some False res [unfolded io]] show ?thesis
      proof (elim disjE exE conjE)
        fix e assume "res = Inl e" "st' = ?st"
        then show ?thesis using res inv bs by (simp add: uid_inv_def)
      next
        assume "res = Inr cfg" "st' = ?st" "AppUIDBase o' > 0 \<longrightarrow> ra_UID ra < AppUIDBase o' \<or> ra_UID ra \<le> uidHWM ?st"
        then show ?thesis using res inv bs Some base by (auto simp: uid_inv_def)
      next
        assume r: "res = Inr cfg" "uidHWM ?st < ra_UID ra" "0 < ra_UID ra"
          and st': "st' = snd (persistUIDHighWater o' PersistOk (ra_UID ra) (?st\<lparr>uidHWM := ra_UID ra\<rparr>))"
        have p: "persistUIDHighWater o' PersistOk (ra_UID ra) (?st\<lparr>uidHWM := ra_UID ra\<rparr>) = (True, st')"
          using st' by simp
        have lim: "0 \<le> ra_UID ra" "ra_UID ra < 2 ^ 63" using r ra by auto
        have "ra_UID ra < mark_bound (Suc (ur_steps r))" using ra by (simp add: mark_bound_def)
        then show ?thesis
          using persist_mark [OF lim path p] res r inv Some by (auto simp: uid_inv_def)
      qed
    qed
  qed
qed

interpretation uid_sys: op_system "uid_exec o' h" "\<lambda>op. uid_conf o' \<and> uid_op_ok op" "uid_inv o'" for o' h
proof
  show "uid_inv o' r \<Longrightarrow> uid_conf o' \<and> uid_op_ok op \<Longrightarrow> uid_inv o' (uid_exec o' h op r)" for r op
    by (cases op) (simp_all only: uid_inv_resolve uid_inv_restart)
qed

definition fresh_run :: uid_run where
  "fresh_run = \<lparr>ur_st = \<lparr>uidHWM = 0, uidFile = None\<rparr>, ur_granted = [], ur_steps = 0\<rparr>"

lemma fresh_run_inv: "uid_inv o' fresh_run"
  by (simp add: uid_inv_def fresh_run_def file_ok_def file_mark_def mark_bound_def)

lemma run_steps: "ur_steps (fold (uid_exec o' h) ops r) = ur_steps r + length ops"
proof (induction ops arbitrary: r)
  case (Cons op ops)
  then show ?case by (cases op) (simp_all add: Let_def split: prod.split)
qed simp

section \<open>Properties\<close>

text \<open>
  C15: Automatic allocation never reuses a UID. Over any history of spawns (with any registry, automatic or
  pinned identities below \<open>2 ^ 32\<close>, and failing mark-file writes of allocations) and daemon restarts, fewer
  than \<open>2 ^ 40\<close> of them, in which the mark-file writes of pinned identities and restarts succeed, the UID
  that is allocated to an app with no \<open>RunAs\<close> of its own (and not \<open>RunAsRoot\<close>) lies in the allocation range,
  is owned by no other registered app, and differs from every UID handed out before, allocated or
  pinned: an app never inherits a deleted app's files through the allocator. An operator who pins
  \<open>RunAs\<close> may still name a UID that an app deleted since has used; nothing here excludes that.
\<close>

theorem uid_never_reused:
  assumes "uid_conf o'" and "list_all uid_op_ok ops" and "length ops < 2 ^ 40 - 1"
    and "r = fold (uid_exec o' h) ops fresh_run" and "owners_ok owners"
    and "cfg_RunAs cfg = None" and "\<not> cfg_RunAsRoot cfg"
    and "resolveRunAsLocked o' h io owners cfg (ur_st r) = (Inr cfg', st')"
    and "cfg_RunAs cfg' = Some ra"
  shows "ra_UID ra \<notin> set (ur_granted r) \<and> AppUIDBase o' \<le> ra_UID ra \<and> ra_GID ra = ra_UID ra \<and>
    \<not> owns owners (cfg_ID cfg) (ra_UID ra)"
proof -
  have "uid_inv o' r"
    unfolding assms(4) using assms(1,2) by (intro uid_sys.inv_run fresh_run_inv) (simp add: list_all_iff)
  moreover have "ur_steps r < 2 ^ 40 - 1" using assms(3,4) run_steps [of o' h ops fresh_run] by (simp add: fresh_run_def)
  ultimately have inv: "0 \<le> uidHWM (ur_st r)" "uidHWM (ur_st r) < 2 ^ 62"
    "\<forall>u \<in> set (ur_granted r). AppUIDBase o' \<le> u \<longrightarrow> u \<le> uidHWM (ur_st r)"
    using mark_bound_63 [of "ur_steps r"] mark_bound_mono [of "file_mark (ur_st r)" "ur_steps r"]
    by (auto simp: uid_inv_def)
  from resolve_auto [OF assms(1,5,6,7) inv(1,2) assms(8)] assms(6,9) inv(3) show ?thesis
    by (auto split: if_splits)
qed

definition demo_opts :: sup_opts where
  "demo_opts = New_opts\<lparr>UIDStatePath := ''/var/lib/creekd/app-uid-hwm''\<rparr>"

definition demo_host :: host_env where
  "demo_host = \<lparr>is_linux = True, sys_admin_cap = True, setid_caps = True, kill_cap = True\<rparr>"

lemmas demo_eval = demo_opts_def New_opts_def demo_host_def autoRunAsEnabled_def PerAppUIDsAvailable_def
  zero_Config_def runAsOwnerLocked_def

theorem uid_never_reused_witness:
  "1000000 \<notin> set (ur_granted (fold (uid_exec demo_opts demo_host) [URestart PersistOk []] fresh_run)) \<and>
   \<not> owns [] ''web'' 1000000"
proof -
  let ?r = "fold (uid_exec demo_opts demo_host) [URestart PersistOk []] fresh_run"
  have st: "ur_st ?r = \<lparr>uidHWM = 0, uidFile = None\<rparr>"
    by (simp add: fresh_run_def LoadUIDHighWater_def SyncUIDHighWater_def)
  let ?cfg = "zero_Config\<lparr>cfg_ID := ''web''\<rparr>"
  have "uid_conf demo_opts" by (simp add: uid_conf_def demo_eval)
  moreover have "fst (resolveRunAsLocked demo_opts demo_host PersistOk [] ?cfg (ur_st ?r)) =
      Inr (?cfg\<lparr>cfg_RunAs := Some \<lparr>ra_UID = 1000000, ra_GID = 1000000\<rparr>\<rparr>)"
    unfolding st by (simp add: resolveRunAsLocked_def demo_eval Let_def)
  then obtain st' where "resolveRunAsLocked demo_opts demo_host PersistOk [] ?cfg (ur_st ?r) =
      (Inr (?cfg\<lparr>cfg_RunAs := Some \<lparr>ra_UID = 1000000, ra_GID = 1000000\<rparr>\<rparr>), st')"
    by (cases "resolveRunAsLocked demo_opts demo_host PersistOk [] ?cfg (ur_st ?r)") simp
  ultimately show ?thesis
    using uid_never_reused [of demo_opts "[URestart PersistOk []]" ?r demo_host "[]" ?cfg PersistOk
        "?cfg\<lparr>cfg_RunAs := Some \<lparr>ra_UID = 1000000, ra_GID = 1000000\<rparr>\<rparr>" st'
        "\<lparr>ra_UID = 1000000, ra_GID = 1000000\<rparr>"]
    by (simp add: owners_ok_def zero_Config_def)
qed

text \<open>
  The mark write of a pinned UID is not retried. When the first spawn with a pinned UID above the
  mark fails to write the mark file, a second spawn with the same UID succeeds without writing it: the
  file still holds the old mark, so after a restart the allocator starts again below that UID.
\<close>

theorem pinned_retry_skips_persist:
  assumes "cfg_RunAs cfg = Some ra" and "\<not> cfg_RunAsRoot cfg" and "is_linux h" and "setid_caps h"
    and "0 < ra_GID ra" and "0 < AppUIDBase o'" and "AppUIDBase o' \<le> ra_UID ra" and "uidHWM st < ra_UID ra"
    and "runAsOwnerLocked owners (ra_UID ra) (cfg_ID cfg) = []" and "UIDStatePath o' \<noteq> []"
  shows "\<exists>st1. resolveRunAsLocked o' h PersistFailBefore owners cfg st = (Inl RunAsPersist, st1) \<and>
    resolveRunAsLocked o' h io owners cfg st1 = (Inr cfg, st1) \<and> uidFile st1 = uidFile st"
  using assms
  by (simp add: resolveRunAsLocked_def observeUIDLocked_def persistUIDHighWater_def Let_def)

theorem pinned_retry_skips_persist_witness:
  "\<exists>st1. resolveRunAsLocked demo_opts demo_host PersistFailBefore []
      (zero_Config\<lparr>cfg_ID := ''web'', cfg_RunAs := Some \<lparr>ra_UID = 1000007, ra_GID = 1000007\<rparr>\<rparr>)
      \<lparr>uidHWM = 0, uidFile = None\<rparr> = (Inl RunAsPersist, st1) \<and>
    resolveRunAsLocked demo_opts demo_host PersistOk []
      (zero_Config\<lparr>cfg_ID := ''web'', cfg_RunAs := Some \<lparr>ra_UID = 1000007, ra_GID = 1000007\<rparr>\<rparr>) st1 =
      (Inr (zero_Config\<lparr>cfg_ID := ''web'', cfg_RunAs := Some \<lparr>ra_UID = 1000007, ra_GID = 1000007\<rparr>\<rparr>), st1) \<and>
    uidFile st1 = uidFile \<lparr>uidHWM = 0, uidFile = None\<rparr>"
  by (rule pinned_retry_skips_persist [where ra = "\<lparr>ra_UID = 1000007, ra_GID = 1000007\<rparr>"])
    (simp_all add: demo_eval)

text \<open>
  A blue-green replacement keeps the host identity: a v2 configuration that names none inherits v1's,
  and its resolution grants exactly that UID and GID (v1 itself, registered under the app's id, does
  not count as another owner), or keeps it root when v1 was spawned as root.
\<close>

theorem deploy_keeps_identity:
  assumes "cfg_RunAs v2 = None" and "\<not> cfg_RunAsRoot v2" and "id_grammar i" and "cfg_ID v2 = deployTempID i"
    and "v1_root \<or> (\<exists>r. v1_runAs = Some r \<and> 0 < ra_UID r \<and> ra_GID r = ra_UID r \<and> ra_UID r \<le> uidHWM st \<and>
           list_all (\<lambda>(other, ra). other = i \<or> (case ra of None \<Rightarrow> True | Some x \<Rightarrow> ra_UID x \<noteq> ra_UID r)) owners)"
    and "is_linux h" and "setid_caps h"
  shows "\<exists>cfg. resolveRunAsLocked o' h io owners (inheritIdentity v2 v1_runAs v1_root) st = (Inr cfg, st) \<and>
    cfg_RunAs cfg = (if v1_root then None else v1_runAs)"
proof (cases v1_root)
  case True
  then show ?thesis using assms(1,2) by (simp add: inheritIdentity_def resolveRunAsLocked_def)
next
  case False
  with assms(5) obtain r where r: "v1_runAs = Some r" "0 < ra_UID r" "ra_GID r = ra_UID r" "ra_UID r \<le> uidHWM st"
    "list_all (\<lambda>(other, ra). other = i \<or> (case ra of None \<Rightarrow> True | Some x \<Rightarrow> ra_UID x \<noteq> ra_UID r)) owners" by auto
  have t: "TrimSuffix (deployTempID i) deployTempSuffix = i"
    by (simp add: deployTempID_def TrimSuffix_def HasSuffix_def)
  have "find (\<lambda>(other, ra). TrimSuffix other deployTempSuffix \<noteq> i \<and>
      (case ra of None \<Rightarrow> False | Some x \<Rightarrow> ra_UID x = ra_UID r)) owners = None"
    unfolding find_None_D using r(5) assms(3) by (auto simp: list_all_iff split: option.splits)
  then have "runAsOwnerLocked owners (ra_UID r) (deployTempID i) = []"
    by (simp add: runAsOwnerLocked_def t)
  then show ?thesis
    using False r assms(1,2,4,6,7)
    by (simp add: inheritIdentity_def resolveRunAsLocked_def observeUIDLocked_def Let_def)
qed

theorem deploy_keeps_identity_witness:
  "\<exists>cfg. resolveRunAsLocked demo_opts demo_host PersistOk [(''web'', Some \<lparr>ra_UID = 1000000, ra_GID = 1000000\<rparr>)]
      (inheritIdentity (zero_Config\<lparr>cfg_ID := deployTempID ''web''\<rparr>)
        (Some \<lparr>ra_UID = 1000000, ra_GID = 1000000\<rparr>) False) \<lparr>uidHWM = 1000000, uidFile = None\<rparr> =
      (Inr cfg, \<lparr>uidHWM = 1000000, uidFile = None\<rparr>) \<and>
    cfg_RunAs cfg = (if False then None else Some \<lparr>ra_UID = 1000000, ra_GID = 1000000\<rparr>)"
  by (rule deploy_keeps_identity [where i = "''web''"])
    (simp_all add: demo_eval ValidateID_grammar [symmetric] ValidateID_def)

end
