(* ===== verification/Net_Pool.thy ===== *)
theory Net_Pool
  imports Creek_Prelude "HOL-Library.Word"
begin

text \<open>
  \<open>internal/network/network.go\<close>: the IPv4 address pool. An address is its four bytes, as in \<open>net.IP.To4\<close>;
  \<open>nextIP\<close> is the code's carry loop, unrolled over the four positions. The result of \<open>net.ParseCIDR\<close>
  is the argument of \<open>NewIPPool\<close>: the masked network address and the prefix length, or \<open>None\<close> for a
  parse error or an address that is not IPv4. Addresses are compared through \<open>ip_val\<close>, their
  big-endian value.
\<close>

unbundle bit_operations_syntax

section \<open>Addresses\<close>

type_synonym ip = "8 word \<times> 8 word \<times> 8 word \<times> 8 word"

fun nextIP :: "ip \<Rightarrow> ip" where
  "nextIP (a, b, c, d) =
     (if d + 1 \<noteq> 0 then (a, b, c, d + 1)
      else if c + 1 \<noteq> 0 then (a, b, c + 1, 0)
      else if b + 1 \<noteq> 0 then (a, b + 1, 0, 0)
      else (a + 1, 0, 0, 0))"

fun broadcast :: "ip \<Rightarrow> ip \<Rightarrow> ip" where
  "broadcast (a, b, c, d) (ma, mb, mc, md) = (a OR NOT ma, b OR NOT mb, c OR NOT mc, d OR NOT md)"

text \<open>\<open>net.CIDRMask(ones, 32)\<close>, byte by byte, and the masked address \<open>ParseCIDR\<close> returns.\<close>

definition mask_byte :: "nat \<Rightarrow> 8 word" where
  "mask_byte k = NOT (mask (8 - k))"

definition CIDRMask :: "nat \<Rightarrow> ip" where
  "CIDRMask ones = (mask_byte ones, mask_byte (ones - 8), mask_byte (ones - 16), mask_byte (ones - 24))"

fun ip_Mask :: "ip \<Rightarrow> ip \<Rightarrow> ip" where
  "ip_Mask (a, b, c, d) (ma, mb, mc, md) = (a AND ma, b AND mb, c AND mc, d AND md)"

fun ip_val :: "ip \<Rightarrow> nat" where
  "ip_val (a, b, c, d) = ((unat a * 256 + unat b) * 256 + unat c) * 256 + unat d"

lemma unat_lt256 [simp]: "unat (x :: 8 word) < 256"
  using unsigned_less [of x, where 'a = nat] by simp

lemma unat_le255: "unat (x :: 8 word) \<le> 255"
  using unat_lt256 [of x] by linarith

lemma ip_val_lt: "ip_val x < 2 ^ 32"
proof (cases x)
  case (fields a b c d)
  then show ?thesis using unat_le255 [of a] unat_le255 [of b] unat_le255 [of c] unat_le255 [of d]
    by simp
qed

lemma base256_inj:
  fixes m n i j :: nat
  assumes "m * 256 + i = n * 256 + j" and "i < 256" and "j < 256"
  shows "m = n \<and> i = j"
proof -
  have "(m * 256 + i) div 256 = (n * 256 + j) div 256" "(m * 256 + i) mod 256 = (n * 256 + j) mod 256"
    using assms(1) by simp_all
  then show ?thesis using assms(2,3) by simp
qed

lemma ip_val_inj: "ip_val x = ip_val y \<Longrightarrow> x = y"
proof (cases x, cases y)
  fix a b c d a' b' c' d'
  assume e: "ip_val x = ip_val y" and x: "x = (a, b, c, d)" and y: "y = (a', b', c', d')"
  from e x y have 1: "((unat a * 256 + unat b) * 256 + unat c) * 256 + unat d =
      ((unat a' * 256 + unat b') * 256 + unat c') * 256 + unat d'" by simp
  note 2 = base256_inj [OF 1 unat_lt256 unat_lt256]
  note 3 = base256_inj [OF 2 [THEN conjunct1] unat_lt256 unat_lt256]
  note 4 = base256_inj [OF 3 [THEN conjunct1] unat_lt256 unat_lt256]
  show "x = y" using 2 3 4 x y by (simp add: word_eq_iff_unsigned [where 'a = nat])
qed

lemma unat_Suc_byte: "(x :: 8 word) + 1 \<noteq> 0 \<Longrightarrow> unat (x + 1) = unat x + 1"
  using unatSuc [of x] by (simp add: add.commute)

lemma unat_last_byte: "(x :: 8 word) + 1 = 0 \<Longrightarrow> unat x = 255"
proof -
  assume "x + 1 = 0"
  then have "x = - 1" by (simp add: eq_neg_iff_add_eq_0)
  then show ?thesis by (simp add: unsigned_minus_1_eq_mask mask_eq_exp_minus_1)
qed

lemma ip_val_nextIP: "ip_val (nextIP x) = (ip_val x + 1) mod 2 ^ 32"
proof (cases x)
  case (fields a b c d)
  have "ip_val (nextIP x) = ip_val x + 1 \<or> ip_val x = 2 ^ 32 - 1 \<and> ip_val (nextIP x) = 0"
    using fields by (cases "d + 1 = 0"; cases "c + 1 = 0"; cases "b + 1 = 0"; cases "a + 1 = 0")
      (simp_all add: unat_Suc_byte unat_last_byte)
  then show ?thesis using ip_val_lt [of "nextIP x"] by auto
qed

section \<open>The pool\<close>

record IPPool =
  pool_net :: ip
  pool_ones :: nat
  pool_gateway :: ip
  pool_inuse :: "ip list"

datatype net_error = NetParse | NetTooSmall | NetExhausted

definition NewIPPool :: "(ip \<times> nat) option \<Rightarrow> net_error + IPPool" where
  "NewIPPool parsed =
     (case parsed of
        None \<Rightarrow> Inl NetParse
      | Some (ip0, ones) \<Rightarrow>
          if int 32 - int ones < 2 then Inl NetTooSmall
          else let gw = nextIP ip0
               in Inr \<lparr>pool_net = ip0, pool_ones = ones, pool_gateway = gw, pool_inuse = [gw]\<rparr>)"

definition pool_bcast :: "IPPool \<Rightarrow> ip" where
  "pool_bcast p = broadcast (pool_net p) (CIDRMask (pool_ones p))"

definition ip_dist :: "ip \<Rightarrow> ip \<Rightarrow> nat" where
  "ip_dist x y = (ip_val y + (2 ^ 32 - ip_val x)) mod 2 ^ 32"

lemma ip_dist_next:
  assumes "x \<noteq> y"
  shows "ip_dist (nextIP x) y < ip_dist x y"
proof -
  have ne: "ip_val x \<noteq> ip_val y" using assms ip_val_inj by blast
  have x: "ip_val x < 2 ^ 32" and y: "ip_val y < 2 ^ 32" by (rule ip_val_lt)+
  show ?thesis
  proof (cases "ip_val x < ip_val y")
    case True
    then have "ip_dist x y = ip_val y - ip_val x" "ip_val (nextIP x) = ip_val x + 1"
      using x y by (simp_all add: ip_dist_def ip_val_nextIP le_mod_geq)
    moreover from this have "ip_dist (nextIP x) y = ip_val y - ip_val x - 1"
      using True x y by (simp add: ip_dist_def le_mod_geq)
    ultimately show ?thesis using True by simp
  next
    case False
    then have less: "ip_val y < ip_val x" using ne by simp
    then have d: "ip_dist x y = ip_val y + (2 ^ 32 - ip_val x)"
      using x y by (simp add: ip_dist_def)
    show ?thesis
    proof (cases "ip_val x = 2 ^ 32 - 1")
      case True
      then have "ip_dist (nextIP x) y = ip_val y" using y by (simp add: ip_dist_def ip_val_nextIP)
      then show ?thesis using d True by simp
    next
      case False
      then have "ip_val (nextIP x) = ip_val x + 1" using x by (simp add: ip_val_nextIP)
      then show ?thesis using d less x y False by (simp add: ip_dist_def)
    qed
  qed
qed

function alloc_scan :: "ip \<Rightarrow> ip \<Rightarrow> ip list \<Rightarrow> ip option" where
  "alloc_scan cur bcast inuse =
     (if cur = bcast then None
      else if cur \<notin> set inuse then Some cur
      else alloc_scan (nextIP cur) bcast inuse)"
  by pat_completeness auto
termination by (relation "measure (\<lambda>(cur, bcast, _). ip_dist cur bcast)") (auto simp: ip_dist_next)

declare alloc_scan.simps [simp del]

definition Allocate :: "IPPool \<Rightarrow> (net_error + ip) \<times> IPPool" where
  "Allocate p =
     (case alloc_scan (nextIP (pool_gateway p)) (pool_bcast p) (pool_inuse p) of
        None \<Rightarrow> (Inl NetExhausted, p)
      | Some ip \<Rightarrow> (Inr ip, p\<lparr>pool_inuse := ip # pool_inuse p\<rparr>))"

text \<open>\<open>Release\<close> takes \<open>None\<close> for a nil address or one that is not IPv4.\<close>

definition Release_ip :: "ip option \<Rightarrow> IPPool \<Rightarrow> IPPool" where
  "Release_ip x p =
     (case x of
        None \<Rightarrow> p
      | Some ip \<Rightarrow> if ip = pool_gateway p then p else p\<lparr>pool_inuse := removeAll ip (pool_inuse p)\<rparr>)"

section \<open>The range of a pool\<close>

lemma byte_or_not:
  assumes "a AND m = (a :: 8 word)"
  shows "unat (a OR NOT m) = unat a + unat (NOT m)"
proof -
  have "a AND NOT m = (a AND m) AND NOT m" using assms by simp
  then have "a AND NOT m = 0" by (simp only: and.assoc) simp
  then have s: "a OR NOT m = a + NOT m" using word_plus_and_or [of a "NOT m"] by simp
  have "a AND m \<le> m" by (rule word_and_le1)
  then have "a \<le> m" unfolding assms .
  then have "unat a \<le> unat m" by (simp add: word_le_nat_alt)
  moreover have "unat (NOT m) = 255 - unat m"
  proof -
    have "NOT m = - 1 - m" by (simp add: not_eq_complement)
    moreover have "unat (- 1 - m) = unat (- 1 :: 8 word) - unat m"
      by (rule unat_sub) simp
    moreover have "unat (- 1 :: 8 word) = 255"
      by (simp add: unsigned_minus_1_eq_mask mask_eq_exp_minus_1)
    ultimately show ?thesis by simp
  qed
  ultimately show ?thesis
    unfolding s using unat_le255 [of m] by (subst unat_add_lem [THEN iffD1]) simp_all
qed

fun ip_not :: "ip \<Rightarrow> ip" where
  "ip_not (a, b, c, d) = (NOT a, NOT b, NOT c, NOT d)"

lemma base256_add:
  fixes a b c d a' b' c' d' :: nat
  shows "(((a + a') * 256 + (b + b')) * 256 + (c + c')) * 256 + (d + d') =
    (((a * 256 + b) * 256 + c) * 256 + d) + (((a' * 256 + b') * 256 + c') * 256 + d')"
  by simp

lemma ip_val_broadcast:
  "ip_Mask x m = x \<Longrightarrow> ip_val (broadcast x m) = ip_val x + ip_val (ip_not m)"
proof (cases x, cases m)
  fix a b c d ma mb mc md
  assume xm: "ip_Mask x m = x" and x: "x = (a, b, c, d)" and m: "m = (ma, mb, mc, md)"
  from xm have "a AND ma = a" "b AND mb = b" "c AND mc = c" "d AND md = d"
    unfolding x m ip_Mask.simps prod.inject by blast+
  note this [THEN byte_or_not]
  then show "ip_val (broadcast x m) = ip_val x + ip_val (ip_not m)"
    unfolding x m broadcast.simps ip_not.simps ip_val.simps by (simp only: base256_add)
qed

lemma unat_mask_byte: "n \<le> 8 \<Longrightarrow> unat (mask n :: 8 word) = 2 ^ n - 1"
proof -
  assume "n \<le> 8"
  then have "uint (mask n :: 8 word) = mask n" by (simp add: uint_mask_eq min_def)
  also have "\<dots> = int (2 ^ n - 1)" by (simp add: mask_eq_exp_minus_1 of_nat_diff)
  finally show ?thesis unfolding uint_nat of_nat_eq_iff .
qed

lemma ip_val_not_mask:
  assumes "ones \<le> 32"
  shows "ip_val (ip_not (CIDRMask ones)) = 2 ^ (32 - ones) - 1"
proof -
  have "ones \<in> set [0..<33]" using assms by auto
  then show ?thesis
    unfolding CIDRMask_def mask_byte_def
    by (simp add: upt_rec unat_mask_byte) (elim disjE; simp add: unat_mask_byte)
qed

definition pool_ok :: "IPPool \<Rightarrow> bool" where
  "pool_ok p \<longleftrightarrow> pool_ones p \<le> 30 \<and> ip_Mask (pool_net p) (CIDRMask (pool_ones p)) = pool_net p \<and>
     pool_gateway p = nextIP (pool_net p) \<and> pool_gateway p \<in> set (pool_inuse p) \<and>
     distinct (pool_inuse p) \<and>
     (\<forall>x \<in> set (pool_inuse p). ip_val (pool_gateway p) \<le> ip_val x \<and> ip_val x < ip_val (pool_bcast p))"

lemma pool_range:
  assumes "ones \<le> 30" and "ip_Mask x (CIDRMask ones) = x"
  shows "ip_val (broadcast x (CIDRMask ones)) = ip_val x + 2 ^ (32 - ones) - 1 \<and>
    ip_val (nextIP x) = ip_val x + 1 \<and> ip_val (nextIP (nextIP x)) = ip_val x + 2 \<and>
    ip_val x + 3 \<le> ip_val (broadcast x (CIDRMask ones))"
proof -
  have "(2 :: nat) ^ 2 \<le> 2 ^ (32 - ones)" using assms(1) by (intro power_increasing) auto
  then have four: "(4 :: nat) \<le> 2 ^ (32 - ones)" by simp
  have b: "ip_val (broadcast x (CIDRMask ones)) = ip_val x + (2 ^ (32 - ones) - 1)"
    using ip_val_broadcast [OF assms(2)] ip_val_not_mask assms(1) by simp
  have lt: "ip_val (broadcast x (CIDRMask ones)) < 2 ^ 32" by (rule ip_val_lt)
  have n1: "ip_val (nextIP x) = ip_val x + 1" using b lt four by (simp add: ip_val_nextIP)
  moreover have "ip_val (nextIP (nextIP x)) = ip_val x + 2"
    using n1 b lt four ip_val_nextIP [of "nextIP x"] by simp
  ultimately show ?thesis using b four by simp
qed

lemma NewIPPool_ok:
  assumes "NewIPPool (Some (ip_Mask x (CIDRMask ones), ones)) = Inr p"
  shows "pool_ok p"
proof -
  have o: "ones \<le> 30" and p: "p = \<lparr>pool_net = ip_Mask x (CIDRMask ones), pool_ones = ones,
      pool_gateway = nextIP (ip_Mask x (CIDRMask ones)),
      pool_inuse = [nextIP (ip_Mask x (CIDRMask ones))]\<rparr>"
    using assms by (auto simp: NewIPPool_def Let_def split: if_splits)
  have m: "ip_Mask (ip_Mask x (CIDRMask ones)) (CIDRMask ones) = ip_Mask x (CIDRMask ones)"
    by (cases x; cases "CIDRMask ones") (simp add: and.assoc)
  show ?thesis
    using pool_range [OF o m] o m by (simp add: p pool_ok_def pool_bcast_def)
qed

lemma alloc_scan_spec:
  "ip_val cur \<le> ip_val bcast \<Longrightarrow>
   (case alloc_scan cur bcast inuse of
      None \<Rightarrow> \<forall>y. ip_val cur \<le> ip_val y \<and> ip_val y < ip_val bcast \<longrightarrow> y \<in> set inuse
    | Some x \<Rightarrow> ip_val cur \<le> ip_val x \<and> ip_val x < ip_val bcast \<and> x \<notin> set inuse \<and>
        (\<forall>y. ip_val cur \<le> ip_val y \<and> ip_val y < ip_val x \<longrightarrow> y \<in> set inuse))"
proof (induction cur bcast inuse rule: alloc_scan.induct)
  case (1 cur bcast inuse)
  show ?case
  proof (cases "cur = bcast")
    case True
    then show ?thesis by (subst alloc_scan.simps) auto
  next
    case ne: False
    then have less: "ip_val cur < ip_val bcast" using 1(2) ip_val_inj by (metis le_neq_implies_less)
    show ?thesis
    proof (cases "cur \<in> set inuse")
      case False
      then show ?thesis using ne less by (subst alloc_scan.simps) auto
    next
      case True
      have n: "ip_val (nextIP cur) = ip_val cur + 1"
        using less ip_val_lt [of bcast] by (simp add: ip_val_nextIP)
      have skip: "(ip_val cur + 1 \<le> ip_val y \<longrightarrow> Q y) \<Longrightarrow> y \<in> set inuse \<or> ip_val cur \<noteq> ip_val y" for y Q
        using True ip_val_inj [of cur y] by auto
      have "alloc_scan cur bcast inuse = alloc_scan (nextIP cur) bcast inuse"
        using ne True by (subst alloc_scan.simps) simp
      moreover have "y \<in> set inuse" if "ip_val cur \<le> ip_val y" "\<not> ip_val cur + 1 \<le> ip_val y" for y
        using that True ip_val_inj [of cur y] by simp
      ultimately show ?thesis
        using 1(1) [OF ne] True n less
        by (fastforce split: option.splits)
    qed
  qed
qed

section \<open>Operations keep the invariant\<close>

lemma scan_from_gateway:
  assumes "pool_ok p"
  shows "ip_val (nextIP (pool_gateway p)) = ip_val (pool_net p) + 2 \<and>
    ip_val (nextIP (pool_gateway p)) \<le> ip_val (pool_bcast p) \<and>
    ip_val (pool_gateway p) = ip_val (pool_net p) + 1 \<and>
    ip_val (pool_bcast p) = ip_val (pool_net p) + 2 ^ (32 - pool_ones p) - 1"
  using assms pool_range [of "pool_ones p" "pool_net p"] by (auto simp: pool_ok_def pool_bcast_def)

lemma pool_bcast_inuse [simp]: "pool_bcast (p\<lparr>pool_inuse := u\<rparr>) = pool_bcast p"
  by (simp add: pool_bcast_def)

lemma Allocate_ok: "pool_ok p \<Longrightarrow> pool_ok (snd (Allocate p))"
  using scan_from_gateway [of p]
    alloc_scan_spec [of "nextIP (pool_gateway p)" "pool_bcast p" "pool_inuse p"]
  by (auto simp: Allocate_def pool_ok_def split: option.splits)

lemma Release_ip_ok: "pool_ok p \<Longrightarrow> pool_ok (Release_ip x p)"
  by (auto simp: Release_ip_def pool_ok_def distinct_removeAll split: option.split)

datatype pool_op = PAlloc | PRelease "ip option"

fun pool_exec :: "pool_op \<Rightarrow> IPPool \<Rightarrow> IPPool" where
  "pool_exec PAlloc p = snd (Allocate p)"
| "pool_exec (PRelease x) p = Release_ip x p"

interpretation pool_sys: fallible_system pool_exec "\<lambda>_. True" pool_ok
    "\<lambda>op p. op = PAlloc \<and> fst (Allocate p) = Inl NetExhausted" pool_inuse
proof
  show "pool_ok p \<Longrightarrow> pool_ok (pool_exec op p)" for p op
    by (cases op) (auto simp: Allocate_ok Release_ip_ok)
  show "op = PAlloc \<and> fst (Allocate p) = Inl NetExhausted \<Longrightarrow> pool_inuse (pool_exec op p) = pool_inuse p" for op p
    by (auto simp: Allocate_def split: option.splits)
qed

section \<open>Properties\<close>

text \<open>
  C16: Address allocation. Whatever allocations and releases came before, on a pool for a prefix
  of at most 30 bits \<open>Allocate\<close> returns the lowest address strictly between the gateway and the
  broadcast address that is not in use, and fails only when all of them are; so no address is
  handed out twice while it is held, and the network, gateway and broadcast addresses never are.
\<close>

theorem Allocate_correct:
  assumes "NewIPPool (Some (ip_Mask a (CIDRMask ones), ones)) = Inr p0"
    and "p = fold pool_exec ops p0"
  shows "(\<forall>x. fst (Allocate p) = Inr x \<longrightarrow>
      x \<notin> set (pool_inuse p) \<and> set (pool_inuse (snd (Allocate p))) = insert x (set (pool_inuse p)) \<and>
      ip_val (pool_gateway p) < ip_val x \<and> ip_val x < ip_val (pool_bcast p) \<and>
      (\<forall>y. ip_val (pool_gateway p) < ip_val y \<and> ip_val y < ip_val x \<longrightarrow> y \<in> set (pool_inuse p))) \<and>
    (\<forall>e. fst (Allocate p) = Inl e \<longrightarrow>
      snd (Allocate p) = p \<and>
      (\<forall>y. ip_val (pool_gateway p) < ip_val y \<and> ip_val y < ip_val (pool_bcast p) \<longrightarrow> y \<in> set (pool_inuse p)))"
proof -
  have ok: "pool_ok p"
    unfolding assms(2) by (rule pool_sys.inv_run [OF NewIPPool_ok [OF assms(1)]]) (simp add: list_all_iff)
  show ?thesis
    using scan_from_gateway [OF ok]
      alloc_scan_spec [of "nextIP (pool_gateway p)" "pool_bcast p" "pool_inuse p"]
    by (auto simp: Allocate_def split: option.splits)
qed

theorem Allocate_correct_witness:
  "ip_val (0, 0, 0, 5) < ip_val (0, 0, 0, 6) \<and>
   (\<exists>p0. NewIPPool (Some ((0, 0, 0, 4), 30)) = Inr p0 \<and>
     (\<forall>x. fst (Allocate p0) = Inr x \<longrightarrow> x \<notin> set (pool_inuse p0)))"
proof -
  have m: "ip_Mask (0, 0, 0, 4) (CIDRMask 30) = (0, 0, 0, 4)"
    by (simp add: CIDRMask_def mask_byte_def mask_eq_exp_minus_1)
  obtain p0 where "NewIPPool (Some (ip_Mask (0, 0, 0, 4) (CIDRMask 30), 30)) = Inr p0"
    by (simp add: NewIPPool_def Let_def)
  with Allocate_correct [OF this, of p0 "[]"] m show ?thesis by auto
qed

text \<open>
  C17: The carry loop of \<open>nextIP\<close> is addition of one to the big-endian value, modulo \<open>2 ^ 32\<close>, and
  \<open>broadcast\<close> of a masked network address is the last address of its block.
\<close>

theorem nextIP_broadcast_values:
  assumes "ones \<le> 32"
  shows "ip_val (nextIP x) = (ip_val x + 1) mod 2 ^ 32 \<and>
    ip_val (broadcast (ip_Mask x (CIDRMask ones)) (CIDRMask ones)) =
      ip_val (ip_Mask x (CIDRMask ones)) + (2 ^ (32 - ones) - 1)"
proof -
  have "ip_Mask (ip_Mask x (CIDRMask ones)) (CIDRMask ones) = ip_Mask x (CIDRMask ones)"
    by (cases x; cases "CIDRMask ones") (simp add: and.assoc)
  then show ?thesis
    using ip_val_broadcast ip_val_not_mask [OF assms] ip_val_nextIP by simp
qed

theorem nextIP_broadcast_values_witness:
  "ip_val (nextIP (10, 0, 0, 255)) = (ip_val (10, 0, 0, 255) + 1) mod 2 ^ 32 \<and>
    ip_val (broadcast (ip_Mask (10, 0, 0, 255) (CIDRMask 24)) (CIDRMask 24)) =
      ip_val (ip_Mask (10, 0, 0, 255) (CIDRMask 24)) + (2 ^ (32 - 24) - 1)"
  by (rule nextIP_broadcast_values) simp

end
