(* ===== verification/Sup_Lifecycle.thy ===== *)
theory Sup_Lifecycle
  imports Sup_RunAs Net_Pool
begin

text \<open>
  \<open>internal/supervisor/supervisor.go\<close>, one supervised app: the process start, the restart log, the
  watch loop and the health probe, with \<open>sandbox.WrapSetpriv\<close> (\<open>internal/sandbox/sandbox_linux.go\<close>).

  Apps live on a heap and the registry maps ids to addresses, because the code compares \<open>*App\<close>
  pointers: an app that Deploy displaced is a different address under the same id. The watch goroutine
  of an app is a program counter in the app: \<open>WWait\<close> in \<open>cmd.Wait\<close>, \<open>WSleep\<close> in the backoff sleep,
  \<open>WNone\<close> when no goroutine will close the current \<open>done\<close> channel. The steps of the goroutine are
  functions on the supervisor state, one per critical section, so other goroutines interleave
  between them.
\<close>

section \<open>Apps and the supervisor\<close>

text \<open>The resources of an app appear by the names the code gives them: the log directory of the
  rotator (with whether it is open), the cgroup, and the network namespace.\<close>

datatype Status =
    StatusUnknown | StatusStarting | StatusRunning | StatusCrashed | StatusCrashLooping
  | StatusStopped | StatusUnhealthy

fun Status_String :: "Status \<Rightarrow> string" where
  "Status_String StatusStarting = ''starting''"
| "Status_String StatusRunning = ''running''"
| "Status_String StatusCrashed = ''crashed''"
| "Status_String StatusCrashLooping = ''crash-looping''"
| "Status_String StatusStopped = ''stopped''"
| "Status_String StatusUnhealthy = ''unhealthy''"
| "Status_String StatusUnknown = ''unknown''"

datatype watch_pc = WWait | WSleep | WNone

record App =
  a_ID :: string
  a_Runtime :: runtime
  a_Command :: string
  a_Args :: "string list"
  a_Port :: int
  a_HealthCheckPath :: string
  a_env :: "string list"
  a_runAs :: "RunAs option"
  a_runAsRoot :: bool
  a_cmd :: "int option"
  a_status :: Status
  a_startedAt :: int
  a_restarts :: "int list"
  a_done :: bool
  a_healthFailures :: int
  a_rotator :: "(string \<times> bool) option"
  a_cg :: "string option"
  a_cgLimits :: "limits option"
  a_sandbox :: "sandbox_spec option"
  a_NetIP :: "ip option"
  a_netNS :: "string option"
  a_volumeRefs :: "string list"
  a_watch :: watch_pc

type_synonym addr = nat

record Supervisor =
  sp_opts :: sup_opts
  sp_host :: host_env
  sp_apps :: "addr gomap"
  sp_heap :: "App list"
  sp_uid :: uid_state
  sp_pool :: "IPPool option"
  sp_live :: "int list"

definition upd_app :: "addr \<Rightarrow> (App \<Rightarrow> App) \<Rightarrow> Supervisor \<Rightarrow> Supervisor" where
  "upd_app a f s = s\<lparr>sp_heap := (sp_heap s)[a := f (sp_heap s ! a)]\<rparr>"

abbreviation app_at :: "Supervisor \<Rightarrow> addr \<Rightarrow> App" where
  "app_at s a \<equiv> sp_heap s ! a"

definition isTracked :: "Supervisor \<Rightarrow> addr \<Rightarrow> bool" where
  "isTracked s a \<longleftrightarrow> gm_get (sp_apps s) (a_ID (app_at s a)) = Some a"

section \<open>The command line\<close>

record SetprivOptions =
  so_NoNewPrivs :: bool
  so_UID :: int
  so_GID :: int

text \<open>A command is its resolved path and its argument vector; \<open>exec_Command\<close> resolves the name.\<close>

type_synonym cmdline = "string \<times> string list"

definition exec_Command :: "(string \<Rightarrow> string) \<Rightarrow> string \<Rightarrow> string list \<Rightarrow> cmdline" where
  "exec_Command lookPath name args = (lookPath name, name # args)"

definition WrapSetpriv :: "(string \<Rightarrow> string) \<Rightarrow> cmdline \<Rightarrow> SetprivOptions \<Rightarrow> cmdline" where
  "WrapSetpriv lookPath cmd opts =
     (let (origPath, origArgs) = cmd;
          flags = (if so_UID opts > 0
                   then [''--reuid='' @ FormatInt (so_UID opts), ''--regid='' @ FormatInt (so_GID opts),
                         ''--clear-groups'', ''--inh-caps=-all'', ''--ambient-caps=-all''] else []) @
                  (if so_NoNewPrivs opts then [''--no-new-privs''] else [])
      in exec_Command lookPath ''setpriv'' (flags @ [''--'', origPath] @ tl origArgs))"

definition build_cmd :: "(string \<Rightarrow> string) \<Rightarrow> App \<Rightarrow> cmdline" where
  "build_cmd lookPath app =
     (let cmd0 = exec_Command lookPath (a_Command app) (a_Args app);
          nnp = (case a_sandbox app of None \<Rightarrow> False | Some sp \<Rightarrow> NoNewPrivs sp);
          cmd1 = (if nnp \<or> a_runAs app \<noteq> None
                  then WrapSetpriv lookPath cmd0
                    (case a_runAs app of
                       None \<Rightarrow> \<lparr>so_NoNewPrivs = nnp, so_UID = 0, so_GID = 0\<rparr>
                     | Some ra \<Rightarrow> \<lparr>so_NoNewPrivs = nnp, so_UID = ra_UID ra, so_GID = ra_GID ra\<rparr>)
                  else cmd0)
      in case a_netNS app of
           Some ns \<Rightarrow> exec_Command lookPath ''ip'' ([''netns'', ''exec'', ns, fst cmd1] @ tl (snd cmd1))
         | None \<Rightarrow> cmd1)"

section \<open>Starting a process\<close>

text \<open>\<open>st_sandbox\<close>: \<open>sandbox.Apply\<close> succeeds; \<open>st_pid\<close>: the spawn gate returned a process.\<close>

record start_io =
  st_sandbox :: bool
  st_pid :: "int option"
  st_now :: int

datatype start_error = StartSandbox | StartProcess

definition startLocked :: "start_io \<Rightarrow> addr \<Rightarrow> Supervisor \<Rightarrow> start_error option \<times> Supervisor" where
  "startLocked io a s =
     (let s1 = upd_app a (\<lambda>x. x\<lparr>a_status := StatusStarting\<rparr>) s;
          fail = upd_app a (\<lambda>x. x\<lparr>a_status := StatusCrashed\<rparr>) s1
      in
      if a_sandbox (app_at s1 a) \<noteq> None \<and> \<not> st_sandbox io then (Some StartSandbox, fail)
      else case st_pid io of
        None \<Rightarrow> (Some StartProcess, fail)
      | Some pid \<Rightarrow>
          (None, (upd_app a (\<lambda>x. x\<lparr>a_cmd := Some pid, a_status := StatusRunning, a_startedAt := st_now io\<rparr>) s1)
             \<lparr>sp_live := pid # sp_live s1\<rparr>))"

section \<open>The restart log\<close>

definition recordRestart :: "int \<Rightarrow> int \<Rightarrow> App \<Rightarrow> nat \<times> App" where
  "recordRestart now window app =
     (let log = a_restarts app @ [now];
          cutoff = now - window;
          log' = dropWhile (\<lambda>t. t < cutoff) log
      in (length log', app\<lparr>a_restarts := log'\<rparr>))"

definition clearRestarts :: "App \<Rightarrow> App" where
  "clearRestarts app = app\<lparr>a_restarts := []\<rparr>"

definition resetDone :: "App \<Rightarrow> App" where
  "resetDone app = app\<lparr>a_done := False\<rparr>"

section \<open>The watch loop\<close>

text \<open>The deferred tail of \<open>watch\<close>: close \<open>done\<close>, and the rotator unless the app is still tracked.\<close>

definition watch_return :: "addr \<Rightarrow> Supervisor \<Rightarrow> Supervisor" where
  "watch_return a s =
     upd_app a (\<lambda>x. x\<lparr>a_done := True, a_watch := WNone,
       a_rotator := (if \<not> isTracked s a then map_option (\<lambda>(dir, _). (dir, False)) (a_rotator x) else a_rotator x)\<rparr>) s"

text \<open>\<open>cmd.Wait\<close> has returned: the process is gone.\<close>

definition watch_exit :: "int \<Rightarrow> addr \<Rightarrow> Supervisor \<Rightarrow> Supervisor" where
  "watch_exit now a s =
     (case a_cmd (app_at s a) of
        None \<Rightarrow> watch_return a s
      | Some pid \<Rightarrow>
          if \<not> isTracked s a
          then watch_return a (upd_app a (\<lambda>x. x\<lparr>a_status := StatusStopped\<rparr>) s)
          else
            let (count, app') = recordRestart now (RestartWindow (sp_opts s))
                  ((app_at s a)\<lparr>a_status := StatusCrashed\<rparr>);
                s1 = upd_app a (\<lambda>_. app') s
            in if int count > CrashLoopThreshold (sp_opts s)
               then watch_return a (upd_app a (\<lambda>x. x\<lparr>a_status := StatusCrashLooping\<rparr>) s1)
               else upd_app a (\<lambda>x. x\<lparr>a_watch := WSleep\<rparr>) s1)"

definition watch_backoff :: "addr \<Rightarrow> Supervisor \<Rightarrow> int" where
  "watch_backoff a s = computeBackoff (sp_opts s) (int (length (a_restarts (app_at s a))) - 1)"

text \<open>The backoff sleep is over.\<close>

definition watch_wake :: "start_io \<Rightarrow> addr \<Rightarrow> Supervisor \<Rightarrow> Supervisor" where
  "watch_wake io a s =
     (if \<not> isTracked s a
      then watch_return a (upd_app a (\<lambda>x. x\<lparr>a_status := StatusStopped\<rparr>) s)
      else
        let (err, s1) = startLocked io a s in
        case err of
          None \<Rightarrow> upd_app a (\<lambda>x. x\<lparr>a_watch := WWait\<rparr>) s1
        | Some _ \<Rightarrow>
            let s2 = (if isTracked s1 a then s1\<lparr>sp_apps := gm_del (a_ID (app_at s1 a)) (sp_apps s1)\<rparr> else s1)
            in watch_return a (upd_app a (\<lambda>x. x\<lparr>a_status := StatusStopped\<rparr>) s2))"

section \<open>The health probe\<close>

record probe_state =
  pr_failures :: int
  pr_ready :: bool

datatype probe_event = EvReady | EvHealthFailure int | EvStatus Status

text \<open>One tick of the ticker: the status is read, the HTTP check runs (\<open>env\<close> is what the other goroutines
  do meanwhile), and its answer \<open>healthy\<close> is acted on; \<open>delivered\<close> says whether a SIGKILL would reach the
  process. What follows the check is one step, although the code sets counter and status one after
  the other without the registry lock. The result says which events were emitted.\<close>

definition probe_tick ::
  "bool \<Rightarrow> bool \<Rightarrow> addr \<Rightarrow> (Supervisor \<Rightarrow> Supervisor) \<Rightarrow> probe_state \<Rightarrow> Supervisor \<Rightarrow>
   probe_state \<times> probe_event list \<times> Supervisor"
where
  "probe_tick healthy delivered a env p s =
     (if a_status (app_at s a) \<noteq> StatusRunning \<and> a_status (app_at s a) \<noteq> StatusUnhealthy
      then (p\<lparr>pr_failures := 0\<rparr>, [], s)
      else
        let s0 = env s in
        if healthy then
          let ev = (if pr_ready p then [] else [EvReady]);
              recover = pr_failures p > 0 \<and> a_status (app_at s0 a) = StatusUnhealthy
          in (\<lparr>pr_failures = 0, pr_ready = True\<rparr>,
              ev @ (if recover then [EvStatus StatusRunning] else []),
              if recover then upd_app a (\<lambda>x. x\<lparr>a_status := StatusRunning\<rparr>) s0 else s0)
        else
          let failures = wrap64 (pr_failures p + 1);
              s1 = upd_app a (\<lambda>x. x\<lparr>a_healthFailures := wrap64 (a_healthFailures x + 1)\<rparr>) s0;
              ev = [EvHealthFailure (a_healthFailures (app_at s1 a))]
          in if failures < HealthCheckFailureThreshold (sp_opts s)
             then (p\<lparr>pr_failures := failures\<rparr>, ev @ [EvStatus StatusUnhealthy],
                   upd_app a (\<lambda>x. x\<lparr>a_status := StatusUnhealthy\<rparr>) s1)
             else (p\<lparr>pr_failures := 0\<rparr>, ev,
                   case a_cmd (app_at s1 a) of
                     None \<Rightarrow> s1
                   | Some pid \<Rightarrow> if delivered then s1\<lparr>sp_live := removeAll pid (sp_live s1)\<rparr> else s1))"

section \<open>Lemmas\<close>

lemma upd_app_simps [simp]:
  "sp_opts (upd_app a f s) = sp_opts s" "sp_host (upd_app a f s) = sp_host s"
  "sp_apps (upd_app a f s) = sp_apps s" "sp_uid (upd_app a f s) = sp_uid s"
  "sp_pool (upd_app a f s) = sp_pool s" "sp_live (upd_app a f s) = sp_live s"
  "length (sp_heap (upd_app a f s)) = length (sp_heap s)"
  by (simp_all add: upd_app_def)

lemma app_at_upd: "b < length (sp_heap s) \<Longrightarrow> app_at (upd_app a f s) b = (if a = b then f (app_at s b) else app_at s b)"
  by (auto simp: upd_app_def)

lemma app_at_upd_same [simp]: "a < length (sp_heap s) \<Longrightarrow> app_at (upd_app a f s) a = f (app_at s a)"
  by (simp add: app_at_upd)

lemma isTracked_upd:
  "a < length (sp_heap s) \<Longrightarrow> (\<And>x. a_ID (f x) = a_ID x) \<Longrightarrow> isTracked (upd_app b f s) a = isTracked s a"
  by (simp add: isTracked_def app_at_upd)

lemma sorted_dropWhile_filter: "sorted xs \<Longrightarrow> dropWhile (\<lambda>t. t < c) xs = filter (\<lambda>t. c \<le> t) xs" for c :: int
proof (induction xs)
  case (Cons x xs)
  show ?case
  proof (cases "x < c")
    case True
    with Cons show ?thesis by simp
  next
    case False
    with Cons.prems have "\<forall>t \<in> set xs. c \<le> t" by fastforce
    then have "filter (\<lambda>t. c \<le> t) xs = xs" by simp
    with False show ?thesis by simp
  qed
qed simp

lemma recordRestart_window:
  assumes "sorted (a_restarts app)" and "\<forall>t \<in> set (a_restarts app). t \<le> now"
  shows "recordRestart now window app =
    (length (filter (\<lambda>t. now - window \<le> t) (a_restarts app @ [now])),
     app\<lparr>a_restarts := filter (\<lambda>t. now - window \<le> t) (a_restarts app @ [now])\<rparr>)"
proof -
  have "sorted (a_restarts app @ [now])" using assms by (simp add: sorted_append)
  from sorted_dropWhile_filter [OF this] show ?thesis by (simp add: recordRestart_def Let_def)
qed

lemma computeBackoff_closed:
  assumes "0 < InitialBackoff o'" and "InitialBackoff o' \<le> MaxBackoff o'" and "MaxBackoff o' < 2 ^ 62" and "0 \<le> n"
  shows "computeBackoff o' n = min (MaxBackoff o') (InitialBackoff o' * 2 ^ nat n)"
proof (cases "n = 0")
  case True
  then show ?thesis using assms by (simp add: computeBackoff_def)
next
  case False
  then show ?thesis
    using assms backoff_loop_closed [of "InitialBackoff o'" "MaxBackoff o'" "nat n"]
    by (simp add: computeBackoff_def)
qed

section \<open>Properties\<close>

text \<open>
  C14: Crash-loop policy. When the process of a tracked app exits, the exits inside the sliding window
  (this one included) decide: with more than \<open>CrashLoopThreshold\<close> of them the app is suspended (status
  crash-looping, the watch goroutine ends, the app stays registered); otherwise it goes to sleep for
  exactly \<open>min MaxBackoff (InitialBackoff * 2 ^ (exits - 1))\<close> and restarts.
\<close>

theorem crash_loop_policy:
  assumes "a < length (sp_heap s)" and "isTracked s a" and "a_cmd (app_at s a) = Some pid"
    and "sorted (a_restarts (app_at s a))" and "\<forall>t \<in> set (a_restarts (app_at s a)). t \<le> now"
    and "0 < InitialBackoff (sp_opts s)" and "InitialBackoff (sp_opts s) \<le> MaxBackoff (sp_opts s)"
    and "MaxBackoff (sp_opts s) < 2 ^ 62" and "0 \<le> RestartWindow (sp_opts s)"
    and "exits = length (filter (\<lambda>t. now - RestartWindow (sp_opts s) \<le> t) (a_restarts (app_at s a))) + 1"
  shows "isTracked (watch_exit now a s) a \<and>
    (if int exits > CrashLoopThreshold (sp_opts s)
     then a_status (app_at (watch_exit now a s) a) = StatusCrashLooping \<and>
       a_done (app_at (watch_exit now a s) a) \<and> a_watch (app_at (watch_exit now a s) a) = WNone
     else a_status (app_at (watch_exit now a s) a) = StatusCrashed \<and>
       a_watch (app_at (watch_exit now a s) a) = WSleep \<and>
       watch_backoff a (watch_exit now a s) =
         min (MaxBackoff (sp_opts s)) (InitialBackoff (sp_opts s) * 2 ^ (exits - 1)))"
proof -
  define app where "app = (app_at s a)\<lparr>a_status := StatusCrashed\<rparr>"
  define log' where "log' = filter (\<lambda>t. now - RestartWindow (sp_opts s) \<le> t) (a_restarts (app_at s a) @ [now])"
  have len: "length log' = exits" using assms(9,10) by (simp add: log'_def)
  have rr: "recordRestart now (RestartWindow (sp_opts s)) app = (exits, app\<lparr>a_restarts := log'\<rparr>)"
    using recordRestart_window [of app now] assms(4,5) len by (simp add: app_def log'_def)
  have tr: "isTracked (upd_app a (\<lambda>_. app\<lparr>a_restarts := log'\<rparr>) s) a"
    using assms(1,2) by (simp add: isTracked_def app_def)
  have ex: "watch_exit now a s =
      (if int exits > CrashLoopThreshold (sp_opts s)
       then watch_return a (upd_app a (\<lambda>x. x\<lparr>a_status := StatusCrashLooping\<rparr>) (upd_app a (\<lambda>_. app\<lparr>a_restarts := log'\<rparr>) s))
       else upd_app a (\<lambda>x. x\<lparr>a_watch := WSleep\<rparr>) (upd_app a (\<lambda>_. app\<lparr>a_restarts := log'\<rparr>) s))"
    using assms(2,3) rr by (simp add: watch_exit_def app_def [symmetric])
  have bo: "computeBackoff (sp_opts s) (int exits - 1) =
      min (MaxBackoff (sp_opts s)) (InitialBackoff (sp_opts s) * 2 ^ (exits - 1))"
    using computeBackoff_closed [OF assms(6,7,8), of "int exits - 1"] assms(10) by (simp add: nat_diff_distrib)
  show ?thesis
    using assms(1) tr bo len
    by (simp add: ex watch_return_def watch_backoff_def isTracked_def app_def)
qed

definition demo_app :: App where
  "demo_app = \<lparr>a_ID = ''web'', a_Runtime = [], a_Command = ''/bin/web'', a_Args = [], a_Port = 3000,
     a_HealthCheckPath = [], a_env = [], a_runAs = None, a_runAsRoot = False, a_cmd = Some 77,
     a_status = StatusRunning, a_startedAt = 0, a_restarts = [], a_done = False, a_healthFailures = 0,
     a_rotator = None, a_cg = None, a_cgLimits = None, a_sandbox = None, a_NetIP = None, a_netNS = None,
     a_volumeRefs = [], a_watch = WWait\<rparr>"

definition demo_sup :: Supervisor where
  "demo_sup = \<lparr>sp_opts = demo_opts, sp_host = demo_host, sp_apps = [(''web'', 0)], sp_heap = [demo_app],
     sp_uid = \<lparr>uidHWM = 0, uidFile = None\<rparr>, sp_pool = None, sp_live = [77]\<rparr>"

theorem crash_loop_policy_witness:
  "a_status (app_at (watch_exit 1000 0 demo_sup) 0) = StatusCrashed \<and>
   watch_backoff 0 (watch_exit 1000 0 demo_sup) = second"
  using crash_loop_policy [of 0 demo_sup 77 1000 1]
  by (simp add: demo_sup_def demo_app_def demo_opts_def New_opts_def isTracked_def)

text \<open>Failing ticks of the probe, one after the other.\<close>

fun probe_fail_run :: "nat \<Rightarrow> addr \<Rightarrow> probe_state \<Rightarrow> Supervisor \<Rightarrow> probe_state \<times> Supervisor" where
  "probe_fail_run 0 a p s = (p, s)"
| "probe_fail_run (Suc k) a p s =
     (let (p', s') = probe_fail_run k a p s; (p'', _, s'') = probe_tick False True a (\<lambda>x. x) p' s' in (p'', s''))"

lemma probe_fail_run_below:
  assumes "a < length (sp_heap s)" and "a_status (app_at s a) = StatusRunning"
    and "a_cmd (app_at s a) = Some pid" and "pr_failures p = 0"
    and "int k < HealthCheckFailureThreshold (sp_opts s)" and "HealthCheckFailureThreshold (sp_opts s) < 2 ^ 62"
  shows "pr_failures (fst (probe_fail_run k a p s)) = int k \<and>
    sp_live (snd (probe_fail_run k a p s)) = sp_live s \<and> sp_opts (snd (probe_fail_run k a p s)) = sp_opts s \<and>
    length (sp_heap (snd (probe_fail_run k a p s))) = length (sp_heap s) \<and>
    a_cmd (app_at (snd (probe_fail_run k a p s)) a) = Some pid \<and>
    a_status (app_at (snd (probe_fail_run k a p s)) a) = (if k = 0 then StatusRunning else StatusUnhealthy)"
  using assms(5)
proof (induction k)
  case 0
  then show ?case using assms by simp
next
  case (Suc k)
  obtain p' s' where ps: "probe_fail_run k a p s = (p', s')" by force
  have IH: "pr_failures p' = int k" "sp_live s' = sp_live s" "sp_opts s' = sp_opts s"
    "length (sp_heap s') = length (sp_heap s)" "a_cmd (app_at s' a) = Some pid"
    "a_status (app_at s' a) = (if k = 0 then StatusRunning else StatusUnhealthy)"
    using Suc ps by auto
  have w: "wrap64 (int k + 1) = int k + 1" using Suc.prems assms(6) by (intro wrap64_Suc) auto
  show ?case
    using IH w Suc.prems assms(1)
    by (simp add: ps probe_tick_def Let_def)
qed

text \<open>
  Health-check escalation. A running app is killed for restart at exactly the
  \<open>HealthCheckFailureThreshold\<close>-th consecutive failed probe: no earlier probe touches the process
  (the app is only marked unhealthy), that one removes it and resets the counter.
\<close>

theorem probe_kills_at_threshold:
  assumes "a < length (sp_heap s)" and "a_status (app_at s a) = StatusRunning"
    and "a_cmd (app_at s a) = Some pid" and "pr_failures p = 0"
    and "HealthCheckFailureThreshold (sp_opts s) = int n + 1" and "int n + 1 < 2 ^ 62"
  shows "(\<forall>k \<le> n. sp_live (snd (probe_fail_run k a p s)) = sp_live s) \<and>
    sp_live (snd (probe_fail_run (Suc n) a p s)) = removeAll pid (sp_live s) \<and>
    pr_failures (fst (probe_fail_run (Suc n) a p s)) = 0"
proof -
  have below: "sp_live (snd (probe_fail_run k a p s)) = sp_live s" if "k \<le> n" for k
    using probe_fail_run_below [OF assms(1-4), of k] that assms(5,6) by simp
  obtain p' s' where ps: "probe_fail_run n a p s = (p', s')" by force
  have n: "pr_failures p' = int n" "sp_live s' = sp_live s" "sp_opts s' = sp_opts s"
    "length (sp_heap s') = length (sp_heap s)" "a_cmd (app_at s' a) = Some pid"
    "a_status (app_at s' a) = (if n = 0 then StatusRunning else StatusUnhealthy)"
    using probe_fail_run_below [OF assms(1-4), of n] ps assms(5,6) by auto
  have w: "wrap64 (int n + 1) = int n + 1" using assms(6) by (intro wrap64_Suc) auto
  have "sp_live (snd (probe_fail_run (Suc n) a p s)) = removeAll pid (sp_live s) \<and>
    pr_failures (fst (probe_fail_run (Suc n) a p s)) = 0"
    using n w assms(1,5) by (simp add: ps probe_tick_def Let_def)
  with below show ?thesis by blast
qed

theorem probe_kills_at_threshold_witness:
  "sp_live (snd (probe_fail_run 2 0 \<lparr>pr_failures = 0, pr_ready = True\<rparr> demo_sup)) = [77] \<and>
   sp_live (snd (probe_fail_run (Suc 2) 0 \<lparr>pr_failures = 0, pr_ready = True\<rparr> demo_sup)) = []"
proof -
  let ?p = "\<lparr>pr_failures = 0, pr_ready = True\<rparr>"
  have live: "sp_live demo_sup = [77]" by (simp add: demo_sup_def)
  have "(\<forall>k \<le> 2. sp_live (snd (probe_fail_run k 0 ?p demo_sup)) = sp_live demo_sup) \<and>
      sp_live (snd (probe_fail_run (Suc 2) 0 ?p demo_sup)) = removeAll 77 (sp_live demo_sup) \<and>
      pr_failures (fst (probe_fail_run (Suc 2) 0 ?p demo_sup)) = 0"
    by (rule probe_kills_at_threshold) (simp_all add: demo_sup_def demo_app_def demo_opts_def New_opts_def)
  then show ?thesis unfolding live by (auto simp del: probe_fail_run.simps)
qed

text \<open>
  When the SIGKILL at the threshold is not delivered, the app keeps running with its counter at zero
  and its status unhealthy, and a later successful probe does not bring the status back to running.
\<close>

lemma undelivered_kill_leaves_unhealthy:
  assumes "a < length (sp_heap s)" and "a_status (app_at s a) = StatusUnhealthy"
    and "wrap64 (pr_failures p + 1) \<ge> HealthCheckFailureThreshold (sp_opts s)"
    and "probe_tick False False a (\<lambda>x. x) p s = (p1, ev1, s1)" and "probe_tick True delivered a (\<lambda>x. x) p1 s1 = (p2, ev2, s2)"
  shows "sp_live s2 = sp_live s \<and> a_status (app_at s2 a) = StatusUnhealthy"
  using assms by (auto simp: probe_tick_def Let_def split: option.splits)

lemma undelivered_kill_leaves_unhealthy_witness:
  "a_status (app_at (snd (snd (probe_tick True True 0 (\<lambda>x. x) \<lparr>pr_failures = 0, pr_ready = True\<rparr>
     (snd (snd (probe_tick False False 0 (\<lambda>x. x) \<lparr>pr_failures = 2, pr_ready = True\<rparr>
        (demo_sup\<lparr>sp_heap := [demo_app\<lparr>a_status := StatusUnhealthy\<rparr>]\<rparr>))))))) 0) = StatusUnhealthy"
proof -
  let ?s = "demo_sup\<lparr>sp_heap := [demo_app\<lparr>a_status := StatusUnhealthy\<rparr>]\<rparr>"
  let ?p = "\<lparr>pr_failures = 2, pr_ready = True\<rparr>"
  obtain ev1 s1 where t1: "probe_tick False False 0 (\<lambda>x. x) ?p ?s = (\<lparr>pr_failures = 0, pr_ready = True\<rparr>, ev1, s1)"
    by (simp add: probe_tick_def demo_sup_def demo_app_def demo_opts_def New_opts_def wrap64_def)
  obtain p2 ev2 s2 where t2: "probe_tick True True 0 (\<lambda>x. x) \<lparr>pr_failures = 0, pr_ready = True\<rparr> s1 = (p2, ev2, s2)"
    by (cases "probe_tick True True 0 (\<lambda>x. x) \<lparr>pr_failures = 0, pr_ready = True\<rparr> s1") auto
  have "a_status (app_at s2 0) = StatusUnhealthy"
    using undelivered_kill_leaves_unhealthy [OF _ _ _ t1 t2]
    by (simp add: demo_sup_def demo_app_def demo_opts_def New_opts_def wrap64_def)
  then show ?thesis using t1 t2 by simp
qed

text \<open>
  An app with a positive UID is started through \<open>setpriv\<close>, which sets its UID and GID, drops
  the supplementary groups and empties the inheritable and ambient capability sets, adds
  no-new-privs exactly when the sandbox asks for it, and ends in the app's own resolved binary and
  arguments; a network namespace wraps the whole chain from outside.
\<close>

theorem build_cmd_drops_privileges:
  assumes "a_runAs app = Some ra" and "0 < ra_UID ra"
  shows "\<exists>wrapped. wrapped = [''setpriv'', ''--reuid='' @ FormatInt (ra_UID ra), ''--regid='' @ FormatInt (ra_GID ra),
      ''--clear-groups'', ''--inh-caps=-all'', ''--ambient-caps=-all''] @
      (if (case a_sandbox app of None \<Rightarrow> False | Some sp \<Rightarrow> NoNewPrivs sp) then [''--no-new-privs''] else []) @
      [''--'', lookPath (a_Command app)] @ a_Args app \<and>
    snd (build_cmd lookPath app) =
      (case a_netNS app of
         None \<Rightarrow> wrapped
       | Some ns \<Rightarrow> [''ip'', ''netns'', ''exec'', ns, lookPath ''setpriv''] @ tl wrapped)"
  using assms by (simp add: build_cmd_def WrapSetpriv_def exec_Command_def Let_def split: option.split)

theorem build_cmd_drops_privileges_witness:
  "\<exists>wrapped. wrapped = [''setpriv'', ''--reuid='' @ FormatInt 1000000, ''--regid='' @ FormatInt 1000000,
      ''--clear-groups'', ''--inh-caps=-all'', ''--ambient-caps=-all''] @ [] @
      [''--'', ''/bin/web''] @ [] \<and>
    snd (build_cmd (\<lambda>x. x) (demo_app\<lparr>a_runAs := Some \<lparr>ra_UID = 1000000, ra_GID = 1000000\<rparr>\<rparr>)) = wrapped"
  using build_cmd_drops_privileges [of "demo_app\<lparr>a_runAs := Some \<lparr>ra_UID = 1000000, ra_GID = 1000000\<rparr>\<rparr>"
      "\<lparr>ra_UID = 1000000, ra_GID = 1000000\<rparr>" "\<lambda>x. x"]
  by (simp add: demo_app_def)

end
