(* ===== verification/Dispatch_Router.thy ===== *)
theory Dispatch_Router
  imports Go_Strings
begin

text \<open>
  \<open>internal/dispatch/router.go\<close>: the table from app id to backend and the request dispatch. \<open>url_ok\<close>
  stands for \<open>url.Parse\<close> accepting the backend URL. What a reverse proxy does with a response writer is
  a list of \<open>writer_call\<close>s, a parameter; the counting writer is modelled call by call.
\<close>

section \<open>The routing table\<close>

abbreviation DefaultHost :: string where "DefaultHost \<equiv> ''127.0.0.1''"

record Backend =
  be_AppID :: string
  be_Host :: string
  be_Port :: int

datatype dispatch_error = DispEmptyAppID | DispInvalidPort int | DispParseURL

definition newBackend :: "(string \<Rightarrow> bool) \<Rightarrow> string \<Rightarrow> string \<Rightarrow> int \<Rightarrow> dispatch_error + Backend" where
  "newBackend url_ok appID host port =
     (if appID = [] then Inl DispEmptyAppID
      else if port \<le> 0 \<or> port > 65535 then Inl (DispInvalidPort port)
      else
        let host' = (if host = [] then DefaultHost else host) in
        if \<not> url_ok (''http://'' @ host' @ '':'' @ FormatInt port) then Inl DispParseURL
        else Inr \<lparr>be_AppID = appID, be_Host = host', be_Port = port\<rparr>)"

type_synonym Router = "Backend gomap"

definition NewRouter :: Router where
  "NewRouter = []"

definition SetAddr ::
  "(string \<Rightarrow> bool) \<Rightarrow> string \<Rightarrow> string \<Rightarrow> int \<Rightarrow> Router \<Rightarrow> dispatch_error option \<times> Router"
where
  "SetAddr url_ok appID host port r =
     (case newBackend url_ok appID host port of
        Inl e \<Rightarrow> (Some e, r)
      | Inr b \<Rightarrow> (None, gm_set appID b r))"

definition Set :: "(string \<Rightarrow> bool) \<Rightarrow> string \<Rightarrow> int \<Rightarrow> Router \<Rightarrow> dispatch_error option \<times> Router" where
  "Set url_ok appID port r = SetAddr url_ok appID [] port r"

definition Remove :: "string \<Rightarrow> Router \<Rightarrow> bool \<times> Router" where
  "Remove appID r = (gm_get r appID \<noteq> None, gm_del appID r)"

definition Get :: "Router \<Rightarrow> string \<Rightarrow> Backend option" where
  "Get r appID = gm_get r appID"

definition Snapshot :: "Router \<Rightarrow> int gomap" where
  "Snapshot r = fold (\<lambda>(i, b) out. gm_set i (be_Port b) out) r []"

definition IDs :: "Router \<Rightarrow> string list" where
  "IDs r = sort (gm_keys r)"

section \<open>Dispatch\<close>

record request =
  rq_header :: string
  rq_query :: string

definition AppIDFromRequest :: "request \<Rightarrow> string" where
  "AppIDFromRequest req = (if rq_header req \<noteq> [] then rq_header req else rq_query req)"

datatype writer_call = WCWrite int | WCHeader int

record counting =
  cw_bytes :: int
  cw_status :: int

definition newCountingResponseWriter :: counting where
  "newCountingResponseWriter = \<lparr>cw_bytes = 0, cw_status = 200\<rparr>"

fun cw_call :: "writer_call \<Rightarrow> counting \<Rightarrow> counting" where
  "cw_call (WCWrite n) c = c\<lparr>cw_bytes := wrap64 (cw_bytes c + n)\<rparr>"
| "cw_call (WCHeader st) c = c\<lparr>cw_status := st\<rparr>"

datatype response =
    HttpError int
  | Proxied Backend "writer_call list" "(string \<times> int \<times> int) option"

definition ServeHTTP ::
  "bool \<Rightarrow> (Backend \<Rightarrow> request \<Rightarrow> writer_call list) \<Rightarrow> Router \<Rightarrow> request \<Rightarrow> response"
where
  "ServeHTTP observed proxy r req =
     (let appID = AppIDFromRequest req in
      if appID = [] then HttpError 400
      else case Get r appID of
        None \<Rightarrow> HttpError 503
      | Some b \<Rightarrow>
          let calls = proxy b req in
          if \<not> observed then Proxied b calls None
          else let cw = fold cw_call calls newCountingResponseWriter
               in Proxied b calls (Some (appID, cw_bytes cw, cw_status cw)))"

section \<open>What the table holds after a history\<close>

datatype route_op = RSet string string int | RRemove string

fun route_exec :: "(string \<Rightarrow> bool) \<Rightarrow> route_op \<Rightarrow> Router \<Rightarrow> Router" where
  "route_exec url_ok (RSet i h p) r = snd (SetAddr url_ok i h p r)"
| "route_exec url_ok (RRemove i) r = snd (Remove i r)"

text \<open>The specification: the last effective operation on the id decides.\<close>

fun route_effect :: "(string \<Rightarrow> bool) \<Rightarrow> route_op \<Rightarrow> string \<Rightarrow> Backend option option" where
  "route_effect url_ok (RSet i h p) j =
     (if i = j then (case newBackend url_ok i h p of Inl _ \<Rightarrow> None | Inr b \<Rightarrow> Some (Some b)) else None)"
| "route_effect url_ok (RRemove i) j = (if i = j then Some None else None)"

definition last_effect :: "(string \<Rightarrow> bool) \<Rightarrow> route_op list \<Rightarrow> string \<Rightarrow> Backend option" where
  "last_effect url_ok ops j =
     (case find (\<lambda>op. route_effect url_ok op j \<noteq> None) (rev ops) of
        None \<Rightarrow> None
      | Some op \<Rightarrow> the (route_effect url_ok op j))"

definition router_ok :: "Router \<Rightarrow> bool" where
  "router_ok r \<longleftrightarrow> gm_ok r \<and> gm_all (\<lambda>i b. i \<noteq> [] \<and> be_AppID b = i \<and> 0 < be_Port b \<and> be_Port b \<le> 65535) r"

lemma newBackend_ok:
  "newBackend url_ok i h p = Inr b \<Longrightarrow> i \<noteq> [] \<and> be_AppID b = i \<and> 0 < be_Port b \<and> be_Port b \<le> 65535"
  by (auto simp: newBackend_def Let_def split: if_splits)

lemma route_exec_ok: "router_ok r \<Longrightarrow> router_ok (route_exec url_ok op r)"
  by (cases op) (auto simp: SetAddr_def Remove_def router_ok_def dest: newBackend_ok split: sum.split)

interpretation router_sys: fallible_system "route_exec url_ok" "\<lambda>_. True" router_ok
    "\<lambda>op r. case op of RSet i h p \<Rightarrow> fst (SetAddr url_ok i h p r) \<noteq> None | RRemove i \<Rightarrow> \<not> fst (Remove i r)"
    "\<lambda>r. gm_get r"
  for url_ok
proof
  show "router_ok r \<Longrightarrow> router_ok (route_exec url_ok op r)" for r op by (rule route_exec_ok)
  show "gm_get (route_exec url_ok op r) = gm_get r"
    if "case op of RSet i h p \<Rightarrow> fst (SetAddr url_ok i h p r) \<noteq> None | RRemove i \<Rightarrow> \<not> fst (Remove i r)" for op r
    using that by (cases op) (auto simp: SetAddr_def Remove_def fun_eq_iff split: sum.splits)
qed

lemma route_exec_get:
  "gm_get (route_exec url_ok op r) j =
     (case route_effect url_ok op j of None \<Rightarrow> gm_get r j | Some x \<Rightarrow> x)"
  by (cases op) (auto simp: SetAddr_def Remove_def split: sum.split)

lemma router_history: "gm_get (fold (route_exec url_ok) ops NewRouter) j = last_effect url_ok ops j"
proof (induction ops rule: rev_induct)
  case Nil
  show ?case by (simp add: NewRouter_def last_effect_def)
next
  case (snoc op ops)
  then show ?case
    by (cases "route_effect url_ok op j") (auto simp: route_exec_get last_effect_def)
qed

lemma cw_fold_bytes:
  "cw_bytes (fold cw_call calls c) =
     fold (\<lambda>k n. case k of WCWrite m \<Rightarrow> wrap64 (n + m) | WCHeader _ \<Rightarrow> n) calls (cw_bytes c)"
  by (induction calls arbitrary: c) (auto split: writer_call.split)

section \<open>Properties\<close>

text \<open>
  C25: Routing. After any history of route updates, a request is answered 400 without an app id, 503 when
  the last effective update of its id removed it (or there was none), and is otherwise proxied to
  exactly the backend of the last accepted \<open>SetAddr\<close>, whose port is a valid TCP port; the header
  wins over the query parameter.
\<close>

theorem ServeHTTP_routes_last_update:
  shows "ServeHTTP obs proxy (fold (route_exec url_ok) ops NewRouter) req =
    (let i = (if rq_header req \<noteq> [] then rq_header req else rq_query req) in
     if i = [] then HttpError 400
     else case last_effect url_ok ops i of
       None \<Rightarrow> HttpError 503
     | Some b \<Rightarrow> Proxied b (proxy b req)
         (if obs then Some (i, cw_bytes (fold cw_call (proxy b req) newCountingResponseWriter),
                            cw_status (fold cw_call (proxy b req) newCountingResponseWriter)) else None))"
  by (simp add: ServeHTTP_def AppIDFromRequest_def Get_def router_history Let_def split: option.split)

text \<open>
  C26: The routing table never holds a route under an empty id, under another app's id, or with a port
  outside 1..65535, after any history; \<open>IDs\<close> lists exactly its keys, sorted and without repetition.
\<close>

theorem router_invariant:
  "router_ok (fold (route_exec url_ok) ops NewRouter) \<and>
   sorted (IDs (fold (route_exec url_ok) ops NewRouter)) \<and>
   distinct (IDs (fold (route_exec url_ok) ops NewRouter)) \<and>
   set (IDs (fold (route_exec url_ok) ops NewRouter)) = {i. last_effect url_ok ops i \<noteq> None}"
proof -
  have ok: "router_ok (fold (route_exec url_ok) ops NewRouter)"
    by (rule router_sys.inv_run) (simp_all add: router_ok_def NewRouter_def list_all_iff)
  then show ?thesis
    using gm_get_None [of "fold (route_exec url_ok) ops NewRouter"]
    by (auto simp: IDs_def router_ok_def gm_ok_def router_history [symmetric])
qed

end
