(* ===== verification/Sup_Registry.thy ===== *)
theory Sup_Registry
  imports Sup_Lifecycle Dispatch_Router
begin

text \<open>
  \<open>internal/supervisor/supervisor.go\<close>, the registry: \<open>Spawn\<close>, \<open>Stop\<close>, \<open>Reset\<close>, \<open>Deploy\<close> and the per-app
  network. The outcomes of the system calls are arguments. Where the code does not hold the registry lock
  inside an operation (Stop while it waits for the process, Reset while it waits for the old watch
  goroutine, Deploy before the spawn, while it polls the health of v2, after the swap and while it stops a
  version), what the other goroutines do in that window is a function \<open>env\<close> on the state, also an argument.
\<close>

section \<open>Host resources prepared once\<close>

text \<open>
  The cgroup manager: without a parent slice there is none; in delegated mode it is what \<open>InitCgroups\<close>
  stored. \<open>new_ok\<close>, \<open>parent_ok\<close>: \<open>cgroup.NewDelegatedManager\<close> and \<open>EnsureParent\<close> succeed.
\<close>

definition cgroupManager :: "sup_opts \<Rightarrow> bool \<Rightarrow> bool" where
  "cgroupManager o' delegatedMgr \<longleftrightarrow>
     (if CgroupParent o' = [] then False else if CgroupDelegated o' then delegatedMgr else True)"

datatype cgroup_init_error = CgInitNoParent | CgInitNew | CgInitParent

definition InitCgroups :: "sup_opts \<Rightarrow> bool \<Rightarrow> bool \<Rightarrow> bool \<Rightarrow> cgroup_init_error option \<times> bool" where
  "InitCgroups o' new_ok parent_ok delegatedMgr =
     (if \<not> CgroupDelegated o' then (None, delegatedMgr)
      else if CgroupParent o' = [] then (Some CgInitNoParent, delegatedMgr)
      else if \<not> new_ok then (Some CgInitNew, delegatedMgr)
      else if \<not> parent_ok then (Some CgInitParent, delegatedMgr)
      else (None, True))"

text \<open>
  The network subsystem, initialised once: \<open>None\<close> before the first use, then the pool and the cached
  error. \<open>setupAppNetwork\<close> below takes the outcome of this step as given: \<open>sp_pool\<close> is the pool when
  the subsystem is ready, and \<open>None\<close> when it is disabled or failed. The once-only initialisation is
  not a step of \<open>Spawn\<close>; \<open>netReady_pool\<close> shows that the pool it delivers is the well-formed one the
  supervisor's invariant starts from.
\<close>

datatype net_once_error = NetPoolErr net_error | NetBridgeErr | NetMasqErr

type_synonym net_sub = "(IPPool option \<times> net_once_error option) option"

definition net_once :: "(ip \<times> nat) option \<Rightarrow> bool \<Rightarrow> bool \<Rightarrow> IPPool option \<times> net_once_error option" where
  "net_once parsed bridge_ok masq_ok =
     (case NewIPPool parsed of
        Inl e \<Rightarrow> (None, Some (NetPoolErr e))
      | Inr p \<Rightarrow>
          if \<not> bridge_ok then (Some p, Some NetBridgeErr)
          else if \<not> masq_ok then (Some p, Some NetMasqErr)
          else (Some p, None))"

definition netReady ::
  "sup_opts \<Rightarrow> (ip \<times> nat) option \<Rightarrow> bool \<Rightarrow> bool \<Rightarrow> net_sub \<Rightarrow> (net_once_error + bool) \<times> net_sub"
where
  "netReady o' parsed bridge_ok masq_ok n =
     (if NetSubnet o' = [] \<or> NetBridgeName o' = [] then (Inr False, n)
      else
        let st = (case n of Some x \<Rightarrow> x | None \<Rightarrow> net_once parsed bridge_ok masq_ok) in
        (case snd st of Some e \<Rightarrow> Inl e | None \<Rightarrow> Inr True, Some st))"

text \<open>A failed initialisation is final, a successful one too: later calls repeat the first answer.\<close>

lemma netReady_cached:
  assumes "netReady o' parsed b m None = (r, n)"
  shows "netReady o' parsed' b' m' n = (r, n) \<or> r = Inr False"
  using assms by (auto simp: netReady_def Let_def split: if_splits)

lemma netReady_pool:
  assumes "netReady o' (Some (ip_Mask x (CIDRMask ones), ones)) b m None = (Inr True, Some (Some q, err))"
  shows "pool_ok q"
proof -
  have "NewIPPool (Some (ip_Mask x (CIDRMask ones), ones)) = Inr q"
    using assms by (auto simp: netReady_def net_once_def Let_def split: if_splits option.splits sum.splits)
  then show ?thesis by (rule NewIPPool_ok)
qed

section \<open>Per-app network\<close>

record net_io =
  ni_ns :: bool
  ni_veth :: bool

datatype net_setup_error = NetNotReady | NetAllocate | NetNamespace | NetVeth

definition setupAppNetwork :: "net_io \<Rightarrow> addr \<Rightarrow> Supervisor \<Rightarrow> net_setup_error option \<times> Supervisor" where
  "setupAppNetwork io a s =
     (case sp_pool s of
        None \<Rightarrow> (Some NetNotReady, s)
      | Some p \<Rightarrow>
          (case Allocate p of
             (Inl _, _) \<Rightarrow> (Some NetAllocate, s)
           | (Inr ip, p1) \<Rightarrow>
               if \<not> ni_ns io then (Some NetNamespace, s\<lparr>sp_pool := Some (Release_ip (Some ip) p1)\<rparr>)
               else if \<not> ni_veth io then (Some NetVeth, s\<lparr>sp_pool := Some (Release_ip (Some ip) p1)\<rparr>)
               else (None, upd_app a (\<lambda>x. x\<lparr>a_NetIP := Some ip, a_netNS := Some (a_ID x)\<rparr>) (s\<lparr>sp_pool := Some p1\<rparr>))))"

definition teardownAppNetwork :: "addr \<Rightarrow> Supervisor \<Rightarrow> Supervisor" where
  "teardownAppNetwork a s =
     (let s1 = upd_app a (\<lambda>x. x\<lparr>a_netNS := None\<rparr>) s in
      case (a_NetIP (app_at s1 a), sp_pool s1) of
        (Some ip, Some p) \<Rightarrow>
          upd_app a (\<lambda>x. x\<lparr>a_NetIP := None\<rparr>) (s1\<lparr>sp_pool := Some (Release_ip (Some ip) p)\<rparr>)
      | _ \<Rightarrow> s1)"

section \<open>Spawn\<close>

record spawn_io =
  sio_persist :: persist_io
  sio_rotator :: bool
  sio_cgmgr :: bool
  sio_cgroup :: bool
  sio_net :: net_io
  sio_volumes :: bool
  sio_start :: start_io

datatype spawn_error =
    SpEmptyID | SpInvalidID id_error | SpExec exec_error | SpAlreadyRunning string
  | SpRunAs runas_error | SpRotator | SpNoCgroupParent | SpCgroup | SpNet net_setup_error | SpVolumes
  | SpStart start_error

definition volumeIDs :: "VolumeMount list \<Rightarrow> string list" where
  "volumeIDs mounts = fold (\<lambda>m out. if vm_VolumeID m \<in> set out then out else out @ [vm_VolumeID m]) mounts []"

definition owners_of :: "Supervisor \<Rightarrow> owners" where
  "owners_of s = map (\<lambda>(i, a). (i, a_runAs (app_at s a))) (sp_apps s)"

definition new_app :: "Config \<Rightarrow> string \<Rightarrow> string list \<Rightarrow> runtime \<Rightarrow> App" where
  "new_app cfg cmd args rt = \<lparr>a_ID = cfg_ID cfg, a_Runtime = rt, a_Command = cmd, a_Args = args,
     a_Port = cfg_Port cfg, a_HealthCheckPath = cfg_HealthCheckPath cfg, a_env = cfg_Env cfg,
     a_runAs = None, a_runAsRoot = False, a_cmd = None, a_status = StatusUnknown, a_startedAt = 0,
     a_restarts = [], a_done = False, a_healthFailures = 0, a_rotator = None, a_cg = None,
     a_cgLimits = None, a_sandbox = None, a_NetIP = None, a_netNS = None,
     a_volumeRefs = volumeIDs (cfg_VolumeMounts cfg), a_watch = WNone\<rparr>"

text \<open>
  The app is allocated at the end of the heap. The clean-up on the error paths (closing the rotator,
  removing the cgroup) only touches the discarded app; what it must restore is the address pool.
\<close>

definition spawn_launch :: "spawn_io \<Rightarrow> string \<Rightarrow> bool \<Rightarrow> App \<Rightarrow> Supervisor \<Rightarrow> (spawn_error + addr) \<times> Supervisor" where
  "spawn_launch io i isol app s1 =
     (let a = length (sp_heap s1);
          s2 = s1\<lparr>sp_heap := sp_heap s1 @ [app]\<rparr>;
          (neterr, s3) = (if isol then setupAppNetwork (sio_net io) a s2 else (None, s2))
      in
      case neterr of
        Some e \<Rightarrow> (Inl (SpNet e), s3)
      | None \<Rightarrow>
          if \<not> sio_volumes io then (Inl SpVolumes, teardownAppNetwork a s3)
          else
            let (sterr, s4) = startLocked (sio_start io) a s3 in
            case sterr of
              Some e \<Rightarrow> (Inl (SpStart e), teardownAppNetwork a s4)
            | None \<Rightarrow>
                (Inr a, upd_app a (\<lambda>x. x\<lparr>a_watch := WWait\<rparr>) (s4\<lparr>sp_apps := gm_set i a (sp_apps s4)\<rparr>)))"

definition spawnUnchecked :: "spawn_io \<Rightarrow> Config \<Rightarrow> Supervisor \<Rightarrow> (spawn_error + addr) \<times> Supervisor" where
  "spawnUnchecked io cfg0 s =
     (if cfg_ID cfg0 = [] then (Inl SpEmptyID, s)
      else case resolveExec cfg0 of
        Inl e \<Rightarrow> (Inl (SpExec e), s)
      | Inr (cmd, args, rt) \<Rightarrow>
          if gm_get (sp_apps s) (cfg_ID cfg0) \<noteq> None then (Inl (SpAlreadyRunning (cfg_ID cfg0)), s)
          else
            let o' = sp_opts s;
                cfg1 = (if DisableDefaultSandbox o' then cfg0 else applyDefaultSandbox (sp_host s) cfg0);
                (res, u) = resolveRunAsLocked o' (sp_host s) (sio_persist io) (owners_of s) cfg1 (sp_uid s);
                s1 = s\<lparr>sp_uid := u\<rparr>
            in
            case res of
              Inl e \<Rightarrow> (Inl (SpRunAs e), s1)
            | Inr cfg2 \<Rightarrow>
                if LogDir o' \<noteq> [] \<and> \<not> sio_rotator io then (Inl SpRotator, s1)
                else
                  let cfg3 = applyCgroupDefaults o' cfg2;
                      app = (new_app cfg0 cmd args rt)\<lparr>a_runAs := cfg_RunAs cfg2,
                        a_runAsRoot := cfg_RunAsRoot cfg2, a_sandbox := cfg_Sandbox cfg2,
                        a_rotator := (if LogDir o' \<noteq> [] then Some (cfg_ID cfg2, True) else None)\<rparr>
                  in
                  if cfg_CgroupLimits cfg3 \<noteq> None \<and> \<not> cgroupManager o' (sio_cgmgr io) then (Inl SpNoCgroupParent, s1)
                  else if cfg_CgroupLimits cfg3 \<noteq> None \<and> \<not> sio_cgroup io then (Inl SpCgroup, s1)
                  else
                    spawn_launch io (cfg_ID cfg0) (cfg_NetIsolation cfg3)
                      (if cfg_CgroupLimits cfg3 \<noteq> None
                       then app\<lparr>a_cg := Some (cfg_ID cfg3), a_cgLimits := cfg_CgroupLimits cfg3\<rparr> else app) s1)"

definition Spawn :: "spawn_io \<Rightarrow> Config \<Rightarrow> Supervisor \<Rightarrow> (spawn_error + addr) \<times> Supervisor" where
  "Spawn io cfg s =
     (case ValidateID (cfg_ID cfg) of
        Some e \<Rightarrow> (Inl (SpInvalidID e), s)
      | None \<Rightarrow> spawnUnchecked io cfg s)"

section \<open>Stop\<close>

text \<open>
  What happens while \<open>stopApp\<close> waits: \<open>ti_graceful\<close>, the process exits on SIGTERM within the timeout;
  \<open>ti_kill\<close>, the SIGKILL is delivered (or the process is already gone); \<open>ti_late\<close>, after an undelivered
  SIGKILL the process exits within \<open>KillWaitTimeout\<close>; \<open>ti_held\<close>, a descendant that outlives the process
  keeps the pipe of its output open. The watch goroutine closes \<open>done\<close> only after \<open>cmd.Wait\<close>, and that
  waits for the pipe, without bound when \<open>WaitDelay\<close> is 0 (\<open>wait_returns\<close>; a watch goroutine in its
  backoff sleep has no \<open>Wait\<close> ahead). Waiting on a \<open>done\<close> channel that stays open is \<open>StopHang\<close>.
\<close>

record stop_io =
  ti_graceful :: bool
  ti_kill :: bool
  ti_late :: bool
  ti_held :: bool

datatype stop_result = StopOk | StopErr | StopHang

definition wait_returns :: "stop_io \<Rightarrow> addr \<Rightarrow> Supervisor \<Rightarrow> bool" where
  "wait_returns io a s \<longleftrightarrow> \<not> ti_held io \<or> WaitDelay (sp_opts s) \<noteq> 0 \<or> a_watch (app_at s a) = WSleep"

definition die_app :: "addr \<Rightarrow> Supervisor \<Rightarrow> Supervisor" where
  "die_app a s = (case a_cmd (app_at s a) of None \<Rightarrow> s | Some pid \<Rightarrow> s\<lparr>sp_live := removeAll pid (sp_live s)\<rparr>)"

definition exit_app :: "addr \<Rightarrow> Supervisor \<Rightarrow> Supervisor" where
  "exit_app a s = watch_return a (upd_app a (\<lambda>x. x\<lparr>a_status := StatusStopped\<rparr>) (die_app a s))"

definition stop_cleanup :: "addr \<Rightarrow> Supervisor \<Rightarrow> Supervisor" where
  "stop_cleanup a s =
     teardownAppNetwork a (upd_app a (\<lambda>x. x\<lparr>a_rotator := map_option (\<lambda>(dir, _). (dir, False)) (a_rotator x), a_cg := None\<rparr>) s)"

definition escalateAndWait :: "stop_io \<Rightarrow> addr \<Rightarrow> Supervisor \<Rightarrow> stop_result \<times> Supervisor" where
  "escalateAndWait io a s =
     (if a_done (app_at s a) then (StopOk, s)
      else if a_watch (app_at s a) = WNone then (if ti_kill io then (StopHang, s) else (StopErr, s))
      else if ti_kill io then (if wait_returns io a s then (StopOk, exit_app a s) else (StopHang, die_app a s))
      else if ti_late io then (if wait_returns io a s then (StopOk, exit_app a s) else (StopErr, die_app a s))
      else (StopErr, s))"

text \<open>A process that exits on SIGTERM but whose pipe is held: the timeout passes, the SIGKILL finds the
  process gone, and the wait on \<open>done\<close> goes on.\<close>

definition stop_phases :: "stop_io \<Rightarrow> int \<Rightarrow> addr \<Rightarrow> Supervisor \<Rightarrow> stop_result \<times> Supervisor" where
  "stop_phases io timeout a s =
     (if timeout \<le> 0 then escalateAndWait io a s
      else if a_done (app_at s a) then (StopOk, s)
      else if a_watch (app_at s a) \<noteq> WNone \<and> ti_graceful io
      then (if wait_returns io a s then (StopOk, exit_app a s) else (StopHang, die_app a s))
      else escalateAndWait io a s)"

definition stopApp :: "stop_io \<Rightarrow> int \<Rightarrow> addr \<Rightarrow> Supervisor \<Rightarrow> stop_result \<times> Supervisor" where
  "stopApp io timeout a s =
     (if a_cmd (app_at s a) = None then (StopOk, stop_cleanup a s)
      else
        let (res, s1) = stop_phases io timeout a s
        in if res = StopOk then (StopOk, stop_cleanup a s1) else (res, s1))"

datatype stop_error = StopNotFound string | StopFailed

definition StopWithTimeout ::
  "stop_io \<Rightarrow> string \<Rightarrow> int \<Rightarrow> (Supervisor \<Rightarrow> Supervisor) \<Rightarrow> Supervisor \<Rightarrow> (stop_error + bool) \<times> Supervisor"
where
  "StopWithTimeout io i timeout env s =
     (case gm_get (sp_apps s) i of
        None \<Rightarrow> (Inl (StopNotFound i), s)
      | Some a \<Rightarrow>
          let (res, s1) = stopApp io timeout a (env (s\<lparr>sp_apps := gm_del i (sp_apps s)\<rparr>)) in
          (case res of
             StopOk \<Rightarrow> (Inr True, s1)
           | StopHang \<Rightarrow> (Inr False, s1)
           | StopErr \<Rightarrow>
               (Inl StopFailed,
                if gm_get (sp_apps s1) i = None then s1\<lparr>sp_apps := gm_set i a (sp_apps s1)\<rparr> else s1)))"

text \<open>
  \<open>StopAll\<close>, at shutdown: one goroutine per registered id, here in the order \<open>ids\<close> in which Go's map
  iteration starts them. Each takes its app out of the registry and waits while the later ones do
  the same (an id that has vanished is skipped); \<open>env\<close> is what else happens. \<open>remaining\<close> is the time left until the context's deadline.
\<close>

definition stopAll_timeout :: "sup_opts \<Rightarrow> int option \<Rightarrow> int" where
  "stopAll_timeout o' remaining =
     max 0 (case remaining of None \<Rightarrow> GracefulShutdownTimeout o' | Some d \<Rightarrow> min d (GracefulShutdownTimeout o'))"

fun stop_all :: "(string \<Rightarrow> stop_io) \<Rightarrow> int \<Rightarrow> string list \<Rightarrow> (Supervisor \<Rightarrow> Supervisor) \<Rightarrow> Supervisor \<Rightarrow> Supervisor" where
  "stop_all io t [] env = env"
| "stop_all io t (i # ids) env =
     (\<lambda>s. if gm_get (sp_apps s) i = None then stop_all io t ids env s
          else snd (StopWithTimeout (io i) i t (stop_all io t ids env) s))"

definition StopAll ::
  "(string \<Rightarrow> stop_io) \<Rightarrow> int option \<Rightarrow> string list \<Rightarrow> (Supervisor \<Rightarrow> Supervisor) \<Rightarrow> Supervisor \<Rightarrow> Supervisor"
where
  "StopAll io remaining ids env s = stop_all io (stopAll_timeout (sp_opts s) remaining) ids env s"

section \<open>Reset\<close>

datatype reset_error = ResetNotFound string | ResetNotCrashLooping | ResetVanished | ResetStart start_error

definition Reset ::
  "start_io \<Rightarrow> string \<Rightarrow> (Supervisor \<Rightarrow> Supervisor) \<Rightarrow> Supervisor \<Rightarrow> reset_error option \<times> Supervisor"
where
  "Reset io i env s =
     (case gm_get (sp_apps s) i of
        None \<Rightarrow> (Some (ResetNotFound i), s)
      | Some a \<Rightarrow>
          if a_status (app_at s a) \<noteq> StatusCrashLooping then (Some ResetNotCrashLooping, s)
          else
            let s1 = env s in
            if gm_get (sp_apps s1) i \<noteq> Some a then (Some ResetVanished, s1)
            else if a_status (app_at s1 a) \<noteq> StatusCrashLooping then (Some ResetNotCrashLooping, s1)
            else
              let s2 = upd_app a (resetDone \<circ> clearRestarts) s1;
                  (err, s3) = startLocked io a s2
              in case err of
                   Some e \<Rightarrow> (Some (ResetStart e), s3)
                 | None \<Rightarrow> (None, upd_app a (\<lambda>x. x\<lparr>a_watch := WWait\<rparr>) s3))"

section \<open>Restart\<close>

text \<open>
  \<open>signal_ok\<close>: the SIGTERM was sent. \<open>polls\<close> are the states the poll loop sees before the deadline, every
  50 ms; which states these are is up to the watch goroutine.
\<close>

datatype restart_error =
  RestartNotFound string | RestartNoProcess | RestartSignal | RestartRemoved | RestartCrashLooping | RestartTimeout

fun restart_poll :: "addr \<Rightarrow> int \<Rightarrow> Supervisor list \<Rightarrow> restart_error + addr" where
  "restart_poll a oldPID [] = Inl RestartTimeout"
| "restart_poll a oldPID (s # polls) =
     (if \<not> isTracked s a then Inl RestartRemoved
      else case a_status (app_at s a) of
        StatusCrashLooping \<Rightarrow> Inl RestartCrashLooping
      | StatusRunning \<Rightarrow> if a_cmd (app_at s a) \<noteq> Some oldPID then Inr a else restart_poll a oldPID polls
      | _ \<Rightarrow> restart_poll a oldPID polls)"

definition Restart :: "bool \<Rightarrow> Supervisor list \<Rightarrow> string \<Rightarrow> Supervisor \<Rightarrow> restart_error + addr" where
  "Restart signal_ok polls i s =
     (case gm_get (sp_apps s) i of
        None \<Rightarrow> Inl (RestartNotFound i)
      | Some a \<Rightarrow>
          (case a_cmd (app_at s a) of
             None \<Rightarrow> Inl RestartNoProcess
           | Some oldPID \<Rightarrow> if \<not> signal_ok then Inl RestartSignal else restart_poll a oldPID polls))"

definition AppLogPath :: "Supervisor \<Rightarrow> string \<Rightarrow> string list" where
  "AppLogPath s i = (if LogDir (sp_opts s) = [] \<or> i = [] then [] else [LogDir (sp_opts s), i, ''current.log''])"

section \<open>Deploy\<close>

text \<open>
  One round of the health poll of a new version: the check passes (\<open>PollOk\<close>), fails before the deadline,
  fails after it, or fails and the context is cancelled during the pause. The deadline is finite, so
  a list of rounds that decides nothing ends at it. Without a checker the only round is the settle
  pause, which a cancelled context interrupts.
\<close>

datatype poll_round = PollOk | PollAgain | PollDeadline | PollCancelled

datatype wait_error = WaitUnhealthy | WaitCancelled

fun wait_polls :: "poll_round list \<Rightarrow> wait_error option" where
  "wait_polls [] = Some WaitUnhealthy"
| "wait_polls (PollOk # _) = None"
| "wait_polls (PollDeadline # _) = Some WaitUnhealthy"
| "wait_polls (PollCancelled # _) = Some WaitCancelled"
| "wait_polls (PollAgain # rs) = wait_polls rs"

definition waitDeployHealthy :: "sup_opts \<Rightarrow> poll_round list \<Rightarrow> wait_error option" where
  "waitDeployHealthy o' rounds =
     (if \<not> HasHealthChecker o' then (if rounds = [PollCancelled] then Some WaitCancelled else None)
      else wait_polls rounds)"

record DeployConfig =
  dc_Config :: Config
  dc_ReadyTimeout :: int
  dc_PollInterval :: int
  dc_GracefulV1Timeout :: int

record deploy_io =
  dio_spawn :: spawn_io
  dio_rounds :: "poll_round list"
  dio_stop_v2 :: stop_io
  dio_stop_v1 :: stop_io

datatype deploy_error =
    DepEmptyID | DepNotFound string | DepPortConflict int | DepSpawn spawn_error | DepWait wait_error
  | DepConflict | DepRouter dispatch_error

text \<open>
  \<open>dio_rounds\<close> are the rounds of \<open>waitDeployHealthy\<close>. The router is \<open>None\<close> when the caller passes nil.
  A \<open>deploy_env\<close> is what the other goroutines do in the four windows in which Deploy holds no lock: between
  the snapshot of v1 and the spawn, while v2 is polled, between the swap and the flip of the route, and
  while a version is stopped. A stop that never returns keeps Deploy from returning as well; the result
  below is then the one it was going to return.
\<close>

record deploy_env =
  de_before :: "Supervisor \<Rightarrow> Supervisor"
  de_polling :: "Supervisor \<Rightarrow> Supervisor"
  de_swapped :: "Supervisor \<Rightarrow> Supervisor"
  de_stopping :: "Supervisor \<Rightarrow> Supervisor"

definition windows :: "((Supervisor \<Rightarrow> Supervisor) \<Rightarrow> bool) \<Rightarrow> deploy_env \<Rightarrow> bool" where
  "windows P e \<longleftrightarrow> P (de_before e) \<and> P (de_polling e) \<and> P (de_swapped e) \<and> P (de_stopping e)"

definition alone :: deploy_env where
  "alone = \<lparr>de_before = (\<lambda>x. x), de_polling = (\<lambda>x. x), de_swapped = (\<lambda>x. x), de_stopping = (\<lambda>x. x)\<rparr>"

definition rename_swap :: "string \<Rightarrow> addr \<Rightarrow> Supervisor \<Rightarrow> Supervisor" where
  "rename_swap i v2 s =
     (upd_app v2 (\<lambda>x. x\<lparr>a_ID := i\<rparr>) s)\<lparr>sp_apps := gm_set i v2 (gm_del i (gm_del (deployTempID i) (sp_apps s)))\<rparr>"

definition flip_route ::
  "(string \<Rightarrow> bool) \<Rightarrow> (ip \<Rightarrow> string) \<Rightarrow> string \<Rightarrow> App \<Rightarrow> Router option \<Rightarrow> dispatch_error option \<times> Router option"
where
  "flip_route url_ok ip_str i v2 router =
     (case router of
        None \<Rightarrow> (None, None)
      | Some r \<Rightarrow>
          let host = (case a_NetIP v2 of None \<Rightarrow> [] | Some x \<Rightarrow> ip_str x);
              (e, r') = SetAddr url_ok i host (a_Port v2) r
          in (e, Some r'))"

definition deploy_swap ::
  "(string \<Rightarrow> bool) \<Rightarrow> (ip \<Rightarrow> string) \<Rightarrow> deploy_io \<Rightarrow> deploy_env \<Rightarrow> string \<Rightarrow> int \<Rightarrow> addr \<Rightarrow> addr \<Rightarrow>
   Supervisor \<Rightarrow> Router option \<Rightarrow> (deploy_error + addr) \<times> Supervisor \<times> Router option"
where
  "deploy_swap url_ok ip_str io env i v1timeout v1 v2 s router =
     (let s3 = de_swapped env (rename_swap i v2 s) in
      case flip_route url_ok ip_str i (app_at s3 v2) router of
        (Some e, _) \<Rightarrow>
          (Inl (DepRouter e),
           snd (stopApp (dio_stop_v2 io) v1timeout v2
             (de_stopping env (s3\<lparr>sp_apps := gm_set i v1 (gm_del i (sp_apps s3))\<rparr>))),
           router)
      | (None, router') \<Rightarrow>
          (Inr v2, snd (stopApp (dio_stop_v1 io) v1timeout v1 (de_stopping env s3)), router'))"

definition Deploy ::
  "(string \<Rightarrow> bool) \<Rightarrow> (ip \<Rightarrow> string) \<Rightarrow> deploy_io \<Rightarrow> DeployConfig \<Rightarrow> deploy_env \<Rightarrow>
   Supervisor \<Rightarrow> Router option \<Rightarrow> (deploy_error + addr) \<times> Supervisor \<times> Router option"
where
  "Deploy url_ok ip_str io dc env s router =
     (let cfg = dc_Config dc; i = cfg_ID cfg;
          v1timeout = (if dc_GracefulV1Timeout dc \<le> 0 then GracefulShutdownTimeout (sp_opts s)
                       else dc_GracefulV1Timeout dc)
      in
      if i = [] then (Inl DepEmptyID, s, router)
      else case gm_get (sp_apps s) i of
        None \<Rightarrow> (Inl (DepNotFound i), s, router)
      | Some v1 \<Rightarrow>
          if cfg_Port cfg = a_Port (app_at s v1) then (Inl (DepPortConflict (cfg_Port cfg)), s, router)
          else
            let tempID = deployTempID i;
                v2Cfg = inheritIdentity (cfg\<lparr>cfg_ID := tempID\<rparr>) (a_runAs (app_at s v1)) (a_runAsRoot (app_at s v1))
            in
            case spawnUnchecked (dio_spawn io) v2Cfg (de_before env s) of
              (Inl e, s1) \<Rightarrow> (Inl (DepSpawn e), s1, router)
            | (Inr v2, s1) \<Rightarrow>
                let s2 = de_polling env s1;
                    abandon = (\<lambda>e. (Inl e, snd (StopWithTimeout (dio_stop_v2 io) tempID
                                 (GracefulShutdownTimeout (sp_opts s)) (de_stopping env) s2), router))
                in
                case waitDeployHealthy (sp_opts s) (dio_rounds io) of
                  Some e \<Rightarrow> abandon (DepWait e)
                | None \<Rightarrow>
                    if gm_get (sp_apps s2) i \<noteq> Some v1 then abandon DepConflict
                    else deploy_swap url_ok ip_str io env i v1timeout v1 v2 s2 router)"

text \<open>An app that was launched from a configuration: the command, arguments and runtime it resolves to, its
  environment, port and health path.\<close>

definition runs_config :: "Config \<Rightarrow> App \<Rightarrow> bool" where
  "runs_config cfg x \<longleftrightarrow> resolveExec cfg = Inr (a_Command x, a_Args x, a_Runtime x) \<and> a_env x = cfg_Env cfg \<and>
     a_Port x = cfg_Port cfg \<and> a_HealthCheckPath x = cfg_HealthCheckPath cfg"

lemma runs_config_upd [simp]:
  "runs_config c (x\<lparr>a_NetIP := ip, a_netNS := ns\<rparr>) = runs_config c x" "runs_config c (x\<lparr>a_watch := w\<rparr>) = runs_config c x"
  "runs_config c (x\<lparr>a_cmd := q, a_status := st, a_startedAt := n\<rparr>) = runs_config c x"
  by (simp_all add: runs_config_def)

section \<open>Rollback of a failed spawn\<close>

definition pool_inv :: "Supervisor \<Rightarrow> bool" where
  "pool_inv s \<longleftrightarrow> (case sp_pool s of None \<Rightarrow> True | Some p \<Rightarrow> pool_ok p)"

lemma Allocate_Inr:
  assumes "pool_ok p" and "Allocate p = (Inr x, p1)"
  shows "x \<notin> set (pool_inuse p)" and "x \<noteq> pool_gateway p" and "p1 = p\<lparr>pool_inuse := x # pool_inuse p\<rparr>"
proof -
  have "alloc_scan (nextIP (pool_gateway p)) (pool_bcast p) (pool_inuse p) = Some x"
    and p1: "p1 = p\<lparr>pool_inuse := x # pool_inuse p\<rparr>"
    using assms(2) by (auto simp: Allocate_def split: option.splits)
  then show "x \<notin> set (pool_inuse p)" "x \<noteq> pool_gateway p"
    using alloc_scan_spec [of "nextIP (pool_gateway p)" "pool_bcast p" "pool_inuse p"]
      scan_from_gateway [OF assms(1)] by auto
  show "p1 = p\<lparr>pool_inuse := x # pool_inuse p\<rparr>" by (rule p1)
qed

lemma Allocate_Release:
  assumes "pool_ok p" and "Allocate p = (Inr x, p1)"
  shows "Release_ip (Some x) p1 = p"
  using Allocate_Inr [OF assms] by (simp add: Release_ip_def removeAll_id)

text \<open>\<open>same_outside n s s'\<close>: the two states differ at most in the UID allocator and in apps at
  addresses from \<open>n\<close> on.\<close>

definition same_outside :: "nat \<Rightarrow> Supervisor \<Rightarrow> Supervisor \<Rightarrow> bool" where
  "same_outside n s s' \<longleftrightarrow> sp_apps s' = sp_apps s \<and> sp_live s' = sp_live s \<and> sp_opts s' = sp_opts s \<and>
     sp_host s' = sp_host s \<and> take n (sp_heap s') = take n (sp_heap s) \<and> length (sp_heap s) \<le> length (sp_heap s')"

lemma take_upd_app: "n \<le> a \<Longrightarrow> take n (sp_heap (upd_app a f s)) = take n (sp_heap s)"
  by (simp add: upd_app_def take_update_cancel)

lemma startLocked_err:
  "startLocked io a s = (Some e, s') \<Longrightarrow>
   sp_apps s' = sp_apps s \<and> sp_live s' = sp_live s \<and> sp_opts s' = sp_opts s \<and> sp_host s' = sp_host s \<and>
   sp_pool s' = sp_pool s \<and> sp_uid s' = sp_uid s \<and> length (sp_heap s') = length (sp_heap s) \<and>
   (\<forall>n \<le> a. take n (sp_heap s') = take n (sp_heap s)) \<and>
   (a < length (sp_heap s) \<longrightarrow> app_at s' a = (app_at s a)\<lparr>a_status := StatusCrashed\<rparr>)"
  by (auto simp: startLocked_def Let_def take_upd_app split: if_splits option.splits)

lemma startLocked_ok:
  "startLocked io a s = (None, s') \<Longrightarrow>
   sp_apps s' = sp_apps s \<and> sp_opts s' = sp_opts s \<and> sp_host s' = sp_host s \<and> sp_pool s' = sp_pool s \<and>
   sp_uid s' = sp_uid s \<and> length (sp_heap s') = length (sp_heap s) \<and>
   (\<forall>n \<le> a. take n (sp_heap s') = take n (sp_heap s)) \<and>
   (\<exists>pid. st_pid io = Some pid \<and> sp_live s' = pid # sp_live s \<and>
     (a < length (sp_heap s) \<longrightarrow> app_at s' a = (app_at s a)\<lparr>a_cmd := Some pid, a_status := StatusRunning,
        a_startedAt := st_now io\<rparr>))"
  by (auto simp: startLocked_def Let_def take_upd_app split: if_splits option.splits)

lemma setup_err:
  assumes "pool_inv s" and "setupAppNetwork io a s = (Some e, s')"
  shows "s' = s"
  using assms Allocate_Release
  by (auto simp: setupAppNetwork_def pool_inv_def split: option.splits prod.splits sum.splits if_splits)

lemma setup_ok_teardown:
  assumes "pool_inv s" and "setupAppNetwork io a s = (None, s')" and "a < length (sp_heap s)"
  shows "\<exists>ip p. sp_pool s = Some p \<and> a_NetIP (app_at s' a) = Some ip \<and> sp_apps s' = sp_apps s \<and> sp_live s' = sp_live s \<and>
    sp_opts s' = sp_opts s \<and> sp_host s' = sp_host s \<and> sp_uid s' = sp_uid s \<and> length (sp_heap s') = length (sp_heap s) \<and>
    (\<forall>n \<le> a. take n (sp_heap s') = take n (sp_heap s)) \<and>
    app_at s' a = (app_at s a)\<lparr>a_NetIP := Some ip, a_netNS := Some (a_ID (app_at s a))\<rparr> \<and>
    (\<exists>p1. sp_pool s' = Some p1 \<and> Allocate p = (Inr ip, p1) \<and> Release_ip (Some ip) p1 = p)"
  using assms Allocate_Release
  by (auto simp: setupAppNetwork_def pool_inv_def take_upd_app split: option.splits prod.splits sum.splits if_splits)

lemma teardown_simps [simp]:
  "sp_apps (teardownAppNetwork a s) = sp_apps s" "sp_live (teardownAppNetwork a s) = sp_live s"
  "sp_uid (teardownAppNetwork a s) = sp_uid s" "sp_opts (teardownAppNetwork a s) = sp_opts s"
  "sp_host (teardownAppNetwork a s) = sp_host s" "length (sp_heap (teardownAppNetwork a s)) = length (sp_heap s)"
  by (simp_all add: teardownAppNetwork_def Let_def split: option.split)

lemma teardown_take: "n \<le> a \<Longrightarrow> take n (sp_heap (teardownAppNetwork a s)) = take n (sp_heap s)"
  by (simp add: teardownAppNetwork_def Let_def upd_app_def take_update_cancel split: option.split)

lemma teardown_pool:
  assumes "a < length (sp_heap s)"
  shows "sp_pool (teardownAppNetwork a s) =
    (case a_NetIP (app_at s a) of None \<Rightarrow> sp_pool s | Some x \<Rightarrow> map_option (Release_ip (Some x)) (sp_pool s))"
  using assms by (simp add: teardownAppNetwork_def Let_def split: option.split)

text \<open>The network step of a spawn, and that tearing down afterwards undoes it.\<close>

lemma net_step_undone:
  assumes "pool_inv s" and "(if isol then setupAppNetwork io a s else (None, s)) = (None, s')"
    and "a < length (sp_heap s)" and "a_NetIP (app_at s a) = None"
    and "sp_pool t = sp_pool s'" and "a_NetIP (app_at t a) = a_NetIP (app_at s' a)"
    and "length (sp_heap t) = length (sp_heap s')"
  shows "sp_pool (teardownAppNetwork a t) = sp_pool s"
proof (cases isol)
  case True
  with setup_ok_teardown [OF assms(1) _ assms(3)] assms(2) obtain x p p1 where
    "sp_pool s = Some p" "a_NetIP (app_at s' a) = Some x" "sp_pool s' = Some p1" "Release_ip (Some x) p1 = p"
    "length (sp_heap s') = length (sp_heap s)" by (metis (full_types))
  with assms(3,5,6,7) show ?thesis by (simp add: teardown_pool)
next
  case False
  with assms show ?thesis by (simp add: teardown_pool)
qed

text \<open>What a network step that succeeds leaves alone.\<close>

lemma net_step_frame:
  assumes "pool_inv s" and "(if isol then setupAppNetwork io a s else (None, s)) = (None, s')"
    and "a < length (sp_heap s)"
  shows "sp_apps s' = sp_apps s \<and> sp_live s' = sp_live s \<and> sp_opts s' = sp_opts s \<and> sp_host s' = sp_host s \<and>
    pool_inv s' \<and> sp_uid s' = sp_uid s \<and> length (sp_heap s') = length (sp_heap s) \<and>
    (\<forall>n \<le> a. take n (sp_heap s') = take n (sp_heap s)) \<and> a_ID (app_at s' a) = a_ID (app_at s a) \<and>
    a_done (app_at s' a) = a_done (app_at s a) \<and> a_runAs (app_at s' a) = a_runAs (app_at s a) \<and>
    a_runAsRoot (app_at s' a) = a_runAsRoot (app_at s a) \<and> a_Port (app_at s' a) = a_Port (app_at s a) \<and> a_cg (app_at s' a) = a_cg (app_at s a) \<and>
    (\<forall>c. runs_config c (app_at s' a) = runs_config c (app_at s a))"
proof (cases isol)
  case True
  with setup_ok_teardown [OF assms(1) _ assms(3)] assms(2) obtain x p p1 where
    "sp_pool s = Some p" "sp_pool s' = Some p1" "Allocate p = (Inr x, p1)" "sp_apps s' = sp_apps s" "sp_live s' = sp_live s" "sp_opts s' = sp_opts s" "sp_host s' = sp_host s"
    "sp_uid s' = sp_uid s" "length (sp_heap s') = length (sp_heap s)"
    "\<forall>n \<le> a. take n (sp_heap s') = take n (sp_heap s)"
    "app_at s' a = (app_at s a)\<lparr>a_NetIP := Some x, a_netNS := Some (a_ID (app_at s a))\<rparr>"
    by (metis (full_types))
  moreover from this have "pool_inv s'" using Allocate_ok [of p] assms(1) by (simp add: pool_inv_def)
  ultimately show ?thesis by simp
qed (use assms in simp)

lemma net_step_err:
  assumes "pool_inv s" and "(if isol then setupAppNetwork io a s else (None, s)) = (Some e, s')"
  shows "s' = s"
  using assms setup_err by (auto split: if_splits)

lemma pool_inv_upd [simp]:
  "pool_inv (s\<lparr>sp_heap := h\<rparr>) = pool_inv s" "pool_inv (s\<lparr>sp_uid := u\<rparr>) = pool_inv s"
  "pool_inv (s\<lparr>sp_apps := m\<rparr>) = pool_inv s" "pool_inv (upd_app a f s) = pool_inv s"
  by (simp_all add: pool_inv_def)

lemma launch_err:
  assumes "pool_inv s" and "spawn_launch io i isol app s = (Inl e, s')" and "a_NetIP app = None"
  shows "sp_apps s' = sp_apps s \<and> sp_pool s' = sp_pool s \<and> sp_live s' = sp_live s \<and>
    sp_opts s' = sp_opts s \<and> take (length (sp_heap s)) (sp_heap s') = sp_heap s"
proof -
  let ?a = "length (sp_heap s)" and ?s2 = "s\<lparr>sp_heap := sp_heap s @ [app]\<rparr>"
  have inv2: "pool_inv ?s2" and a2: "?a < length (sp_heap ?s2)" and ip2: "a_NetIP (app_at ?s2 ?a) = None"
    using assms(1,3) by simp_all
  obtain ne s3 where net: "(if isol then setupAppNetwork (sio_net io) ?a ?s2 else (None, ?s2)) = (ne, s3)"
    by (metis surj_pair)
  obtain se s4 where start: "startLocked (sio_start io) ?a s3 = (se, s4)" by (metis surj_pair)
  note run = assms(2) [unfolded spawn_launch_def Let_def net start prod.case]
  show ?thesis
  proof (cases ne)
    case (Some x)
    with net have "s3 = ?s2" using net_step_err [OF inv2] by blast
    with run Some show ?thesis by auto
  next
    case None
    note net' = net [unfolded None]
    note fr = net_step_frame [OF inv2 net' a2]
    note undo = net_step_undone [OF inv2 net' a2 ip2]
    show ?thesis
    proof (cases "sio_volumes io")
      case False
      with run None have s': "s' = teardownAppNetwork ?a s3" by simp
      then show ?thesis using fr undo [of s3] by (simp add: teardown_take)
    next
      case True
      with run None obtain y where se: "se = Some y" and s': "s' = teardownAppNetwork ?a s4"
        by (cases se) auto
      note st = startLocked_err [OF start [unfolded se]]
      have "sp_pool s' = sp_pool ?s2" unfolding s' by (rule undo) (use st fr in simp_all)
      then show ?thesis using st fr by (simp add: s' teardown_take)
    qed
  qed
qed

lemma applyDefaultSandbox_frame:
  "cfg_ID (applyDefaultSandbox h cfg) = cfg_ID cfg \<and> cfg_CgroupLimits (applyDefaultSandbox h cfg) = cfg_CgroupLimits cfg"
  by (simp add: applyDefaultSandbox_def split: option.split)

lemma applyCgroupDefaults_frame:
  "cfg_ID (applyCgroupDefaults o' cfg) = cfg_ID cfg"
  "cfg_CgroupLimits cfg \<noteq> None \<Longrightarrow> cfg_CgroupLimits (applyCgroupDefaults o' cfg) \<noteq> None"
  by (auto simp: applyCgroupDefaults_def Let_def split: option.splits)

lemma resolveRunAs_frame:
  "resolveRunAsLocked o' h io ow cfg st = (Inr cfg', st') \<Longrightarrow>
   cfg_ID cfg' = cfg_ID cfg \<and> cfg_CgroupLimits cfg' = cfg_CgroupLimits cfg"
  by (auto simp: resolveRunAsLocked_def Let_def split: if_splits option.splits prod.splits)

lemma spawn_cases:
  assumes "spawnUnchecked io cfg s = (r, s')"
  shows "(\<exists>e u. r = Inl e \<and> s' = s\<lparr>sp_uid := u\<rparr>) \<or>
    (\<exists>u isol app cfg2. cfg_ID cfg \<noteq> [] \<and> gm_get (sp_apps s) (cfg_ID cfg) = None \<and>
       spawn_launch io (cfg_ID cfg) isol app (s\<lparr>sp_uid := u\<rparr>) = (r, s') \<and> a_NetIP app = None \<and> a_cmd app = None \<and>
       a_ID app = cfg_ID cfg \<and> a_done app = False \<and> a_Port app = cfg_Port cfg \<and>
       resolveRunAsLocked (sp_opts s) (sp_host s) (sio_persist io) (owners_of s)
         (if DisableDefaultSandbox (sp_opts s) then cfg else applyDefaultSandbox (sp_host s) cfg) (sp_uid s) = (Inr cfg2, u) \<and>
       a_runAs app = cfg_RunAs cfg2 \<and> a_runAsRoot app = cfg_RunAsRoot cfg2 \<and> (cfg_CgroupLimits cfg \<noteq> None \<longrightarrow> a_cg app = Some (cfg_ID cfg)) \<and> runs_config cfg app)"
proof -
  obtain res u where ra: "resolveRunAsLocked (sp_opts s) (sp_host s) (sio_persist io) (owners_of s)
      (if DisableDefaultSandbox (sp_opts s) then cfg else applyDefaultSandbox (sp_host s) cfg) (sp_uid s) = (res, u)"
    by (metis surj_pair)
  have cg: "cfg_CgroupLimits (applyCgroupDefaults (sp_opts s) c2) \<noteq> None \<and> cfg_ID c2 = cfg_ID cfg"
    if "res = Inr c2" "cfg_CgroupLimits cfg \<noteq> None" for c2
    using resolveRunAs_frame [OF ra [unfolded that(1)]] applyDefaultSandbox_frame [of "sp_host s" cfg] that(2)
      applyCgroupDefaults_frame(2) [of c2 "sp_opts s"] by (auto split: if_splits)
  have self: "\<exists>u. s = s\<lparr>sp_uid := u\<rparr>" by (rule exI [of _ "sp_uid s"]) simp
  note run = assms [unfolded spawnUnchecked_def Let_def ra prod.case]
  show ?thesis
  proof (cases "cfg_ID cfg = [] \<or> (\<exists>e. resolveExec cfg = Inl e) \<or> gm_get (sp_apps s) (cfg_ID cfg) \<noteq> None")
    case True
    then show ?thesis using run self by (auto split: if_splits sum.splits)
  next
    case False
    then obtain cmd args rt where ex: "resolveExec cfg = Inr (cmd, args, rt)" by (metis sumE prod_cases3)
    show ?thesis
    proof (cases res)
      case (Inl e)
      then show ?thesis using run False ex by auto
    next
      case (Inr c2)
      define app where "app = (new_app cfg cmd args rt)\<lparr>a_runAs := cfg_RunAs c2,
        a_runAsRoot := cfg_RunAsRoot c2, a_sandbox := cfg_Sandbox c2,
        a_rotator := (if LogDir (sp_opts s) \<noteq> [] then Some (cfg_ID c2, True) else None)\<rparr>"
      define app' where "app' = (if cfg_CgroupLimits (applyCgroupDefaults (sp_opts s) c2) \<noteq> None
        then app\<lparr>a_cg := Some (cfg_ID (applyCgroupDefaults (sp_opts s) c2)),
          a_cgLimits := cfg_CgroupLimits (applyCgroupDefaults (sp_opts s) c2)\<rparr> else app)"
      have "(\<exists>e. r = Inl e \<and> s' = s\<lparr>sp_uid := u\<rparr>) \<or>
          spawn_launch io (cfg_ID cfg) (cfg_NetIsolation (applyCgroupDefaults (sp_opts s) c2)) app' (s\<lparr>sp_uid := u\<rparr>) = (r, s')"
        using run False ex by (auto simp: Inr app_def [symmetric] app'_def split: if_splits)
      moreover have "a_NetIP app' = None \<and> a_cmd app' = None \<and> a_ID app' = cfg_ID cfg \<and> a_done app' = False \<and>
          a_Port app' = cfg_Port cfg \<and> a_runAs app' = cfg_RunAs c2 \<and> a_runAsRoot app' = cfg_RunAsRoot c2 \<and>
          (cfg_CgroupLimits cfg \<noteq> None \<longrightarrow> a_cg app' = Some (cfg_ID cfg)) \<and> runs_config cfg app'"
        using cg [OF Inr] by (auto simp: app'_def app_def new_app_def applyCgroupDefaults_frame(1) runs_config_def ex)
      moreover note ra [unfolded Inr]
      ultimately show ?thesis using False by (elim disjE) metis+
    qed
  qed
qed

lemma spawn_err:
  assumes "pool_inv s" and "spawnUnchecked io cfg s = (Inl e, s')"
  shows "sp_apps s' = sp_apps s \<and> sp_pool s' = sp_pool s \<and> sp_live s' = sp_live s \<and>
    sp_opts s' = sp_opts s \<and> take (length (sp_heap s)) (sp_heap s') = sp_heap s"
  using spawn_cases [OF assms(2)] launch_err [of "s\<lparr>sp_uid := u\<rparr>" for u] assms(1) by fastforce

lemma launch_ok:
  assumes "pool_inv s" and "spawn_launch io i isol app s = (Inr a, s')"
  shows "a = length (sp_heap s) \<and> sp_apps s' = gm_set i a (sp_apps s) \<and> length (sp_heap s') = Suc a \<and>
    take a (sp_heap s') = sp_heap s \<and> sp_opts s' = sp_opts s \<and> sp_host s' = sp_host s \<and> sp_uid s' = sp_uid s \<and> pool_inv s' \<and>
    a_ID (app_at s' a) = a_ID app \<and> a_done (app_at s' a) = a_done app \<and> a_Port (app_at s' a) = a_Port app \<and>
    a_runAs (app_at s' a) = a_runAs app \<and> a_runAsRoot (app_at s' a) = a_runAsRoot app \<and> a_cg (app_at s' a) = a_cg app \<and>
    a_status (app_at s' a) = StatusRunning \<and> a_watch (app_at s' a) = WWait \<and>
    (\<forall>c. runs_config c (app_at s' a) = runs_config c app) \<and>
    (\<exists>pid. st_pid (sio_start io) = Some pid \<and> a_cmd (app_at s' a) = Some pid \<and> sp_live s' = pid # sp_live s)"
proof -
  let ?a = "length (sp_heap s)" and ?s2 = "s\<lparr>sp_heap := sp_heap s @ [app]\<rparr>"
  have inv2: "pool_inv ?s2" and a2: "?a < length (sp_heap ?s2)" using assms(1) by simp_all
  obtain ne s3 where net: "(if isol then setupAppNetwork (sio_net io) ?a ?s2 else (None, ?s2)) = (ne, s3)"
    by (metis surj_pair)
  obtain se s4 where start: "startLocked (sio_start io) ?a s3 = (se, s4)" by (metis surj_pair)
  note run = assms(2) [unfolded spawn_launch_def Let_def net start prod.case]
  from run have ne: "ne = None" and se: "se = None" and a: "a = ?a"
    and s': "s' = upd_app ?a (\<lambda>x. x\<lparr>a_watch := WWait\<rparr>) (s4\<lparr>sp_apps := gm_set i ?a (sp_apps s4)\<rparr>)"
    by (auto split: option.splits if_splits)
  note fr = net_step_frame [OF inv2 net [unfolded ne] a2]
  note st = startLocked_ok [OF start [unfolded se]]
  show ?thesis unfolding a s' using fr st by (auto simp: take_upd_app pool_inv_def)
qed

lemma spawn_ok:
  assumes "pool_inv s" and "spawnUnchecked io cfg s = (Inr a, s')"
  shows "cfg_ID cfg \<noteq> [] \<and> gm_get (sp_apps s) (cfg_ID cfg) = None \<and>
    a = length (sp_heap s) \<and> sp_apps s' = gm_set (cfg_ID cfg) a (sp_apps s) \<and> length (sp_heap s') = Suc a \<and>
    take a (sp_heap s') = sp_heap s \<and> sp_opts s' = sp_opts s \<and> sp_host s' = sp_host s \<and> pool_inv s' \<and>
    a_ID (app_at s' a) = cfg_ID cfg \<and> \<not> a_done (app_at s' a) \<and> a_Port (app_at s' a) = cfg_Port cfg \<and>
    a_status (app_at s' a) = StatusRunning \<and> a_watch (app_at s' a) = WWait \<and>
    (cfg_CgroupLimits cfg \<noteq> None \<longrightarrow> a_cg (app_at s' a) = Some (cfg_ID cfg)) \<and> runs_config cfg (app_at s' a) \<and>
    (\<exists>pid. a_cmd (app_at s' a) = Some pid \<and> sp_live s' = pid # sp_live s)"
proof -
  from spawn_cases [OF assms(2)] obtain u isol app where *: "cfg_ID cfg \<noteq> []" "gm_get (sp_apps s) (cfg_ID cfg) = None"
    "spawn_launch io (cfg_ID cfg) isol app (s\<lparr>sp_uid := u\<rparr>) = (Inr a, s')"
    "a_ID app = cfg_ID cfg" "a_done app = False" "a_Port app = cfg_Port cfg"
    "cfg_CgroupLimits cfg \<noteq> None \<longrightarrow> a_cg app = Some (cfg_ID cfg)" "runs_config cfg app" by auto
  from launch_ok [OF _ *(3)] assms(1) * show ?thesis by auto
qed

text \<open>The identity of a spawned app is the one its configuration names, unless it names none.\<close>

lemma applyDefaultSandbox_identity:
  "cfg_RunAs (applyDefaultSandbox h cfg) = cfg_RunAs cfg \<and> cfg_RunAsRoot (applyDefaultSandbox h cfg) = cfg_RunAsRoot cfg"
  by (simp add: applyDefaultSandbox_def split: option.split)

lemma resolveRunAs_identity:
  "resolveRunAsLocked o' h io ow cfg st = (Inr cfg', st') \<Longrightarrow> cfg_RunAsRoot cfg' = cfg_RunAsRoot cfg \<and>
   (cfg_RunAsRoot cfg \<longrightarrow> cfg_RunAs cfg' = None) \<and>
   (\<not> cfg_RunAsRoot cfg \<longrightarrow> cfg_RunAs cfg \<noteq> None \<longrightarrow> cfg_RunAs cfg' = cfg_RunAs cfg)"
  by (auto simp: resolveRunAsLocked_def Let_def split: if_splits option.splits prod.splits)

lemma spawn_identity:
  assumes "pool_inv s" and "spawnUnchecked io cfg s = (Inr a, s')"
  shows "a_runAsRoot (app_at s' a) = cfg_RunAsRoot cfg" and "cfg_RunAsRoot cfg \<Longrightarrow> a_runAs (app_at s' a) = None"
    and "\<not> cfg_RunAsRoot cfg \<Longrightarrow> cfg_RunAs cfg \<noteq> None \<Longrightarrow> a_runAs (app_at s' a) = cfg_RunAs cfg"
proof -
  from spawn_cases [OF assms(2)] obtain u isol app cfg2 where *:
    "spawn_launch io (cfg_ID cfg) isol app (s\<lparr>sp_uid := u\<rparr>) = (Inr a, s')"
    "resolveRunAsLocked (sp_opts s) (sp_host s) (sio_persist io) (owners_of s)
       (if DisableDefaultSandbox (sp_opts s) then cfg else applyDefaultSandbox (sp_host s) cfg) (sp_uid s) = (Inr cfg2, u)"
    "a_runAs app = cfg_RunAs cfg2" "a_runAsRoot app = cfg_RunAsRoot cfg2" by auto
  have "pool_inv (s\<lparr>sp_uid := u\<rparr>)" using assms(1) by simp
  from launch_ok [OF this *(1)] have at: "a_runAs (app_at s' a) = cfg_RunAs cfg2" "a_runAsRoot (app_at s' a) = cfg_RunAsRoot cfg2"
    using *(3,4) by auto
  note r = resolveRunAs_identity [OF *(2)] applyDefaultSandbox_identity [of "sp_host s" cfg]
  show "a_runAsRoot (app_at s' a) = cfg_RunAsRoot cfg" and "cfg_RunAsRoot cfg \<Longrightarrow> a_runAs (app_at s' a) = None"
    and "\<not> cfg_RunAsRoot cfg \<Longrightarrow> cfg_RunAs cfg \<noteq> None \<Longrightarrow> a_runAs (app_at s' a) = cfg_RunAs cfg"
    using r at by (auto split: if_splits)
qed

section \<open>Registry invariant\<close>

text \<open>
  Every registered address is an app of the heap that carries the id it is registered under, no address
  is registered twice, and every registered app whose \<open>done\<close> channel is open has a goroutine that will
  close it.
\<close>

definition reg_ok :: "Supervisor \<Rightarrow> bool" where
  "reg_ok s \<longleftrightarrow> gm_ok (sp_apps s) \<and> pool_inv s \<and>
     gm_all (\<lambda>i a. i \<noteq> [] \<and> a < length (sp_heap s) \<and> a_ID (app_at s a) = i) (sp_apps s)"

lemma reg_entry:
  "reg_ok s \<Longrightarrow> gm_get (sp_apps s) i = Some a \<Longrightarrow> i \<noteq> [] \<and> a < length (sp_heap s) \<and> a_ID (app_at s a) = i \<and> isTracked s a"
  unfolding reg_ok_def isTracked_def by (auto dest: gm_all_get)

lemma reg_inj: "reg_ok s \<Longrightarrow> gm_get (sp_apps s) i = Some a \<Longrightarrow> gm_get (sp_apps s) j = Some a \<Longrightarrow> i = j"
  using reg_entry by metis

lemma nth_of_take: "take n xs = ys \<Longrightarrow> n = length ys \<Longrightarrow> i < length ys \<Longrightarrow> xs ! i = ys ! i"
  by (metis nth_take)

end
