(* ===== verification/Sup_System.thy ===== *)
theory Sup_System
  imports Sup_Registry
begin

text \<open>
  The supervisor as a transition system: the public operations, the steps of the watch goroutines and of
  the probes, and the deaths of processes, one after the other. An operation that does not hold the
  registry lock throughout (Stop, Reset, Deploy, a probe) carries the operations that run in each of its
  windows; those run to completion inside the window and may have windows of their own: \<open>sup_op\<close> is
  nested. Two operations that overlap without one containing the other are not runs of this system.
\<close>

section \<open>Operations\<close>

datatype sup_op =
    OSpawn spawn_io Config
  | OStop stop_io string int "sup_op list"
  | OReset start_io string "sup_op list"
  | ODeploy deploy_io DeployConfig "sup_op list" "sup_op list" "sup_op list" "sup_op list" "Router option"
  | ODie int
  | OExit int addr
  | OWake start_io addr
  | OProbe bool bool addr "sup_op list" probe_state

definition run_all :: "('s \<Rightarrow> 's) list \<Rightarrow> 's \<Rightarrow> 's" where
  "run_all fs s = fold (\<lambda>f. f) fs s"

fun sup_exec :: "(string \<Rightarrow> bool) \<Rightarrow> (ip \<Rightarrow> string) \<Rightarrow> sup_op \<Rightarrow> Supervisor \<Rightarrow> Supervisor" where
  "sup_exec u p (OSpawn io cfg) = (\<lambda>s. snd (Spawn io cfg s))"
| "sup_exec u p (OStop io i t ops) = (\<lambda>s. snd (StopWithTimeout io i t (run_all (map (sup_exec u p) ops)) s))"
| "sup_exec u p (OReset io i ops) = (\<lambda>s. snd (Reset io i (run_all (map (sup_exec u p) ops)) s))"
| "sup_exec u p (ODeploy io dc before polling swapped stopping r) =
     (\<lambda>s. fst (snd (Deploy u p io dc
        \<lparr>de_before = run_all (map (sup_exec u p) before), de_polling = run_all (map (sup_exec u p) polling),
         de_swapped = run_all (map (sup_exec u p) swapped), de_stopping = run_all (map (sup_exec u p) stopping)\<rparr> s r)))"
| "sup_exec u p (ODie pid) = (\<lambda>s. s\<lparr>sp_live := removeAll pid (sp_live s)\<rparr>)"
| "sup_exec u p (OExit now a) =
     (\<lambda>s. if a < length (sp_heap s) \<and> a_watch (app_at s a) = WWait \<and>
            (case a_cmd (app_at s a) of None \<Rightarrow> True | Some pid \<Rightarrow> pid \<notin> set (sp_live s))
          then watch_exit now a s else s)"
| "sup_exec u p (OWake io a) =
     (\<lambda>s. if a < length (sp_heap s) \<and> a_watch (app_at s a) = WSleep then watch_wake io a s else s)"
| "sup_exec u p (OProbe healthy delivered a ops ps) =
     (\<lambda>s. if a < length (sp_heap s) \<and> \<not> a_done (app_at s a)
          then snd (snd (probe_tick healthy delivered a (run_all (map (sup_exec u p) ops)) ps s)) else s)"

section \<open>Frames\<close>

text \<open>What never changes once an app is built: its port, the user it runs as and what it executes.\<close>

definition fixed_part :: "App \<Rightarrow> int \<times> RunAs option \<times> bool \<times> string \<times> string list \<times> runtime \<times> string list \<times> string" where
  "fixed_part x = (a_Port x, a_runAs x, a_runAsRoot x, a_Command x, a_Args x, a_Runtime x, a_env x, a_HealthCheckPath x)"

declare fixed_part_def [simp]

definition ids_kept :: "Supervisor \<Rightarrow> Supervisor \<Rightarrow> bool" where
  "ids_kept s s' \<longleftrightarrow> length (sp_heap s) \<le> length (sp_heap s') \<and> sp_opts s' = sp_opts s \<and>
     (\<forall>a < length (sp_heap s). a_ID (app_at s' a) = a_ID (app_at s a) \<and> fixed_part (app_at s' a) = fixed_part (app_at s a))"

lemma ids_kept_refl [simp, intro]: "ids_kept s s"
  by (simp add: ids_kept_def)

lemma ids_kept_trans: "ids_kept s t \<Longrightarrow> ids_kept t w \<Longrightarrow> ids_kept s w"
  by (auto simp: ids_kept_def)

lemma ids_kept_runs: "ids_kept s t \<Longrightarrow> a < length (sp_heap s) \<Longrightarrow> runs_config c (app_at t a) = runs_config c (app_at s a)"
  by (simp add: ids_kept_def runs_config_def)

text \<open>The two relations every operation satisfies, bundled: the registry stays well formed and existing
  apps keep their ids and ports.\<close>

definition good :: "Supervisor \<Rightarrow> Supervisor \<Rightarrow> bool" where
  "good s s' \<longleftrightarrow> (reg_ok s \<longrightarrow> reg_ok s' \<and> ids_kept s s')"

lemma good_refl [simp, intro]: "good s s"
  by (simp add: good_def)

lemma good_trans: "good s t \<Longrightarrow> good t w \<Longrightarrow> good s w"
  by (auto simp: good_def intro: ids_kept_trans)

lemma good_upd [intro]: "(\<And>x. a_ID (f x) = a_ID x \<and> fixed_part (f x) = fixed_part x) \<Longrightarrow> good s (upd_app a f s)"
  by (auto simp: good_def ids_kept_def reg_ok_def gm_all_def app_at_upd)

lemma good_fields [simp, intro]:
  "good s (s\<lparr>sp_live := l\<rparr>)" "good s (s\<lparr>sp_uid := w\<rparr>)" "good s (s\<lparr>sp_apps := gm_del i (sp_apps s)\<rparr>)"
  by (auto simp: good_def ids_kept_def reg_ok_def pool_inv_def)

lemma good_pool: "(pool_inv s \<Longrightarrow> pool_ok q) \<Longrightarrow> good s (s\<lparr>sp_pool := Some q\<rparr>)"
  by (auto simp: good_def ids_kept_def reg_ok_def pool_inv_def)

lemma good_register:
  "(reg_ok s \<Longrightarrow> a < length (sp_heap s) \<and> a_ID (app_at s a) = i \<and> i \<noteq> []) \<Longrightarrow>
   good s (s\<lparr>sp_apps := gm_set i a (sp_apps s)\<rparr>)"
  by (auto simp: good_def ids_kept_def reg_ok_def)

lemma good_reregister:
  assumes "good s t" and "reg_ok s \<Longrightarrow> a < length (sp_heap s) \<and> a_ID (app_at s a) = i \<and> i \<noteq> []"
  shows "good s (t\<lparr>sp_apps := gm_set i a (sp_apps t)\<rparr>)"
  unfolding good_def
proof
  assume s: "reg_ok s"
  with assms(1) have t: "reg_ok t" "ids_kept s t" by (simp_all add: good_def)
  with assms(2) [OF s] have "a < length (sp_heap t) \<and> a_ID (app_at t a) = i \<and> i \<noteq> []"
    by (simp add: ids_kept_def)
  with good_register [of t a i] t have "reg_ok (t\<lparr>sp_apps := gm_set i a (sp_apps t)\<rparr>)"
    by (simp add: good_def)
  with t show "reg_ok (t\<lparr>sp_apps := gm_set i a (sp_apps t)\<rparr>) \<and> ids_kept s (t\<lparr>sp_apps := gm_set i a (sp_apps t)\<rparr>)"
    by (simp add: ids_kept_def)
qed

lemma good_teardown: "good s (teardownAppNetwork a s)"
proof -
  let ?s1 = "upd_app a (\<lambda>x. x\<lparr>a_netNS := None\<rparr>) s"
  have 1: "good s ?s1" by (rule good_upd) simp
  have 2: "good ?s1 (upd_app a (\<lambda>x. x\<lparr>a_NetIP := None\<rparr>) (?s1\<lparr>sp_pool := Some (Release_ip (Some y) q)\<rparr>))"
    if "sp_pool s = Some q" for y q
  proof (rule good_trans [OF good_pool])
    show "pool_inv ?s1 \<Longrightarrow> pool_ok (Release_ip (Some y) q)"
      using that by (simp add: pool_inv_def Release_ip_ok)
  qed auto
  show ?thesis
    using good_trans [OF 1 2] 1 by (auto simp: teardownAppNetwork_def Let_def split: option.split)
qed

lemma good_watch_return: "good s (watch_return a s)"
  unfolding watch_return_def by (rule good_upd) simp

lemma good_startLocked: "good s (snd (startLocked io a s))"
proof -
  have 1: "good s (upd_app a (\<lambda>x. x\<lparr>a_status := StatusStarting\<rparr>) s)" by (rule good_upd) simp
  have 2: "good t (upd_app a (\<lambda>x. x\<lparr>a_status := StatusCrashed\<rparr>) t)" for t by (rule good_upd) simp
  have 3: "good t ((upd_app a (\<lambda>x. x\<lparr>a_cmd := Some pid, a_status := StatusRunning, a_startedAt := n\<rparr>) t)\<lparr>sp_live := l\<rparr>)"
    for t pid n l
    by (rule good_trans [OF good_upd good_fields(1)]) simp
  show ?thesis
    unfolding startLocked_def Let_def using good_trans [OF 1 2] good_trans [OF 1 3]
    by (auto split: option.split)
qed

lemma good_die_app: "good s (die_app a s)"
  by (simp add: die_app_def split: option.split)

lemma good_exit_app: "good s (exit_app a s)"
proof -
  have 2: "good t (watch_return a (upd_app a (\<lambda>x. x\<lparr>a_status := StatusStopped\<rparr>) t))" for t
    by (rule good_trans [OF good_upd good_watch_return]) simp
  show ?thesis unfolding exit_app_def by (rule good_trans [OF good_die_app 2])
qed

lemma good_cleanup: "good s (stop_cleanup a s)"
  unfolding stop_cleanup_def by (rule good_trans [OF good_upd good_teardown]) simp

lemma good_stopApp: "good s (snd (stopApp io t a s))"
proof -
  obtain res s1 where ph: "stop_phases io t a s = (res, s1)" by (metis surj_pair)
  have "good s (snd (stop_phases io t a s))"
    by (auto simp: stop_phases_def escalateAndWait_def good_exit_app good_die_app)
  then have "good s s1" by (simp add: ph)
  then show ?thesis
    using good_trans [OF _ good_cleanup] good_cleanup by (simp add: stopApp_def ph)
qed

lemma take_len: "take (length xs) ys = xs \<Longrightarrow> length xs \<le> length ys \<and> (\<forall>i < length xs. ys ! i = xs ! i)"
proof (intro conjI allI impI)
  assume e: "take (length xs) ys = xs"
  then have "length (take (length xs) ys) = length xs" by simp
  then show "length xs \<le> length ys" by simp
  show "ys ! i = xs ! i" if "i < length xs" for i using nth_of_take [OF e refl that] .
qed

lemma good_spawn: "good s (snd (spawnUnchecked io cfg s))"
proof -
  obtain r s' where run: "spawnUnchecked io cfg s = (r, s')" by (metis surj_pair)
  have "reg_ok s' \<and> ids_kept s s'" if ok: "reg_ok s"
  proof -
    from ok have pool: "pool_inv s" by (simp add: reg_ok_def)
    show ?thesis
    proof (cases r)
      case (Inl e)
      from spawn_err [OF pool run [unfolded Inl]] ok show ?thesis
        using take_len [of "sp_heap s" "sp_heap s'"]
        by (auto simp: reg_ok_def ids_kept_def pool_inv_def gm_all_def)
    next
      case (Inr a)
      note sp = spawn_ok [OF pool run [unfolded Inr]]
      note old = take_len [of "sp_heap s" "sp_heap s'"]
      have "gm_all (\<lambda>i a. i \<noteq> [] \<and> a < length (sp_heap s') \<and> a_ID (app_at s' a) = i) (sp_apps s)"
        using ok [unfolded reg_ok_def, THEN conjunct2, THEN conjunct2] by (rule gm_all_mono) (use sp old in auto)
      then show ?thesis using sp ok old by (auto simp: reg_ok_def ids_kept_def)
    qed
  qed
  then show ?thesis by (simp add: good_def run)
qed


lemma good_Spawn: "good s (snd (Spawn io cfg s))"
  by (simp add: Spawn_def good_spawn split: option.split)

lemma good_Stop:
  assumes env: "\<And>t. good t (env t)"
  shows "good s (snd (StopWithTimeout io i t env s))"
proof (cases "gm_get (sp_apps s) i")
  case None
  then show ?thesis by (simp add: StopWithTimeout_def)
next
  case (Some a)
  let ?s0 = "s\<lparr>sp_apps := gm_del i (sp_apps s)\<rparr>"
  obtain res s1 where st: "stopApp io t a (env ?s0) = (res, s1)" by (metis surj_pair)
  have s1: "good s s1"
    using good_trans [OF good_trans [OF good_fields(3) env] good_stopApp [of "env ?s0" io t a]]
    unfolding st snd_conv .
  have "good s (s1\<lparr>sp_apps := gm_set i a (sp_apps s1)\<rparr>)"
    by (rule good_reregister [OF s1]) (use reg_entry [of s i a] Some in simp)
  with s1 show ?thesis
    by (cases res; cases "gm_get (sp_apps s1) i") (simp_all add: StopWithTimeout_def Some st)
qed

lemma good_Reset:
  assumes env: "\<And>t. good t (env t)"
  shows "good s (snd (Reset io i env s))"
proof -
  have 1: "good t (upd_app a (resetDone \<circ> clearRestarts) t)" for a t
    by (rule good_upd) (simp add: resetDone_def clearRestarts_def)
  have 2: "good t (snd (startLocked io a (upd_app a (resetDone \<circ> clearRestarts) t)))" for a t
    by (rule good_trans [OF 1 good_startLocked])
  have 3: "good t (upd_app a (\<lambda>x. x\<lparr>a_watch := WWait\<rparr>) t)" for a t by (rule good_upd) simp
  have 4: "good t s' \<and> good t (upd_app a (\<lambda>x. x\<lparr>a_watch := WWait\<rparr>) s')"
    if "startLocked io a (upd_app a (resetDone \<circ> clearRestarts) t) = (e, s')" for a t e s'
    using 2 [of t a] 3 that good_trans [OF _ 3] by simp
  show ?thesis
  proof (cases "gm_get (sp_apps s) i")
    case None
    then show ?thesis by (simp add: Reset_def)
  next
    case (Some a)
    obtain e s' where st: "startLocked io a (upd_app a (resetDone \<circ> clearRestarts) (env s)) = (e, s')"
      by (metis surj_pair)
    have "good s s'" "good s (upd_app a (\<lambda>x. x\<lparr>a_watch := WWait\<rparr>) s')"
      using 4 [OF st] good_trans [OF env] by blast+
    then show ?thesis using env by (simp add: Reset_def Let_def Some st split: option.split)
  qed
qed


lemma deployTempID_neq: "deployTempID i \<noteq> i"
  by (simp add: deployTempID_def)

lemma inheritIdentity_ID [simp]: "cfg_ID (inheritIdentity c r b) = cfg_ID c" "cfg_Port (inheritIdentity c r b) = cfg_Port c"
  by (simp_all add: inheritIdentity_def)

text \<open>After the swap only the new version is registered under the id, and the temporary key is gone.\<close>

lemma reg_rename_swap:
  assumes "reg_ok s" and "v2 < length (sp_heap s)" and "a_ID (app_at s v2) = deployTempID i" and "i \<noteq> []"
  shows "reg_ok (rename_swap i v2 s)"
proof -
  let ?m = "gm_del i (gm_del (deployTempID i) (sp_apps s))"
  have entry: "k \<noteq> [] \<and> v < length (sp_heap s) \<and> a_ID (app_at s v) = k \<and> v \<noteq> v2" if "gm_get ?m k = Some v" for k v
    using that reg_entry [OF assms(1), of k v] assms(3) by (auto split: if_splits)
  have ok: "gm_ok ?m" using assms(1) by (simp add: reg_ok_def)
  have "gm_all (\<lambda>k v. k \<noteq> [] \<and> v < length (sp_heap s) \<and>
      a_ID (app_at (upd_app v2 (\<lambda>x. x\<lparr>a_ID := i\<rparr>) s) v) = k) ?m"
    unfolding gm_all_iff [OF ok] using entry by (auto simp: app_at_upd simp del: gm_get_del)
  then show ?thesis
    using assms ok by (auto simp: reg_ok_def rename_swap_def pool_inv_def)
qed

lemma good_Deploy_swap:
  assumes "reg_ok s" and "v2 < length (sp_heap s)" and "a_ID (app_at s v2) = deployTempID i" and "i \<noteq> []"
    and "gm_get (sp_apps s) i = Some v1" and env: "windows (\<lambda>f. \<forall>t. good t (f t)) env"
  shows "reg_ok (fst (snd (deploy_swap u p io env i t v1 v2 s r))) \<and>
    good (rename_swap i v2 s) (fst (snd (deploy_swap u p io env i t v1 v2 s r)))"
proof -
  let ?s3 = "rename_swap i v2 s" and ?s4 = "de_swapped env (rename_swap i v2 s)"
  have r3: "reg_ok ?s3" by (rule reg_rename_swap) (use assms in auto)
  have v1: "v1 < length (sp_heap s)" "a_ID (app_at s v1) = i" using reg_entry [OF assms(1,5)] by auto
  then have ne: "v1 \<noteq> v2" using assms(3) deployTempID_neq by metis
  have v13: "v1 < length (sp_heap ?s3) \<and> a_ID (app_at ?s3 v1) = i \<and> i \<noteq> []"
    using v1 ne assms(4) by (simp add: rename_swap_def app_at_upd)
  have w: "good a (de_swapped env a)" "good a (de_stopping env a)" for a using env by (simp_all add: windows_def)
  let ?undone = "?s4\<lparr>sp_apps := gm_set i v1 (gm_del i (sp_apps ?s4))\<rparr>"
  have undo: "good ?s3 ?undone"
    using good_reregister [OF good_trans [OF w(1) good_fields(3) [of ?s4 i]], of v1 i] v13 by simp
  obtain fe fr where fl: "flip_route u p i (app_at ?s4 v2) r = (fe, fr)" by (metis surj_pair)
  have "good ?s3 (fst (snd (deploy_swap u p io env i t v1 v2 s r)))"
    using good_trans [OF good_trans [OF undo w(2)] good_stopApp] good_trans [OF good_trans [OF w(1) w(2)] good_stopApp]
    by (cases fe) (simp_all add: deploy_swap_def Let_def fl)
  with r3 show ?thesis by (simp add: good_def)
qed

lemma ids_kept_swap: "ids_kept s s2 \<Longrightarrow> length (sp_heap s) \<le> v2 \<Longrightarrow> ids_kept s (rename_swap i v2 s2)"
  by (auto simp: ids_kept_def rename_swap_def app_at_upd)

lemma good_Deploy:
  assumes env: "windows (\<lambda>f. \<forall>t. good t (f t)) env"
  shows "good s (fst (snd (Deploy u p io dc env s r)))"
proof -
  let ?i = "cfg_ID (dc_Config dc)" and ?s0 = "de_before env s"
  have w: "good a (de_before env a)" "good a (de_polling env a)" "good a (de_stopping env a)" for a
    using env by (simp_all add: windows_def)
  show ?thesis
  proof (cases "gm_get (sp_apps s) ?i")
    case None
    then show ?thesis by (simp add: Deploy_def Let_def)
  next
    case (Some v1)
    let ?cfg = "inheritIdentity ((dc_Config dc)\<lparr>cfg_ID := deployTempID ?i\<rparr>) (a_runAs (app_at s v1)) (a_runAsRoot (app_at s v1))"
    obtain res s1 where sp: "spawnUnchecked (dio_spawn io) ?cfg ?s0 = (res, s1)" by (metis surj_pair)
    let ?s2 = "de_polling env s1"
    have g01: "good ?s0 s1" using good_spawn [of ?s0 "dio_spawn io" ?cfg] by (simp add: sp)
    have g1: "good s s1" by (rule good_trans [OF w(1) g01])
    have g2: "good s ?s2" by (rule good_trans [OF g1 w(2)])
    have ab: "good s (snd (StopWithTimeout (dio_stop_v2 io) (deployTempID ?i) (GracefulShutdownTimeout (sp_opts s)) (de_stopping env) ?s2))"
      by (rule good_trans [OF g2 good_Stop]) (rule w(3))
    have sw: "good s (fst (snd (deploy_swap u p io env ?i t v1 v2 ?s2 r)))"
      if "res = Inr v2" "?i \<noteq> []" "gm_get (sp_apps ?s2) ?i = Some v1" for v2 t
      unfolding good_def
    proof
      assume ok: "reg_ok s"
      then have ok0: "reg_ok ?s0" "ids_kept s ?s0" using w(1) by (auto simp: good_def)
      then have "pool_inv ?s0" by (simp add: reg_ok_def)
      note so = spawn_ok [OF this sp [unfolded that(1)]]
      have e: "reg_ok ?s2" "ids_kept s1 ?s2" using g1 w(2) ok by (auto simp: good_def)
      have v2: "v2 < length (sp_heap ?s2)" "a_ID (app_at ?s2 v2) = deployTempID ?i" "length (sp_heap s) \<le> v2"
        using so e(2) ok0(2) by (auto simp: ids_kept_def)
      note s = good_Deploy_swap [OF e(1) v2(1,2) that(2,3) env]
      have "ids_kept s (rename_swap ?i v2 ?s2)" using g2 ok v2(3) by (auto simp: good_def intro: ids_kept_swap)
      moreover have "reg_ok (rename_swap ?i v2 ?s2)" by (rule reg_rename_swap [OF e(1) v2(1,2) that(2)])
      ultimately show "reg_ok (fst (snd (deploy_swap u p io env ?i t v1 v2 ?s2 r))) \<and>
          ids_kept s (fst (snd (deploy_swap u p io env ?i t v1 v2 ?s2 r)))"
        using s ids_kept_trans by (auto simp: good_def)
    qed
    show ?thesis
      using g1 ab sw by (cases res) (auto simp: Deploy_def Let_def Some sp split: option.split)
  qed
qed


lemma good_set_return: "good s (watch_return a (upd_app a (\<lambda>x. x\<lparr>a_status := st\<rparr>) s))"
  by (rule good_trans [OF good_upd good_watch_return]) simp

lemma good_watch_exit: "good s (watch_exit now a s)"
proof (cases "a_cmd (app_at s a)")
  case None
  then show ?thesis by (simp add: watch_exit_def good_watch_return)
next
  case (Some pid)
  obtain n app where rr: "recordRestart now (RestartWindow (sp_opts s)) ((app_at s a)\<lparr>a_status := StatusCrashed\<rparr>) = (n, app)"
    by (metis surj_pair)
  then have "a_ID app = a_ID (app_at s a) \<and> fixed_part app = fixed_part (app_at s a)" by (auto simp: recordRestart_def Let_def)
  then have 1: "good s (upd_app a (\<lambda>_. app) s)"
    by (auto simp: good_def ids_kept_def reg_ok_def gm_all_def app_at_upd)
  have 2: "good t (upd_app a (\<lambda>x. x\<lparr>a_watch := WSleep\<rparr>) t)" for t by (rule good_upd) simp
  show ?thesis
    using good_set_return good_trans [OF 1 good_set_return] good_trans [OF 1 2]
    by (simp add: watch_exit_def Some rr Let_def)
qed

lemma good_watch_wake: "good s (watch_wake io a s)"
proof (cases "isTracked s a")
  case False
  then show ?thesis by (simp add: watch_wake_def good_set_return)
next
  case True
  obtain err s1 where st: "startLocked io a s = (err, s1)" by (metis surj_pair)
  have g1: "good s s1" using good_startLocked [of s io a] by (simp add: st)
  have 2: "good t (upd_app a (\<lambda>x. x\<lparr>a_watch := WWait\<rparr>) t)" for t by (rule good_upd) simp
  have 3: "good s1 (if isTracked s1 a then s1\<lparr>sp_apps := gm_del (a_ID (app_at s1 a)) (sp_apps s1)\<rparr> else s1)" by simp
  show ?thesis
    using good_trans [OF g1 2] good_trans [OF good_trans [OF g1 3] good_set_return] True
    by (cases err) (simp_all add: watch_wake_def Let_def st)
qed

lemma good_probe:
  assumes env: "\<And>t. good t (env t)"
  shows "good s (snd (snd (probe_tick healthy delivered a env ps s)))"
proof -
  have 1: "good s (upd_app a (\<lambda>x. x\<lparr>a_status := st\<rparr>) s)" for s st by (rule good_upd) simp
  have 2: "good s (upd_app a (\<lambda>x. x\<lparr>a_healthFailures := wrap64 (a_healthFailures x + 1)\<rparr>) (env s))"
    by (rule good_trans [OF env good_upd]) simp
  show ?thesis
    using env 2 good_trans [OF env 1] good_trans [OF 2 1] good_trans [OF 2 good_fields(1)]
    by (simp add: probe_tick_def Let_def split: option.split)
qed

lemma good_run_all: "(\<And>f. f \<in> set fs \<Longrightarrow> \<forall>s. good s (f s)) \<Longrightarrow> good s (run_all fs s)"
proof (induction fs arbitrary: s)
  case Nil
  show ?case by (simp add: run_all_def)
next
  case (Cons f fs)
  have "good (f s) (run_all fs (f s))" using Cons by simp
  with Cons.prems [of f] show ?case using good_trans [of s "f s"] by (simp add: run_all_def)
qed

lemma good_exec: "good s (sup_exec u p op s)"
proof (induction op arbitrary: s)
  case (OStop io i t ops)
  show ?case unfolding sup_exec.simps by (rule good_Stop, rule good_run_all) (use OStop in auto)
next
  case (OReset io i ops)
  show ?case unfolding sup_exec.simps by (rule good_Reset, rule good_run_all) (use OReset in auto)
next
  case (ODeploy io dc before polling swapped stopping r)
  have "good t (run_all (map (sup_exec u p) ops) t)" if "ops \<in> {before, polling, swapped, stopping}" for t ops
    by (rule good_run_all) (use ODeploy that in auto)
  then show ?case unfolding sup_exec.simps by (intro good_Deploy) (simp add: windows_def)
next
  case (OProbe healthy delivered a ops ps)
  have "good t (run_all (map (sup_exec u p) ops) t)" for t by (rule good_run_all) (use OProbe in auto)
  then show ?case by (simp add: good_probe)
qed (auto simp: good_Spawn good_watch_exit good_watch_wake)

interpretation sup_sys: monotone_system "sup_exec u p" "\<lambda>_. True" reg_ok ids_kept for u p
proof
  show "reg_ok s \<Longrightarrow> reg_ok (sup_exec u p op s)" for s op
    using good_exec [of s u p op] by (simp add: good_def)
  show "reg_ok s \<Longrightarrow> ids_kept s (sup_exec u p op s)" for s op
    using good_exec [of s u p op] by (simp add: good_def)
  show "ids_kept s t \<Longrightarrow> ids_kept t w \<Longrightarrow> ids_kept s w" for s t w by (rule ids_kept_trans)
qed auto

section \<open>No stop waits forever\<close>

text \<open>
  An app whose process was started has a closed \<open>done\<close> channel, or a watch goroutine that will close it.
\<close>

definition watched :: "App \<Rightarrow> bool" where
  "watched x \<longleftrightarrow> a_cmd x = None \<or> a_done x \<or> a_watch x \<noteq> WNone"

definition all_watched :: "Supervisor \<Rightarrow> bool" where
  "all_watched s \<longleftrightarrow> list_all watched (sp_heap s)"

text \<open>Every Reset in the run starts its process, also those inside other operations.\<close>

fun resets_start :: "sup_op \<Rightarrow> bool" where
  "resets_start (OReset io i ops) \<longleftrightarrow> st_sandbox io \<and> st_pid io \<noteq> None \<and> list_all resets_start ops"
| "resets_start (OStop io i t ops) \<longleftrightarrow> list_all resets_start ops"
| "resets_start (ODeploy io dc before polling swapped stopping r) \<longleftrightarrow>
     list_all resets_start before \<and> list_all resets_start polling \<and>
     list_all resets_start swapped \<and> list_all resets_start stopping"
| "resets_start (OProbe healthy delivered a ops ps) \<longleftrightarrow> list_all resets_start ops"
| "resets_start op \<longleftrightarrow> True"


definition wk :: "Supervisor \<Rightarrow> Supervisor \<Rightarrow> bool" where
  "wk s s' \<longleftrightarrow> (all_watched s \<longrightarrow> all_watched s')"

lemma wk_refl [simp, intro]: "wk s s"
  by (simp add: wk_def)

lemma wk_trans: "wk s t \<Longrightarrow> wk t w \<Longrightarrow> wk s w"
  by (simp add: wk_def)

lemma wk_upd: "(watched (app_at s a) \<Longrightarrow> watched (f (app_at s a))) \<Longrightarrow> wk s (upd_app a f s)"
  by (auto simp: wk_def all_watched_def list_all_length app_at_upd)

lemma wk_fields [simp, intro]:
  "wk s (s\<lparr>sp_live := l\<rparr>)" "wk s (s\<lparr>sp_uid := w\<rparr>)" "wk s (s\<lparr>sp_apps := m\<rparr>)" "wk s (s\<lparr>sp_pool := q\<rparr>)"
  by (auto simp: wk_def all_watched_def)

lemma wk_upd_other [intro]:
  "(\<And>x. a_cmd (f x) = a_cmd x \<and> a_done (f x) = a_done x \<and> a_watch (f x) = a_watch x) \<Longrightarrow> wk s (upd_app a f s)"
  by (rule wk_upd) (simp add: watched_def)

lemma wk_closing [intro]: "(\<And>x. a_done (f x)) \<Longrightarrow> wk s (upd_app a f s)"
  by (rule wk_upd) (simp add: watched_def)

lemma wk_waiting [intro]: "(\<And>x. a_watch (f x) \<noteq> WNone) \<Longrightarrow> wk s (upd_app a f s)"
  by (rule wk_upd) (simp add: watched_def)

lemma wk_setup: "wk s (snd (setupAppNetwork io a s))"
proof -
  have 1: "wk s (upd_app a (\<lambda>x. x\<lparr>a_NetIP := Some y, a_netNS := Some (a_ID x)\<rparr>) (s\<lparr>sp_pool := q\<rparr>))" for y q
    by (rule wk_trans [OF wk_fields(4) wk_upd_other]) simp
  show ?thesis unfolding setupAppNetwork_def using 1
    by (auto split: option.split prod.split sum.split)
qed

lemma wk_teardown: "wk s (teardownAppNetwork a s)"
proof -
  let ?s1 = "upd_app a (\<lambda>x. x\<lparr>a_netNS := None\<rparr>) s"
  have 1: "wk s ?s1" by (rule wk_upd_other) simp
  have 2: "wk ?s1 (upd_app a (\<lambda>x. x\<lparr>a_NetIP := None\<rparr>) (?s1\<lparr>sp_pool := q\<rparr>))" for q
    by (rule wk_trans [OF wk_fields(4) wk_upd_other]) simp
  show ?thesis
    using wk_trans [OF 1 2] 1 by (auto simp: teardownAppNetwork_def Let_def split: option.split)
qed

lemma wk_watch_return: "wk s (watch_return a s)"
  unfolding watch_return_def by (rule wk_closing) simp

lemma wk_start_err: "startLocked io a s = (Some e, s') \<Longrightarrow> wk s s'"
proof -
  have "wk s (upd_app a (\<lambda>x. x\<lparr>a_status := StatusCrashed\<rparr>) (upd_app a (\<lambda>x. x\<lparr>a_status := StatusStarting\<rparr>) s))"
    by (rule wk_trans [OF wk_upd_other wk_upd_other]) simp_all
  moreover assume "startLocked io a s = (Some e, s')"
  ultimately show ?thesis by (auto simp: startLocked_def Let_def split: if_splits option.splits)
qed

text \<open>A start that is followed by handing the app to a watch goroutine.\<close>

lemma wk_start_ok:
  assumes "startLocked io a s = (None, s')"
  shows "wk s (upd_app a (\<lambda>x. x\<lparr>a_watch := WWait\<rparr>) (s'\<lparr>sp_apps := m\<rparr>))"
proof -
  obtain pid where s': "s' = (upd_app a (\<lambda>x. x\<lparr>a_cmd := Some pid, a_status := StatusRunning, a_startedAt := st_now io\<rparr>)
      (upd_app a (\<lambda>x. x\<lparr>a_status := StatusStarting\<rparr>) s))\<lparr>sp_live := pid # sp_live s\<rparr>"
    using assms by (auto simp: startLocked_def Let_def split: if_splits option.splits)
  show ?thesis
    by (auto simp: wk_def all_watched_def list_all_length s' app_at_upd watched_def)
qed

lemma wk_launch:
  assumes "a_cmd app = None"
  shows "wk s (snd (spawn_launch io i isol app s))"
proof -
  let ?a = "length (sp_heap s)" and ?s2 = "s\<lparr>sp_heap := sp_heap s @ [app]\<rparr>"
  have 2: "wk s ?s2" using assms by (auto simp: wk_def all_watched_def watched_def)
  obtain ne s3 where net: "(if isol then setupAppNetwork (sio_net io) ?a ?s2 else (None, ?s2)) = (ne, s3)"
    by (metis surj_pair)
  obtain se s4 where start: "startLocked (sio_start io) ?a s3 = (se, s4)" by (metis surj_pair)
  have "wk ?s2 (snd (if isol then setupAppNetwork (sio_net io) ?a ?s2 else (None, ?s2)))"
    by (simp add: wk_setup)
  with 2 have 3: "wk s s3" unfolding net by (auto intro: wk_trans)
  then have 4: "wk s (teardownAppNetwork ?a s3)" by (rule wk_trans [OF _ wk_teardown])
  show ?thesis
  proof (cases se)
    case None
    have "wk s (upd_app ?a (\<lambda>x. x\<lparr>a_watch := WWait\<rparr>) (s4\<lparr>sp_apps := gm_set i ?a (sp_apps s4)\<rparr>))"
      by (rule wk_trans [OF 3 wk_start_ok [OF start [unfolded None]]])
    then show ?thesis
      unfolding spawn_launch_def Let_def net start prod.case using 3 4 None by (simp split: option.split)
  next
    case (Some e)
    have "wk s (teardownAppNetwork ?a s4)"
      by (rule wk_trans [OF wk_trans [OF 3 wk_start_err [OF start [unfolded Some]]] wk_teardown])
    then show ?thesis
      unfolding spawn_launch_def Let_def net start prod.case using 3 4 Some by (simp split: option.split)
  qed
qed

lemma wk_spawn: "wk s (snd (spawnUnchecked io cfg s))"
proof -
  obtain r s' where run: "spawnUnchecked io cfg s = (r, s')" by (metis surj_pair)
  from spawn_cases [OF run] show ?thesis unfolding run snd_conv
  proof (elim disjE exE conjE)
    fix e w assume "s' = s\<lparr>sp_uid := w\<rparr>"
    then show "wk s s'" by simp
  next
    fix w isol app assume "spawn_launch io (cfg_ID cfg) isol app (s\<lparr>sp_uid := w\<rparr>) = (r, s')" "a_cmd app = None"
    then show "wk s s'" using wk_launch [of app "s\<lparr>sp_uid := w\<rparr>" io "cfg_ID cfg" isol] wk_trans [OF wk_fields(2)]
      by fastforce
  qed
qed


lemma wk_die_app: "wk s (die_app a s)"
  by (simp add: die_app_def split: option.split)

lemma wk_exit_app: "wk s (exit_app a s)"
proof -
  have 2: "wk t (watch_return a (upd_app a (\<lambda>x. x\<lparr>a_status := StatusStopped\<rparr>) t))" for t
    by (rule wk_trans [OF wk_upd_other wk_watch_return]) simp
  show ?thesis unfolding exit_app_def by (rule wk_trans [OF wk_die_app 2])
qed

lemma wk_cleanup: "wk s (stop_cleanup a s)"
  unfolding stop_cleanup_def by (rule wk_trans [OF wk_upd_other wk_teardown]) simp

lemma wk_stopApp: "wk s (snd (stopApp io t a s))"
proof -
  obtain res s1 where ph: "stop_phases io t a s = (res, s1)" by (metis surj_pair)
  have "wk s (snd (stop_phases io t a s))"
    by (auto simp: stop_phases_def escalateAndWait_def wk_exit_app wk_die_app)
  then have "wk s s1" by (simp add: ph)
  then show ?thesis
    using wk_trans [OF _ wk_cleanup] wk_cleanup by (simp add: stopApp_def ph)
qed

lemma wk_Stop:
  assumes env: "\<And>t. wk t (env t)"
  shows "wk s (snd (StopWithTimeout io i t env s))"
proof (cases "gm_get (sp_apps s) i")
  case None
  then show ?thesis by (simp add: StopWithTimeout_def)
next
  case (Some a)
  let ?s0 = "s\<lparr>sp_apps := gm_del i (sp_apps s)\<rparr>"
  obtain res s1 where st: "stopApp io t a (env ?s0) = (res, s1)" by (metis surj_pair)
  have s1: "wk s s1"
    using wk_trans [OF wk_trans [OF wk_fields(3) env] wk_stopApp [of "env ?s0" io t a]]
    unfolding st snd_conv .
  then have "wk s (s1\<lparr>sp_apps := gm_set i a (sp_apps s1)\<rparr>)" by (rule wk_trans) simp
  with s1 show ?thesis
    by (cases res; cases "gm_get (sp_apps s1) i") (simp_all add: StopWithTimeout_def Some st)
qed

lemma startLocked_starts: "st_sandbox io \<Longrightarrow> st_pid io \<noteq> None \<Longrightarrow> fst (startLocked io a s) = None"
  by (auto simp: startLocked_def Let_def)

lemma wk_reset_start:
  assumes "startLocked io a (upd_app a (resetDone \<circ> clearRestarts) s) = (None, s')"
  shows "wk s (upd_app a (\<lambda>x. x\<lparr>a_watch := WWait\<rparr>) s')"
proof -
  obtain pid where s': "s' = (upd_app a (\<lambda>x. x\<lparr>a_cmd := Some pid, a_status := StatusRunning, a_startedAt := st_now io\<rparr>)
      (upd_app a (\<lambda>x. x\<lparr>a_status := StatusStarting\<rparr>) (upd_app a (resetDone \<circ> clearRestarts) s)))\<lparr>sp_live := pid # sp_live s\<rparr>"
    using assms by (auto simp: startLocked_def Let_def split: if_splits option.splits)
  show ?thesis
    by (auto simp: wk_def all_watched_def list_all_length s' app_at_upd watched_def resetDone_def clearRestarts_def)
qed

lemma wk_Reset:
  assumes env: "\<And>t. wk t (env t)" and "st_sandbox io" and "st_pid io \<noteq> None"
  shows "wk s (snd (Reset io i env s))"
proof (cases "gm_get (sp_apps s) i")
  case None
  then show ?thesis by (simp add: Reset_def)
next
  case (Some a)
  obtain s' where st: "startLocked io a (upd_app a (resetDone \<circ> clearRestarts) (env s)) = (None, s')"
    using startLocked_starts [OF assms(2,3)] by (metis prod.collapse)
  have "wk s (upd_app a (\<lambda>x. x\<lparr>a_watch := WWait\<rparr>) s')"
    by (rule wk_trans [OF env wk_reset_start [OF st]])
  then show ?thesis using env by (simp add: Reset_def Let_def Some st)
qed

lemma wk_Deploy:
  assumes env: "windows (\<lambda>f. \<forall>t. wk t (f t)) env"
  shows "wk s (fst (snd (Deploy u p io dc env s r)))"
proof -
  let ?i = "cfg_ID (dc_Config dc)" and ?s0 = "de_before env s"
  have w: "wk a (de_before env a)" "wk a (de_polling env a)" "wk a (de_swapped env a)" "wk a (de_stopping env a)" for a
    using env by (simp_all add: windows_def)
  show ?thesis
  proof (cases "gm_get (sp_apps s) ?i")
    case None
    then show ?thesis by (simp add: Deploy_def Let_def)
  next
    case (Some v1)
    let ?cfg = "inheritIdentity ((dc_Config dc)\<lparr>cfg_ID := deployTempID ?i\<rparr>) (a_runAs (app_at s v1)) (a_runAsRoot (app_at s v1))"
    obtain res s1 where sp: "spawnUnchecked (dio_spawn io) ?cfg ?s0 = (res, s1)" by (metis surj_pair)
    let ?s2 = "de_polling env s1"
    have g1: "wk s s1" using wk_trans [OF w(1) wk_spawn [of ?s0 "dio_spawn io" ?cfg]] by (simp add: sp)
    have g2: "wk s ?s2" by (rule wk_trans [OF g1 w(2)])
    have ab: "wk s (snd (StopWithTimeout (dio_stop_v2 io) (deployTempID ?i) (GracefulShutdownTimeout (sp_opts s)) (de_stopping env) ?s2))"
      by (rule wk_trans [OF g2 wk_Stop]) (rule w(4))
    have swap: "wk s (rename_swap ?i v2 ?s2)" for v2
      unfolding rename_swap_def by (rule wk_trans [OF g2], rule wk_trans [OF wk_upd_other wk_fields(3)]) simp
    have swapped: "wk s (de_swapped env (rename_swap ?i v2 ?s2))" for v2 by (rule wk_trans [OF swap w(3)])
    have sw: "wk s (fst (snd (deploy_swap u p io env ?i t v1 v2 ?s2 r)))" for v2 t
      unfolding deploy_swap_def Let_def
      using wk_trans [OF wk_trans [OF swapped w(4)] wk_stopApp]
        wk_trans [OF wk_trans [OF wk_trans [OF swapped wk_fields(3)] w(4)] wk_stopApp]
      by (simp split: prod.split option.split)
    show ?thesis
      using g1 ab sw by (cases res) (auto simp: Deploy_def Let_def Some sp split: option.split)
  qed
qed

lemma wk_watch_exit: "wk s (watch_exit now a s)"
proof (cases "a_cmd (app_at s a)")
  case None
  then show ?thesis by (simp add: watch_exit_def wk_watch_return)
next
  case (Some pid)
  obtain n app where rr: "recordRestart now (RestartWindow (sp_opts s)) ((app_at s a)\<lparr>a_status := StatusCrashed\<rparr>) = (n, app)"
    by (metis surj_pair)
  then have "watched (app_at s a) \<Longrightarrow> watched app" by (auto simp: recordRestart_def Let_def watched_def)
  then have 1: "wk s (upd_app a (\<lambda>_. app) s)" by (rule wk_upd)
  have 2: "wk t (upd_app a (\<lambda>x. x\<lparr>a_watch := WSleep\<rparr>) t)" for t by (rule wk_waiting) simp
  have 3: "wk t (watch_return a t')" if "wk t t'" for t t' by (rule wk_trans [OF that wk_watch_return])
  have 4: "wk t (upd_app a (\<lambda>x. x\<lparr>a_status := st\<rparr>) t)" for t st by (rule wk_upd_other) simp
  show ?thesis
    using 3 [OF 4] 3 [OF wk_trans [OF 1 4]] wk_trans [OF 1 2]
    by (simp add: watch_exit_def Some rr Let_def)
qed

lemma wk_watch_wake:
  assumes "a_watch (app_at s a) = WSleep"
  shows "wk s (watch_wake io a s)"
proof -
  have 4: "wk t (watch_return a (upd_app a (\<lambda>x. x\<lparr>a_status := StatusStopped\<rparr>) t))" for t
    by (rule wk_trans [OF wk_upd_other wk_watch_return]) simp
  obtain err s1 where st: "startLocked io a s = (err, s1)" by (metis surj_pair)
  show ?thesis
  proof (cases err)
    case None
    have "wk s (upd_app a (\<lambda>x. x\<lparr>a_watch := WWait\<rparr>) s1)"
      using wk_start_ok [OF st [unfolded None], of "sp_apps s1"] by simp
    then show ?thesis using 4 by (simp add: watch_wake_def st None)
  next
    case (Some e)
    note 1 = wk_start_err [OF st [unfolded Some]]
    have "wk s1 (if isTracked s1 a then s1\<lparr>sp_apps := gm_del (a_ID (app_at s1 a)) (sp_apps s1)\<rparr> else s1)" by simp
    from wk_trans [OF wk_trans [OF 1 this] 4] show ?thesis
      using 4 by (simp add: watch_wake_def st Some Let_def)
  qed
qed

lemma wk_probe:
  assumes env: "\<And>t. wk t (env t)"
  shows "wk s (snd (snd (probe_tick healthy delivered a env ps s)))"
proof -
  have 1: "wk s (upd_app a (\<lambda>x. x\<lparr>a_status := st\<rparr>) s)" for s st by (rule wk_upd_other) simp
  have 2: "wk s (upd_app a (\<lambda>x. x\<lparr>a_healthFailures := wrap64 (a_healthFailures x + 1)\<rparr>) (env s))"
    by (rule wk_trans [OF env wk_upd_other]) simp
  show ?thesis
    using env 2 wk_trans [OF env 1] wk_trans [OF 2 1] wk_trans [OF 2 wk_fields(1)]
    by (simp add: probe_tick_def Let_def split: option.split)
qed

lemma wk_run_all: "(\<And>f. f \<in> set fs \<Longrightarrow> \<forall>s. wk s (f s)) \<Longrightarrow> wk s (run_all fs s)"
proof (induction fs arbitrary: s)
  case Nil
  show ?case by (simp add: run_all_def)
next
  case (Cons f fs)
  have "wk (f s) (run_all fs (f s))" using Cons by simp
  with Cons.prems [of f] show ?case using wk_trans [of s "f s"] by (simp add: run_all_def)
qed

lemma wk_exec: "resets_start op \<Longrightarrow> wk s (sup_exec u p op s)"
proof (induction op arbitrary: s)
  case (OStop io i t ops)
  show ?case unfolding sup_exec.simps by (rule wk_Stop, rule wk_run_all) (use OStop in \<open>auto simp: list_all_iff\<close>)
next
  case (OReset io i ops)
  show ?case unfolding sup_exec.simps
  proof (rule wk_Reset)
    show "wk t (run_all (map (sup_exec u p) ops) t)" for t
      by (rule wk_run_all) (use OReset in \<open>auto simp: list_all_iff\<close>)
  qed (use OReset.prems in simp_all)
next
  case (ODeploy io dc before polling swapped stopping r)
  have "wk t (run_all (map (sup_exec u p) ops) t)" if "ops \<in> {before, polling, swapped, stopping}" for t ops
    by (rule wk_run_all) (use ODeploy that in \<open>auto simp: list_all_iff\<close>)
  then show ?case unfolding sup_exec.simps by (intro wk_Deploy) (simp add: windows_def)
next
  case (OProbe healthy delivered a ops ps)
  have "wk t (run_all (map (sup_exec u p) ops) t)" for t
    by (rule wk_run_all) (use OProbe in \<open>auto simp: list_all_iff\<close>)
  then show ?case by (simp add: wk_probe)
qed (auto simp: Spawn_def wk_spawn wk_watch_exit wk_watch_wake split: option.split)

interpretation watch_sys: op_system "sup_exec u p" resets_start all_watched for u p
  by unfold_locales (use wk_exec in \<open>auto simp: wk_def\<close>)


section \<open>What Stop and Deploy do to the registry\<close>

lemma watch_return_apps [simp]: "sp_apps (watch_return a s) = sp_apps s"
  by (simp add: watch_return_def)

lemma die_app_simps [simp]:
  "sp_apps (die_app a s) = sp_apps s" "sp_heap (die_app a s) = sp_heap s" "sp_opts (die_app a s) = sp_opts s"
  by (simp_all add: die_app_def split: option.split)

lemma exit_app_apps [simp]: "sp_apps (exit_app a s) = sp_apps s"
  by (simp add: exit_app_def)

lemma stop_phases_apps: "sp_apps (snd (stop_phases io t a s)) = sp_apps s"
  by (simp add: stop_phases_def escalateAndWait_def)

lemma stopApp_apps: "sp_apps (snd (stopApp io t a s)) = sp_apps s"
proof -
  obtain res s1 where ph: "stop_phases io t a s = (res, s1)" by (metis surj_pair)
  with stop_phases_apps [of io t a s] have "sp_apps s1 = sp_apps s" by simp
  then show ?thesis by (simp add: stopApp_def ph stop_cleanup_def)
qed

lemma exit_app_done: "a < length (sp_heap s) \<Longrightarrow> a_done (app_at (exit_app a s) a)"
  by (simp add: exit_app_def watch_return_def)

lemma cleanup_done:
  "a < length (sp_heap s) \<Longrightarrow> a_done (app_at (stop_cleanup a s) a) = a_done (app_at s a)"
  by (simp add: stop_cleanup_def teardownAppNetwork_def Let_def split: option.split)

lemma length_exit_app [simp]: "length (sp_heap (exit_app a s)) = length (sp_heap s)"
  by (simp add: exit_app_def watch_return_def)

text \<open>With a deliverable SIGKILL and nobody holding the output pipe, a stop of a watched app returns, and the
  app is done.\<close>

lemma stopApp_returns:
  assumes "a < length (sp_heap s)" and "watched (app_at s a)" and "ti_kill io" and "\<not> ti_held io"
  shows "fst (stopApp io t a s) = StopOk \<and>
    (a_cmd (app_at s a) = None \<or> a_done (app_at (snd (stopApp io t a s)) a))"
proof (cases "a_cmd (app_at s a)")
  case None
  then show ?thesis by (simp add: stopApp_def)
next
  case (Some pid)
  have "stop_phases io t a s = (StopOk, if a_done (app_at s a) then s else exit_app a s)"
    using assms(2,3,4) Some by (auto simp: stop_phases_def escalateAndWait_def watched_def wait_returns_def)
  then show ?thesis using Some assms(1) by (simp add: stopApp_def cleanup_done exit_app_done)
qed

section \<open>Properties\<close>

definition boot_sup :: "sup_opts \<Rightarrow> host_env \<Rightarrow> uid_state \<Rightarrow> IPPool option \<Rightarrow> Supervisor" where
  "boot_sup o' h st pool = \<lparr>sp_opts = o', sp_host = h, sp_apps = [], sp_heap = [], sp_uid = st,
     sp_pool = pool, sp_live = []\<rparr>"

lemma boot_ok: "(\<And>q. pool = Some q \<Longrightarrow> pool_ok q) \<Longrightarrow> reg_ok (boot_sup o' h st pool)"
  by (auto simp: reg_ok_def boot_sup_def pool_inv_def split: option.split)

lemma boot_watched: "all_watched (boot_sup o' h st pool)"
  by (simp add: all_watched_def boot_sup_def)

text \<open>
  C9: Registry invariant. After any sequence of Spawn, Stop, Reset, Deploy, goroutine steps and process
  deaths, where the operations that run in a lock-free window of a Stop, Reset, Deploy or probe complete
  inside that window (they nest, to any depth, and do not overlap it), every registered id leads to an app
  that carries that id and is tracked, no app is registered under two ids, and a registered app keeps its
  id through every later such sequence.
\<close>

theorem registry_invariant:
  assumes "\<And>q. pool = Some q \<Longrightarrow> pool_ok q"
    and "s = fold (sup_exec u p) ops (boot_sup o' h st pool)"
    and "gm_get (sp_apps s) i = Some a"
  shows "i \<noteq> [] \<and> a < length (sp_heap s) \<and> a_ID (app_at s a) = i \<and> isTracked s a \<and>
    (\<forall>j. gm_get (sp_apps s) j = Some a \<longrightarrow> j = i) \<and>
    (\<forall>later. a_ID (app_at (fold (sup_exec u p) later s) a) = i)"
proof -
  have ok: "reg_ok s" unfolding assms(2)
    by (rule sup_sys.inv_run) (use boot_ok [OF assms(1)] in \<open>auto simp: list_all_iff\<close>)
  have "ids_kept s (fold (sup_exec u p) later s)" for later
    by (rule sup_sys.le_run [OF ok]) (simp add: list_all_iff)
  with reg_entry [OF ok assms(3)] reg_inj [OF ok _ assms(3)] show ?thesis
    by (auto simp: ids_kept_def)
qed

definition demo_spawn_io :: spawn_io where
  "demo_spawn_io = \<lparr>sio_persist = PersistOk, sio_rotator = True, sio_cgmgr = True, sio_cgroup = True,
     sio_net = \<lparr>ni_ns = True, ni_veth = True\<rparr>, sio_volumes = True,
     sio_start = \<lparr>st_sandbox = True, st_pid = Some 77, st_now = 5\<rparr>\<rparr>"

definition slice_opts :: sup_opts where
  "slice_opts = New_opts\<lparr>CgroupParent := ''creekd.slice''\<rparr>"

definition demo_cfg :: Config where
  "demo_cfg = zero_Config\<lparr>cfg_ID := ''web'', cfg_Command := ''/bin/web'', cfg_Port := 3000\<rparr>"

lemmas spawn_eval = Spawn_def spawnUnchecked_def spawn_launch_def demo_spawn_io_def demo_cfg_def zero_Config_def
  new_app_def volumeIDs_def resolveExec_def boot_sup_def New_opts_def startLocked_def Let_def
  resolveRunAsLocked_def autoRunAsEnabled_def PerAppUIDsAvailable_def applyCgroupDefaults_def upd_app_def ValidateID_def slice_opts_def cgroupManager_def

definition plain_host :: host_env where
  "plain_host = \<lparr>is_linux = False, sys_admin_cap = False, setid_caps = False, kill_cap = True\<rparr>"

definition demo_state :: Supervisor where
  "demo_state = fold (sup_exec (\<lambda>_. True) (\<lambda>_. [])) [OSpawn demo_spawn_io demo_cfg]
     (boot_sup slice_opts plain_host \<lparr>uidHWM = 0, uidFile = None\<rparr> None)"

lemma demo_registered: "gm_get (sp_apps demo_state) ''web'' = Some 0"
  by (simp add: demo_state_def spawn_eval applyDefaultSandbox_def canApplyDefaultSandbox_def plain_host_def)

theorem registry_invariant_witness: "a_ID (app_at demo_state 0) = ''web''"
  using registry_invariant [OF _ demo_state_def demo_registered] by simp

lemma watched_Stop_returns:
  assumes ok: "reg_ok s" and w: "all_watched s" and i: "gm_get (sp_apps s) i = Some a"
    and kill: "ti_kill io" "\<not> ti_held io"
  shows "\<exists>s'. StopWithTimeout io i t (\<lambda>x. x) s = (Inr True, s') \<and> gm_get (sp_apps s') i = None \<and>
    (a_cmd (app_at s a) = None \<or> a_done (app_at s' a))"
proof -
  have a: "a < length (sp_heap s)" using reg_entry [OF ok i] by simp
  let ?s0 = "s\<lparr>sp_apps := gm_del i (sp_apps s)\<rparr>"
  obtain res s' where st: "stopApp io t a ?s0 = (res, s')" by (metis surj_pair)
  have "watched (app_at s a)" using w a by (simp add: all_watched_def list_all_length)
  then have "res = StopOk" "a_cmd (app_at s a) = None \<or> a_done (app_at s' a)"
    using stopApp_returns [of a ?s0 io t] st a kill by simp_all
  moreover have "gm_get (sp_apps s') i = None" using stopApp_apps [of io t a ?s0] st by simp
  ultimately show ?thesis using st i by (simp add: StopWithTimeout_def)
qed

text \<open>
  C12: Stop terminates. In every state reached by a run whose Resets all started their process, stopping a
  registered app returns success, whatever the timeout, when the SIGKILL can be delivered and no
  descendant that outlives the process holds its output pipe (\<open>held_pipe_hangs_Stop\<close> shows why); the id is
  then free, and an app that had a process is done (its goroutine has ended). No other operation runs
  while Stop waits.
\<close>

theorem Stop_returns:
  assumes "list_all resets_start ops" and "\<And>q. pool = Some q \<Longrightarrow> pool_ok q"
    and "s = fold (sup_exec u p) ops (boot_sup o' h st pool)"
    and "gm_get (sp_apps s) i = Some a" and "ti_kill io" and "\<not> ti_held io"
  shows "\<exists>s'. StopWithTimeout io i t (\<lambda>x. x) s = (Inr True, s') \<and> gm_get (sp_apps s') i = None \<and>
    (a_cmd (app_at s a) = None \<or> a_done (app_at s' a))"
proof -
  have ok: "reg_ok s" unfolding assms(3)
    by (rule sup_sys.inv_run) (use boot_ok [OF assms(2)] in \<open>auto simp: list_all_iff\<close>)
  have w: "all_watched s" unfolding assms(3) by (rule watch_sys.inv_run [OF boot_watched assms(1)])
  show ?thesis by (rule watched_Stop_returns [OF ok w assms(4,5,6)])
qed

theorem Stop_returns_witness:
  "\<exists>s'. StopWithTimeout \<lparr>ti_graceful = False, ti_kill = True, ti_late = False, ti_held = False\<rparr> ''web'' 10 (\<lambda>x. x) demo_state =
      (Inr True, s') \<and> gm_get (sp_apps s') ''web'' = None"
  using Stop_returns [OF _ _ demo_state_def demo_registered,
      of "\<lparr>ti_graceful = False, ti_kill = True, ti_late = False, ti_held = False\<rparr>" 10]
  by auto

text \<open>
  A descendant that outlives the app and holds its output pipe: SIGKILL is delivered and the process is
  gone, but \<open>cmd.Wait\<close> waits for the pipe (\<open>New\<close> sets \<open>WaitDelay\<close> to 0), so Stop does not return,
  and the id is already out of the registry.
\<close>

theorem held_pipe_hangs_Stop:
  assumes "gm_get (sp_apps s) i = Some a" and "a < length (sp_heap s)" and "a_watch (app_at s a) = WWait"
    and "a_cmd (app_at s a) = Some pid" and "\<not> a_done (app_at s a)" and "WaitDelay (sp_opts s) = 0"
    and "ti_kill io" and "ti_held io"
  shows "\<exists>s'. StopWithTimeout io i t (\<lambda>x. x) s = (Inr False, s') \<and> gm_get (sp_apps s') i = None \<and> pid \<notin> set (sp_live s')"
proof -
  let ?s0 = "s\<lparr>sp_apps := gm_del i (sp_apps s)\<rparr>"
  have "stop_phases io t a ?s0 = (StopHang, die_app a ?s0)"
    using assms by (simp add: stop_phases_def escalateAndWait_def wait_returns_def)
  then have "stopApp io t a ?s0 = (StopHang, die_app a ?s0)" using assms(4) by (simp add: stopApp_def)
  then show ?thesis using assms(1,4) by (simp add: StopWithTimeout_def die_app_def)
qed

theorem held_pipe_hangs_Stop_witness:
  "\<exists>s'. StopWithTimeout \<lparr>ti_graceful = True, ti_kill = True, ti_late = True, ti_held = True\<rparr> ''web'' 10 (\<lambda>x. x) demo_sup =
      (Inr False, s') \<and> 77 \<notin> set (sp_live s')"
  using held_pipe_hangs_Stop [of demo_sup "''web''" 0 77 "\<lparr>ti_graceful = True, ti_kill = True, ti_late = True, ti_held = True\<rparr>" 10]
  by (auto simp: demo_sup_def demo_app_def demo_opts_def New_opts_def)

text \<open>
  A Reset that cannot start the process leaves an app that no Stop can remove: the reopened \<open>done\<close>
  channel has no goroutine behind it, so a later Stop with a deliverable SIGKILL (the old process
  is long gone) waits on it forever, after having taken the id out of the registry.
\<close>

theorem failed_Reset_hangs_Stop:
  assumes "gm_get (sp_apps s) i = Some a" and "a < length (sp_heap s)"
    and "a_status (app_at s a) = StatusCrashLooping" and "a_watch (app_at s a) = WNone"
    and "a_cmd (app_at s a) = Some pid" and "st_pid io = None" and "ti_kill kio"
    and "Reset io i (\<lambda>x. x) s = (e, s1)"
  shows "e = Some (ResetStart (if a_sandbox (app_at s a) \<noteq> None \<and> \<not> st_sandbox io then StartSandbox else StartProcess)) \<and>
    gm_get (sp_apps s1) i = Some a \<and>
    (\<exists>s2. StopWithTimeout kio i t (\<lambda>x. x) s1 = (Inr False, s2) \<and> gm_get (sp_apps s2) i = None)"
proof -
  let ?s2 = "upd_app a (resetDone \<circ> clearRestarts) s"
  define e' where e': "e' = (if a_sandbox (app_at s a) \<noteq> None \<and> \<not> st_sandbox io then StartSandbox else StartProcess)"
  have "fst (startLocked io a ?s2) = Some e'"
    using assms(2,6) by (simp add: e' startLocked_def Let_def resetDone_def clearRestarts_def)
  then obtain s3 where st: "startLocked io a ?s2 = (Some e', s3)" by (metis prod.collapse)
  note fr = startLocked_err [OF st]
  have e: "e = Some (ResetStart e')" and s1: "s1 = s3"
    using assms(8) by (simp_all add: Reset_def Let_def assms(1,3) st)
  have app: "app_at s1 a = (resetDone (clearRestarts (app_at s a)))\<lparr>a_status := StatusCrashed\<rparr>"
    using fr assms(2) by (simp add: s1)
  have "stop_phases kio t a (s1\<lparr>sp_apps := gm_del i (sp_apps s1)\<rparr>) = (StopHang, s1\<lparr>sp_apps := gm_del i (sp_apps s1)\<rparr>)"
    using app assms(4,7) by (simp add: stop_phases_def escalateAndWait_def resetDone_def clearRestarts_def)
  then have "stopApp kio t a (s1\<lparr>sp_apps := gm_del i (sp_apps s1)\<rparr>) = (StopHang, s1\<lparr>sp_apps := gm_del i (sp_apps s1)\<rparr>)"
    using app assms(5) by (simp add: stopApp_def resetDone_def clearRestarts_def)
  then show ?thesis using e e' fr assms(1) s1 by (simp add: StopWithTimeout_def)
qed

theorem failed_Reset_hangs_Stop_witness:
  "\<exists>e s1 s2. Reset \<lparr>st_sandbox = True, st_pid = None, st_now = 9\<rparr> ''web'' (\<lambda>x. x)
      (demo_sup\<lparr>sp_heap := [demo_app\<lparr>a_status := StatusCrashLooping, a_done := True, a_watch := WNone\<rparr>]\<rparr>) = (e, s1) \<and>
    StopWithTimeout \<lparr>ti_graceful = True, ti_kill = True, ti_late = True, ti_held = False\<rparr> ''web'' 10 (\<lambda>x. x) s1 = (Inr False, s2)"
proof -
  let ?s = "demo_sup\<lparr>sp_heap := [demo_app\<lparr>a_status := StatusCrashLooping, a_done := True, a_watch := WNone\<rparr>]\<rparr>"
  obtain e s1 where r: "Reset \<lparr>st_sandbox = True, st_pid = None, st_now = 9\<rparr> ''web'' (\<lambda>x. x) ?s = (e, s1)"
    by (metis surj_pair)
  show ?thesis
    using failed_Reset_hangs_Stop [where s = ?s and i = "''web''" and a = 0 and pid = 77 and t = 10
        and kio = "\<lparr>ti_graceful = True, ti_kill = True, ti_late = True, ti_held = False\<rparr>", OF _ _ _ _ _ _ _ r] r
    by (auto simp: demo_sup_def demo_app_def)
qed


lemma exit_app_take: "n \<le> a \<Longrightarrow> take n (sp_heap (exit_app a s)) = take n (sp_heap s)"
  by (simp add: exit_app_def watch_return_def take_upd_app)

lemma stopApp_take:
  assumes "n \<le> a"
  shows "take n (sp_heap (snd (stopApp io t a s))) = take n (sp_heap s)"
proof -
  obtain res s1 where ph: "stop_phases io t a s = (res, s1)" by (metis surj_pair)
  have "take n (sp_heap (snd (stop_phases io t a s))) = take n (sp_heap s)"
    by (simp add: stop_phases_def escalateAndWait_def exit_app_take [OF assms])
  then have "take n (sp_heap s1) = take n (sp_heap s)" by (simp add: ph)
  then show ?thesis
    by (simp add: stopApp_def ph stop_cleanup_def teardown_take [OF assms] take_upd_app [OF assms])
qed

text \<open>
  C13: Failed spawns roll back. A Spawn that returns an error, at whatever step (validation, UID, log
  file, cgroup, address, namespace, volume, process), leaves the registry, the address pool, the set
  of live processes and every existing app exactly as they were.
\<close>

theorem failed_Spawn_rolls_back:
  assumes "reg_ok s" and "Spawn io cfg s = (Inl e, s')"
  shows "sp_apps s' = sp_apps s \<and> sp_pool s' = sp_pool s \<and> sp_live s' = sp_live s \<and>
    take (length (sp_heap s)) (sp_heap s') = sp_heap s"
proof (cases "ValidateID (cfg_ID cfg)")
  case None
  with assms show ?thesis using spawn_err [of s io cfg e s'] by (auto simp: Spawn_def reg_ok_def)
qed (use assms in \<open>auto simp: Spawn_def\<close>)

theorem failed_Spawn_rolls_back_witness:
  "\<exists>e s'. Spawn (demo_spawn_io\<lparr>sio_volumes := False\<rparr>) (demo_cfg\<lparr>cfg_ID := ''api''\<rparr>)
      (boot_sup slice_opts plain_host \<lparr>uidHWM = 0, uidFile = None\<rparr> None) = (Inl e, s') \<and> sp_apps s' = []"
proof -
  let ?s = "boot_sup slice_opts plain_host \<lparr>uidHWM = 0, uidFile = None\<rparr> None"
    and ?io = "demo_spawn_io\<lparr>sio_volumes := False\<rparr>" and ?cfg = "demo_cfg\<lparr>cfg_ID := ''api''\<rparr>"
  obtain r s' where sp: "Spawn ?io ?cfg ?s = (r, s')" by (metis surj_pair)
  have "fst (Spawn ?io ?cfg ?s) = Inl SpVolumes"
    by (simp add: spawn_eval applyDefaultSandbox_def canApplyDefaultSandbox_def plain_host_def)
  then have sp': "Spawn ?io ?cfg ?s = (Inl SpVolumes, s')" using sp by simp
  have ok: "reg_ok ?s" by (rule boot_ok) simp
  from failed_Spawn_rolls_back [OF ok sp'] sp' show ?thesis by (auto simp: boot_sup_def)
qed

lemma resolveExec_upd [simp]:
  "resolveExec (c\<lparr>cfg_ID := j\<rparr>) = resolveExec c" "resolveExec (c\<lparr>cfg_RunAs := q\<rparr>) = resolveExec c"
  "resolveExec (c\<lparr>cfg_RunAsRoot := b\<rparr>) = resolveExec c"
  by (simp_all add: resolveExec_def cong: sum.case_cong prod.case_cong)

lemma runs_config_deployed [simp]: "runs_config (inheritIdentity (c\<lparr>cfg_ID := j\<rparr>) q b) x = runs_config c x"
  by (simp add: runs_config_def inheritIdentity_def)

text \<open>
  A Deploy that returns an app: the other goroutines ran, v2 was spawned at a fresh address under the
  free temporary key, the others ran again, v1 was still registered, and then the registry and the route
  were switched. What the others do after the switch is up to them.
\<close>

lemma deploy_ok:
  assumes "reg_ok s" and "i = cfg_ID (dc_Config dc)" and env: "windows (\<lambda>f. \<forall>t. good t (f t)) env"
    and "Deploy u p io dc env s r = (Inr v2, s', r')"
  shows "\<exists>v1 s1 s3. gm_get (sp_apps s) i = Some v1 \<and> v1 < v2 \<and> gm_get (sp_apps (de_before env s)) (deployTempID i) = None \<and>
    sp_apps s1 = gm_set (deployTempID i) v2 (sp_apps (de_before env s)) \<and> good s s1 \<and> reg_ok s3 \<and>
    sp_apps s3 = gm_set i v2 (gm_del i (gm_del (deployTempID i) (sp_apps (de_polling env s1)))) \<and>
    sp_apps s' = sp_apps (de_stopping env (de_swapped env s3)) \<and>
    a_ID (app_at s' v2) = i \<and> a_Port (app_at s' v2) = cfg_Port (dc_Config dc) \<and> a_ID (app_at s' v1) = i \<and>
    v2 < length (sp_heap s') \<and> runs_config (dc_Config dc) (app_at s' v2) \<and>
    (\<forall>r0. r = Some r0 \<longrightarrow> (\<exists>b. r' = Some (gm_set i b r0) \<and> be_Port b = cfg_Port (dc_Config dc)))"
proof -
  obtain v1 where v1: "gm_get (sp_apps s) i = Some v1"
    using assms(2,4) by (auto simp: Deploy_def Let_def split: if_splits option.splits)
  let ?cfg = "inheritIdentity ((dc_Config dc)\<lparr>cfg_ID := deployTempID i\<rparr>) (a_runAs (app_at s v1)) (a_runAsRoot (app_at s v1))"
    and ?s0 = "de_before env s"
  obtain t s1 where sp: "spawnUnchecked (dio_spawn io) ?cfg ?s0 = (Inr v2, s1)"
    and ne: "i \<noteq> []" and cur: "gm_get (sp_apps (de_polling env s1)) i = Some v1"
    and sw: "deploy_swap u p io env i t v1 v2 (de_polling env s1) r = (Inr v2, s', r')"
    using assms(2,4) v1
    by (auto simp: Deploy_def deploy_swap_def Let_def split: if_splits option.splits prod.splits sum.splits)
  let ?s2 = "de_polling env s1" and ?s3 = "rename_swap i v2 (de_polling env s1)"
    and ?s4 = "de_swapped env (rename_swap i v2 (de_polling env s1))"
  have w: "good a (de_before env a)" "good a (de_polling env a)" "good a (de_swapped env a)" for a
    using env by (simp_all add: windows_def)
  have ok0: "reg_ok ?s0" "ids_kept s ?s0" using w(1) [of s] assms(1) by (simp_all add: good_def)
  then have pool: "pool_inv ?s0" by (simp add: reg_ok_def)
  note so = spawn_ok [OF pool sp]
  have g1: "good s s1" using good_trans [OF w(1) good_spawn [of ?s0 "dio_spawn io" ?cfg]] by (simp add: sp)
  have e: "reg_ok ?s2" "ids_kept s1 ?s2" using g1 w(2) assms(1) by (auto simp: good_def)
  have v2: "v2 < length (sp_heap ?s2)" "a_ID (app_at ?s2 v2) = deployTempID i"
    "a_Port (app_at ?s2 v2) = cfg_Port (dc_Config dc)" "runs_config (dc_Config dc) (app_at ?s2 v2)"
    using so e(2) ids_kept_runs [OF e(2), of v2 "dc_Config dc"] by (auto simp: ids_kept_def)
  have less: "v1 < v2" using reg_entry [OF assms(1) v1] so ok0(2) by (auto simp: ids_kept_def)
  obtain fr where fl: "flip_route u p i (app_at ?s4 v2) r = (None, fr)"
    and s': "s' = snd (stopApp (dio_stop_v1 io) t v1 (de_stopping env ?s4))" and r': "r' = fr"
    using sw by (auto simp: deploy_swap_def Let_def split: prod.splits option.splits)
  have ok3: "reg_ok ?s3" by (rule reg_rename_swap [OF e(1) v2(1,2) ne])
  have k4: "ids_kept ?s3 ?s4" using w(3) [of ?s3] ok3 by (simp add: good_def)
  have k: "ids_kept ?s3 s'"
    using good_Deploy_swap [OF e(1) v2(1,2) ne cur env, of u p io t r] ok3 by (simp add: sw good_def)
  have len3: "length (sp_heap ?s3) = length (sp_heap ?s2)" by (simp add: rename_swap_def)
  have at3: "a_ID (app_at ?s3 v2) = i" "a_Port (app_at ?s3 v2) = cfg_Port (dc_Config dc)" "a_ID (app_at ?s3 v1) = i"
    "runs_config (dc_Config dc) (app_at ?s3 v2)" "v2 < length (sp_heap ?s3)" "v1 < length (sp_heap ?s3)"
    using v2 less reg_entry [OF e(1) cur] by (auto simp: rename_swap_def app_at_upd runs_config_def)
  have at: "a_ID (app_at s' v2) = i" "a_Port (app_at s' v2) = cfg_Port (dc_Config dc)" "a_ID (app_at s' v1) = i"
    "v2 < length (sp_heap s')" "runs_config (dc_Config dc) (app_at s' v2)"
    using k at3 ids_kept_runs [OF k at3(5)] by (auto simp: ids_kept_def)
  have "a_Port (app_at ?s4 v2) = cfg_Port (dc_Config dc)" using k4 at3 by (auto simp: ids_kept_def)
  then have "\<exists>b. r' = Some (gm_set i b r0) \<and> be_Port b = cfg_Port (dc_Config dc)" if "r = Some r0" for r0
    using fl that unfolding r'
    by (auto simp: flip_route_def SetAddr_def newBackend_def Let_def split: sum.splits if_splits option.splits)
  moreover have "sp_apps s' = sp_apps (de_stopping env ?s4)" by (simp add: s' stopApp_apps)
  moreover have "sp_apps ?s3 = gm_set i v2 (gm_del i (gm_del (deployTempID i) (sp_apps ?s2)))" by (simp add: rename_swap_def)
  ultimately show ?thesis
    using v1 less so at g1 ok3
    by (intro exI [of _ v1] exI [of _ s1] exI [of _ ?s3]) auto
qed

text \<open>
  C10: Blue-green deploy, success. Whatever other operations run before the spawn and while v2 is polled
  (and none from the swap to the return), a Deploy that returns an app has registered a fresh app under the
  id and freed the temporary key; that app runs the command, arguments and environment of the request;
  the old version is no longer tracked (its goroutine will not restart it); and the route, when there is a
  router, leads to the port of the new version.
\<close>

theorem Deploy_replaces:
  assumes "reg_ok s" and "i = cfg_ID (dc_Config dc)"
    and "Deploy u p io dc (alone\<lparr>de_before := run_all (map (sup_exec u p) ops0), de_polling := run_all (map (sup_exec u p) ops)\<rparr>) s r =
      (Inr v2, s', r')"
  shows "\<exists>v1. gm_get (sp_apps s) i = Some v1 \<and> v1 < v2 \<and> gm_get (sp_apps s') i = Some v2 \<and>
    gm_get (sp_apps s') (deployTempID i) = None \<and> a_ID (app_at s' v2) = i \<and>
    a_Port (app_at s' v2) = cfg_Port (dc_Config dc) \<and> runs_config (dc_Config dc) (app_at s' v2) \<and> \<not> isTracked s' v1 \<and>
    (\<forall>r0. r = Some r0 \<longrightarrow> (\<exists>r1 b. r' = Some r1 \<and> Get r1 i = Some b \<and> be_Port b = cfg_Port (dc_Config dc)))"
proof -
  have "good t (run_all (map (sup_exec u p) os) t)" for t os by (rule good_run_all) (auto simp: good_exec)
  then have "windows (\<lambda>f. \<forall>t. good t (f t))
      (alone\<lparr>de_before := run_all (map (sup_exec u p) ops0), de_polling := run_all (map (sup_exec u p) ops)\<rparr>)"
    by (simp add: windows_def alone_def)
  from deploy_ok [OF assms(1,2) this assms(3)] deployTempID_neq [of i] show ?thesis
    by (fastforce simp: isTracked_def Get_def alone_def)
qed

definition demo_dc :: DeployConfig where
  "demo_dc = \<lparr>dc_Config = demo_cfg\<lparr>cfg_Port := 3001\<rparr>, dc_ReadyTimeout = 0, dc_PollInterval = 0, dc_GracefulV1Timeout = 0\<rparr>"

definition demo_deploy_io :: deploy_io where
  "demo_deploy_io = \<lparr>dio_spawn = demo_spawn_io\<lparr>sio_start := \<lparr>st_sandbox = True, st_pid = Some 78, st_now = 9\<rparr>\<rparr>,
     dio_rounds = [PollOk], dio_stop_v2 = \<lparr>ti_graceful = True, ti_kill = True, ti_late = False, ti_held = False\<rparr>,
     dio_stop_v1 = \<lparr>ti_graceful = True, ti_kill = True, ti_late = False, ti_held = False\<rparr>\<rparr>"

lemma demo_state_ok: "reg_ok demo_state"
  unfolding demo_state_def by (rule sup_sys.inv_run) (auto intro: boot_ok simp: list_all_iff)

lemma alone_nil [simp]:
  "alone\<lparr>de_before := run_all (map f []), de_polling := run_all (map g [])\<rparr> = alone"
  by (simp add: alone_def run_all_def fun_eq_iff)

lemma alone_simps [simp]:
  "de_before alone = (\<lambda>x. x)" "de_polling alone = (\<lambda>x. x)" "de_swapped alone = (\<lambda>x. x)" "de_stopping alone = (\<lambda>x. x)"
  by (simp_all add: alone_def)

lemma demo_deploy: "fst (Deploy (\<lambda>_. True) (\<lambda>_. []) demo_deploy_io demo_dc alone demo_state (Some NewRouter)) = Inr 1"
  by (simp add: demo_state_def demo_dc_def demo_deploy_io_def Deploy_def deploy_swap_def flip_route_def rename_swap_def
      waitDeployHealthy_def inheritIdentity_def deployTempID_def SetAddr_def newBackend_def run_all_def
      spawn_eval applyDefaultSandbox_def canApplyDefaultSandbox_def plain_host_def)


theorem Deploy_replaces_witness:
  "\<exists>s' r'. Deploy (\<lambda>_. True) (\<lambda>_. []) demo_deploy_io demo_dc alone demo_state (Some NewRouter) = (Inr 1, s', r') \<and>
    gm_get (sp_apps s') ''web'' = Some 1 \<and> \<not> isTracked s' 0"
proof -
  obtain s' r' where d: "Deploy (\<lambda>_. True) (\<lambda>_. []) demo_deploy_io demo_dc alone demo_state (Some NewRouter) = (Inr 1, s', r')"
    using demo_deploy by (metis prod.collapse)
  have i: "''web'' = cfg_ID (dc_Config demo_dc)" by (simp add: demo_dc_def demo_cfg_def)
  from Deploy_replaces [OF demo_state_ok i, where ops = "[]" and ?ops0.0 = "[]", unfolded alone_nil, OF d] d demo_registered
  show ?thesis by auto
qed

text \<open>The old version is not touched by anything but its own stop.\<close>

lemma upd_other: "a \<noteq> b \<Longrightarrow> app_at (upd_app a f s) b = app_at s b"
  by (simp add: upd_app_def)

lemma stopApp_other:
  assumes "a \<noteq> b"
  shows "app_at (snd (stopApp io t a s)) b = app_at s b"
proof -
  have ex: "app_at (exit_app a s) b = app_at s b"
    using assms by (simp add: exit_app_def watch_return_def upd_other)
  have cl: "app_at (stop_cleanup a t) b = app_at t b" for t
    using assms by (simp add: stop_cleanup_def teardownAppNetwork_def Let_def upd_other split: option.split)
  obtain res s1 where ph: "stop_phases io t a s = (res, s1)" by (metis surj_pair)
  have "app_at (snd (stop_phases io t a s)) b = app_at s b"
    by (simp add: stop_phases_def escalateAndWait_def ex)
  then show ?thesis by (simp add: ph stopApp_def cl)
qed

text \<open>Stopping one app, and a Deploy that fails, leave the registration of another id as it is when the
  other goroutines do.\<close>

definition keeps_id :: "string \<Rightarrow> (Supervisor \<Rightarrow> Supervisor) \<Rightarrow> bool" where
  "keeps_id i f \<longleftrightarrow> (\<forall>t. good t (f t) \<and> gm_get (sp_apps (f t)) i = gm_get (sp_apps t) i)"

lemma Stop_other:
  assumes "keeps_id i env" and "i \<noteq> j"
  shows "gm_get (sp_apps (snd (StopWithTimeout io j t env s))) i = gm_get (sp_apps s) i"
proof (cases "gm_get (sp_apps s) j")
  case (Some a)
  let ?s0 = "s\<lparr>sp_apps := gm_del j (sp_apps s)\<rparr>"
  obtain res s1 where st: "stopApp io t a (env ?s0) = (res, s1)" by (metis surj_pair)
  have "gm_get (sp_apps s1) i = gm_get (sp_apps s) i"
    using stopApp_apps [of io t a "env ?s0"] st assms by (simp add: keeps_id_def)
  then show ?thesis using assms(2)
    by (cases res; cases "gm_get (sp_apps s1) j") (simp_all add: StopWithTimeout_def Some st)
qed (simp add: StopWithTimeout_def)

lemma deploy_err_kept:
  assumes "reg_ok s" and "i = cfg_ID (dc_Config dc)" and env: "windows (keeps_id i) env"
    and "Deploy u p io dc env s r = (Inl e, s', r')"
  shows "r' = r \<and> e \<noteq> DepConflict \<and> gm_get (sp_apps s') i = gm_get (sp_apps s) i"
proof (cases "i = [] \<or> gm_get (sp_apps s) i = None")
  case True
  then show ?thesis using assms(2,4) by (auto simp: Deploy_def Let_def split: if_splits)
next
  case False
  then obtain v1 where v1: "gm_get (sp_apps s) i = Some v1" and ne: "i \<noteq> []" by auto
  let ?cfg = "inheritIdentity ((dc_Config dc)\<lparr>cfg_ID := deployTempID i\<rparr>) (a_runAs (app_at s v1)) (a_runAsRoot (app_at s v1))"
    and ?s0 = "de_before env s"
  have w: "keeps_id i (de_before env)" "keeps_id i (de_polling env)" "keeps_id i (de_swapped env)" "keeps_id i (de_stopping env)"
    using env by (simp_all add: windows_def)
  have get0: "gm_get (sp_apps ?s0) i = Some v1" using w(1) v1 by (simp add: keeps_id_def)
  obtain res s1 where sp: "spawnUnchecked (dio_spawn io) ?cfg ?s0 = (res, s1)" by (metis surj_pair)
  have pool: "pool_inv ?s0" using w(1) assms(1) by (auto simp: keeps_id_def good_def reg_ok_def)
  have get2: "gm_get (sp_apps (de_polling env s1)) i = Some v1"
    using spawn_err [OF pool, of "dio_spawn io" ?cfg _ s1] spawn_ok [OF pool, of "dio_spawn io" ?cfg _ s1] sp get0 w(2)
      deployTempID_neq [of i] by (cases res) (auto simp: keeps_id_def)
  have ab: "gm_get (sp_apps (snd (StopWithTimeout (dio_stop_v2 io) (deployTempID i) t (de_stopping env) (de_polling env s1)))) i = Some v1" for t
    using Stop_other [OF w(4), of "deployTempID i"] deployTempID_neq [of i] get2 by metis
  have sw: "r' = r \<and> e \<noteq> DepConflict \<and> gm_get (sp_apps s') i = Some v1"
    if "deploy_swap u p io env i t v1 v2 (de_polling env s1) r = (Inl e, s', r')" for t v2
    using that w(4) by (auto simp: deploy_swap_def Let_def stopApp_apps keeps_id_def split: prod.splits option.splits)
  show ?thesis
  proof (cases res)
    case (Inl e')
    with spawn_err [OF pool sp [unfolded Inl]] show ?thesis
      using assms(2,4) v1 sp get0 by (auto simp: Deploy_def Let_def split: if_splits)
  next
    case (Inr v2)
    show ?thesis
      using assms(2,4) v1 ne sp Inr ab sw get2 by (auto simp: Deploy_def Let_def split: if_splits option.splits)
  qed
qed

lemma deploy_err_heap:
  assumes "reg_ok s" and "i = cfg_ID (dc_Config dc)" and "Deploy u p io dc alone s r = (Inl e, s', r')"
  shows "take (length (sp_heap s)) (sp_heap s') = sp_heap s"
proof (cases "i = [] \<or> gm_get (sp_apps s) i = None")
  case True
  then show ?thesis using assms(2,3) by (auto simp: Deploy_def Let_def split: if_splits)
next
  case False
  then obtain v1 where v1: "gm_get (sp_apps s) i = Some v1" and ne: "i \<noteq> []" by auto
  let ?cfg = "inheritIdentity ((dc_Config dc)\<lparr>cfg_ID := deployTempID i\<rparr>) (a_runAs (app_at s v1)) (a_runAsRoot (app_at s v1))"
  obtain res s1 where sp: "spawnUnchecked (dio_spawn io) ?cfg s = (res, s1)" by (metis surj_pair)
  from assms(1) have pool: "pool_inv s" by (simp add: reg_ok_def)
  show ?thesis
  proof (cases res)
    case (Inl e')
    with spawn_err [OF pool sp [unfolded Inl]] show ?thesis
      using assms(2,3) v1 sp by (auto simp: Deploy_def Let_def split: if_splits)
  next
    case (Inr v2)
    note so = spawn_ok [OF pool sp [unfolded Inr]]
    have v2: "v2 = length (sp_heap s)" and len1: "take v2 (sp_heap s1) = sp_heap s"
      and tmp: "gm_get (sp_apps s1) (deployTempID i) = Some v2" using so by auto
    let ?T = "GracefulShutdownTimeout (sp_opts s)" and ?s0 = "s1\<lparr>sp_apps := gm_del (deployTempID i) (sp_apps s1)\<rparr>"
    obtain sr s2 where st: "stopApp (dio_stop_v2 io) ?T v2 ?s0 = (sr, s2)" by (metis surj_pair)
    have s2: "take v2 (sp_heap s2) = sp_heap s" using stopApp_take [of v2 v2 "dio_stop_v2 io" ?T ?s0] st len1 by simp
    have ab: "take v2 (sp_heap (snd (StopWithTimeout (dio_stop_v2 io) (deployTempID i) ?T (\<lambda>x. x) s1))) = sp_heap s"
      using s2 by (cases sr; cases "gm_get (sp_apps s2) (deployTempID i)") (auto simp: StopWithTimeout_def tmp st)
    have sw: "take v2 (sp_heap s') = sp_heap s" if "deploy_swap u p io alone i t v1 v2 s1 r = (Inl e, s', r')" for t
      using that len1 by (auto simp: deploy_swap_def Let_def stopApp_take rename_swap_def take_upd_app
          split: prod.splits option.splits)
    show ?thesis
      using assms(2,3) v1 ne sp Inr ab sw v2 by (auto simp: Deploy_def Let_def split: if_splits option.splits)
  qed
qed

text \<open>
  C11: Blue-green deploy, failure. When the operations that run in the windows of a Deploy leave the
  registration of its id alone, a Deploy that returns an error leaves the route table as it was and the
  old version registered under the id, and the error is not ErrDeployConflict (which reports exactly that
  another operation replaced the old version). When no other operation runs at all, every app that
  existed is untouched.
\<close>

theorem Deploy_failure_keeps_v1:
  assumes "reg_ok s" and "i = cfg_ID (dc_Config dc)" and "windows (keeps_id i) env"
    and "Deploy u p io dc env s r = (Inl e, s', r')"
  shows "r' = r \<and> e \<noteq> DepConflict \<and> gm_get (sp_apps s') i = gm_get (sp_apps s) i \<and>
    (env = alone \<longrightarrow> take (length (sp_heap s)) (sp_heap s') = sp_heap s)"
  using deploy_err_kept [OF assms] deploy_err_heap [OF assms(1,2)] assms(4) by blast

lemma alone_keeps: "windows (keeps_id i) alone"
  by (simp add: windows_def keeps_id_def)

theorem Deploy_failure_keeps_v1_witness:
  "\<exists>e s' r'. Deploy (\<lambda>_. True) (\<lambda>_. []) demo_deploy_io (demo_dc\<lparr>dc_Config := demo_cfg\<rparr>) alone demo_state None =
      (Inl e, s', r') \<and> gm_get (sp_apps s') ''web'' = Some 0 \<and> take 1 (sp_heap s') = sp_heap demo_state"
proof -
  have i: "''web'' = cfg_ID (dc_Config (demo_dc\<lparr>dc_Config := demo_cfg\<rparr>))" by (simp add: demo_cfg_def)
  have at: "a_Port (app_at demo_state 0) = 3000" "length (sp_heap demo_state) = 1"
    by (simp_all add: demo_state_def spawn_eval applyDefaultSandbox_def canApplyDefaultSandbox_def plain_host_def)
  then obtain e s' r' where d: "Deploy (\<lambda>_. True) (\<lambda>_. []) demo_deploy_io (demo_dc\<lparr>dc_Config := demo_cfg\<rparr>) alone demo_state None = (Inl e, s', r')"
    using demo_registered by (simp add: Deploy_def Let_def demo_cfg_def)
  from Deploy_failure_keeps_v1 [OF demo_state_ok i alone_keeps d] demo_registered d at(2) show ?thesis by auto
qed

text \<open>
  The per-app cgroup keeps the temporary name. After a deploy with resource limits the running app
  sits in the cgroup named after the temporary key, and the next deploy of the same app, whose v2 is
  spawned under that key again, puts both versions into one cgroup (its directory may already exist).
\<close>

theorem redeploy_shares_cgroup:
  assumes "reg_ok s" and "i = cfg_ID (dc_Config dc)" and "cfg_CgroupLimits (dc_Config dc) \<noteq> None"
    and "Deploy u p io dc alone s r = (Inr v2, s', r')"
    and "cfg_ID cfg3 = deployTempID i" and "cfg_CgroupLimits cfg3 \<noteq> None"
    and "spawnUnchecked io3 cfg3 s' = (Inr v3, s'')"
  shows "gm_get (sp_apps s'') i = Some v2 \<and> v2 \<noteq> v3 \<and>
    a_cg (app_at s'' v2) = Some (deployTempID i) \<and> a_cg (app_at s'' v3) = Some (deployTempID i)"
proof -
  obtain v1 where v1: "gm_get (sp_apps s) i = Some v1"
    using assms(2,4) by (auto simp: Deploy_def Let_def split: if_splits option.splits)
  let ?cfg = "inheritIdentity ((dc_Config dc)\<lparr>cfg_ID := deployTempID i\<rparr>) (a_runAs (app_at s v1)) (a_runAsRoot (app_at s v1))"
  obtain t s1 where sp: "spawnUnchecked (dio_spawn io) ?cfg s = (Inr v2, s1)"
    and sw: "deploy_swap u p io alone i t v1 v2 s1 r = (Inr v2, s', r')"
    using assms(2,4) v1
    by (auto simp: Deploy_def deploy_swap_def Let_def split: if_splits option.splits prod.splits sum.splits)
  from assms(1) have pool: "pool_inv s" by (simp add: reg_ok_def)
  note so = spawn_ok [OF pool sp]
  have lim: "cfg_CgroupLimits ?cfg \<noteq> None" using assms(3) by (simp add: inheritIdentity_def)
  have less: "v1 < v2" using reg_entry [OF assms(1) v1] so by auto
  have s': "s' = snd (stopApp (dio_stop_v1 io) t v1 (rename_swap i v2 s1))"
    using sw by (auto simp: deploy_swap_def Let_def split: prod.splits option.splits)
  have "app_at s' v2 = app_at (rename_swap i v2 s1) v2"
    unfolding s' by (rule stopApp_other) (use less in simp)
  then have cg: "a_cg (app_at s' v2) = Some (deployTempID i)" using so lim by (auto simp: rename_swap_def)
  have get: "gm_get (sp_apps s') i = Some v2" by (simp add: s' stopApp_apps) (simp add: rename_swap_def)
  have ok: "reg_ok s'" using good_Deploy [of alone s u p io dc r] assms(1,4) by (simp add: good_def windows_def)
  then have pool': "pool_inv s'" by (simp add: reg_ok_def)
  note so3 = spawn_ok [OF pool' assms(7)]
  have "v2 < length (sp_heap s')" using reg_entry [OF ok get] by simp
  with so3 have "app_at s'' v2 = app_at s' v2" "v2 \<noteq> v3" using nth_of_take [of v3 "sp_heap s''" "sp_heap s'" v2] by auto
  then show ?thesis using so3 cg get assms(5,6) deployTempID_neq [of i] by auto
qed


definition demo_limits :: limits where
  "demo_limits = \<lparr>MemoryHigh = 0, MemoryMax = 1000, PidsMax = 0, CPUQuota = 0, CPUPeriod = 0\<rparr>"

definition demo_dc_lim :: DeployConfig where
  "demo_dc_lim = demo_dc\<lparr>dc_Config := demo_cfg\<lparr>cfg_Port := 3001, cfg_CgroupLimits := Some demo_limits\<rparr>\<rparr>"

lemma demo_deploy_lim:
  "\<exists>s' r' s''. Deploy (\<lambda>_. True) (\<lambda>_. []) demo_deploy_io demo_dc_lim alone demo_state None = (Inr 1, s', r') \<and>
     spawnUnchecked demo_spawn_io (demo_cfg\<lparr>cfg_ID := deployTempID ''web'', cfg_CgroupLimits := Some demo_limits\<rparr>) s' = (Inr 2, s'')"
  by (simp add: demo_state_def demo_dc_def demo_dc_lim_def demo_limits_def demo_deploy_io_def Deploy_def deploy_swap_def flip_route_def rename_swap_def
      waitDeployHealthy_def inheritIdentity_def deployTempID_def SetAddr_def newBackend_def run_all_def
      stopApp_def stop_phases_def exit_app_def die_app_def wait_returns_def stop_cleanup_def teardownAppNetwork_def watch_return_def isTracked_def
      spawn_eval applyDefaultSandbox_def canApplyDefaultSandbox_def plain_host_def)

theorem redeploy_shares_cgroup_witness:
  "\<exists>s'' :: Supervisor. a_cg (app_at s'' 1) = Some (deployTempID ''web'') \<and> a_cg (app_at s'' 2) = Some (deployTempID ''web'')"
proof -
  obtain s' r' s'' where
    d: "Deploy (\<lambda>_. True) (\<lambda>_. []) demo_deploy_io demo_dc_lim alone demo_state None = (Inr 1, s', r')"
    and sp: "spawnUnchecked demo_spawn_io (demo_cfg\<lparr>cfg_ID := deployTempID ''web'', cfg_CgroupLimits := Some demo_limits\<rparr>) s' = (Inr 2, s'')"
    using demo_deploy_lim by blast
  have i: "''web'' = cfg_ID (dc_Config demo_dc_lim)" by (simp add: demo_dc_lim_def demo_cfg_def)
  from redeploy_shares_cgroup [OF demo_state_ok i _ d _ _ sp] show ?thesis
    by (auto simp: demo_dc_lim_def)
qed

end
