(* ===== verification/Sup_Volumes.thy ===== *)
theory Sup_Volumes
  imports Sup_System
begin

text \<open>
  \<open>internal/supervisor/volume.go\<close> and \<open>volumemount.go\<close>: the volume registry and the resolution of an
  app's volume mounts. Paths are byte strings handled by the lexical functions of \<open>Go_Strings\<close>; the
  containment test \<open>pathInside\<close> is shown to be a prefix relation on path segments, and the resolution
  is stated against that.
\<close>

section \<open>Containment of paths\<close>

definition containsDotDot :: "string \<Rightarrow> bool" where
  "containsDotDot p \<longleftrightarrow> (if p = [] then False else list_ex (\<lambda>seg. seg = ''..'') (split_on sep p))"

definition pathInside :: "string \<Rightarrow> string \<Rightarrow> bool" where
  "pathInside child0 parent0 \<longleftrightarrow>
     (if parent0 = [] then True
      else
        let child = Clean child0; parent = Clean parent0 in
        if child = parent then True
        else case Rel parent child of
          None \<Rightarrow> False
        | Some rel \<Rightarrow> rel \<noteq> ''..'' \<and> \<not> HasPrefix rel (''..'' @ [sep]))"

abbreviation forbiddenTargetPrefixes :: "string list" where
  "forbiddenTargetPrefixes \<equiv> [''/proc'', ''/sys'', ''/dev'', ''/etc'', ''/usr'', ''/bin'', ''/sbin'',
     ''/lib'', ''/lib64'', ''/lib32'', ''/boot'', ''/root'']"

definition isForbiddenHostPath :: "string \<Rightarrow> bool" where
  "isForbiddenHostPath cleaned \<longleftrightarrow> list_ex (\<lambda>forbidden. pathInside cleaned forbidden) forbiddenTargetPrefixes"

definition targetUnderAllowlist :: "string \<Rightarrow> string list \<Rightarrow> bool" where
  "targetUnderAllowlist hostTarget allowlist \<longleftrightarrow>
     (if allowlist = [] then False
      else
        let cleaned = Clean hostTarget in
        if isForbiddenHostPath cleaned then False
        else list_ex (\<lambda>prefix. IsAbs prefix \<and> Clean prefix \<noteq> ''/'' \<and> pathInside cleaned (Clean prefix)) allowlist)"

text \<open>The relation the test decides on absolute paths: the parent's segments are a prefix.\<close>

definition beneath :: "string \<Rightarrow> string \<Rightarrow> bool" where
  "beneath child parent \<longleftrightarrow> (\<exists>ts. path_segs child = path_segs parent @ ts)"

lemma join_Cons_prefix: "ws \<noteq> [] \<Longrightarrow> join_on c (w # ws) = w @ c # join_on c ws"
  by (cases ws) simp_all

lemma join_proper_no_dotdot:
  assumes "list_all proper_seg ts" and "ts \<noteq> []"
  shows "join_on sep ts \<noteq> ''..'' \<and> \<not> HasPrefix (join_on sep ts) (''..'' @ [sep])"
proof -
  have sp: "split_on sep (join_on sep ts) = ts" by (rule split_join_proper [OF assms])
  have hd: "hd ts \<noteq> ''..''" using assms by (cases ts) (auto simp: proper_seg_def)
  have "join_on sep ts \<noteq> ''..''"
  proof
    assume "join_on sep ts = ''..''"
    with sp have "ts = [''..'']" by simp
    with hd show False by simp
  qed
  moreover have "split_on sep (''..'' @ sep # r) = ''..'' # split_on sep r" for r
    by (rule split_on_append_sep) simp
  then have "\<not> HasPrefix (join_on sep ts) (''..'' @ [sep])"
    using sp hd by (auto simp: HasPrefix_iff)
  ultimately show ?thesis by simp
qed

lemma pathInside_iff:
  assumes "IsAbs c" and "IsAbs p"
  shows "pathInside c p \<longleftrightarrow> beneath c p"
proof -
  obtain bs ts where dc: "drop_common (path_segs p) (path_segs c) = (bs, ts)" by force
  from drop_common_eq [OF dc] obtain cs where segs: "path_segs p = cs @ bs" "path_segs c = cs @ ts" by blast
  have proper: "list_all proper_seg bs" "list_all proper_seg ts"
    using path_segs_proper [OF assms(1)] path_segs_proper [OF assms(2)] segs by simp_all
  have ne: "p \<noteq> []" using assms(2) by (auto simp: IsAbs_def HasPrefix_def)
  have bs: "bs = [] \<or> hd bs \<noteq> ''..''" using proper(1) by (cases bs) (auto simp: proper_seg_def)
  have rel: "Rel (Clean p) (Clean c) = (if Clean p = Clean c then Some ''.''
      else Some (join_on sep (map (\<lambda>_. ''..'') bs @ ts)))"
    using assms dc bs by (auto simp: Rel_def Clean_idem IsAbs_Clean path_segs_Clean)
  show ?thesis
  proof (cases "path_segs c = path_segs p")
    case True
    then have "Clean c = Clean p" using Clean_eq_iff [OF assms] by simp
    then show ?thesis using ne True by (simp add: pathInside_def beneath_def)
  next
    case False
    then have cl: "Clean c \<noteq> Clean p" using Clean_eq_iff [OF assms] by simp
    show ?thesis
    proof (cases bs)
      case Nil
      then have "ts \<noteq> []" using False segs by auto
      with join_proper_no_dotdot [OF proper(2)] show ?thesis
        using ne cl rel Nil segs by (auto simp: pathInside_def beneath_def Let_def)
    next
      case (Cons b bs')
      have "join_on sep (map (\<lambda>_. ''..'') bs @ ts) = ''..'' \<or>
          HasPrefix (join_on sep (map (\<lambda>_. ''..'') bs @ ts)) (''..'' @ [sep])"
        using Cons by (cases "map (\<lambda>_. ''..'') bs' @ ts = []") (auto simp: join_Cons_prefix HasPrefix_iff)
      moreover have "\<not> beneath c p"
      proof
        assume "beneath c p"
        then obtain us where "path_segs c = path_segs p @ us" by (auto simp: beneath_def)
        then have "drop_common (path_segs p) (path_segs c) = ([], us)" by (simp add: drop_common_prefix)
        with dc Cons show False by simp
      qed
      ultimately show ?thesis using ne cl rel by (auto simp: pathInside_def Let_def)
    qed
  qed
qed


section \<open>The volume registry\<close>

record SupVolume =
  v_ID :: string
  v_BackingPath :: string
  v_ReadOnly :: bool
  v_FSType :: string
  v_resolvedAbsPath :: string
  v_devMajor :: int
  v_devMinor :: int
  v_inode :: int

text \<open>
  The system calls of \<open>openAndIsolateVolume\<close>: the pinned root descriptor, \<open>openat2\<close>, the \<open>readlink\<close> of
  the descriptor, \<open>fstat\<close>, \<open>fstatfs\<close>, and the mounts that make the directory private.
\<close>

datatype open_result = OpenOk | OpenMissing | OpenErr

datatype private_result = PrivOk | PrivEinval | PrivErr

record open_io =
  oi_root :: bool
  oi_open :: open_result
  oi_readlink :: "string option"
  oi_fstat :: "(int \<times> int \<times> int) option"
  oi_fstatfs :: "int option"
  oi_private :: private_result
  oi_selfbind :: bool
  oi_private2 :: bool

datatype vol_error =
    VolBadID id_error | VolRootRequired | VolNoBacking | VolAbsBacking string | VolDotDot string
  | VolExists string | VolNotFound string | VolInUse string "string list"
  | VolRootFD | VolBackingMissing | VolOpen | VolReadlink | VolFstat | VolStatfs | VolSelfBind | VolPrivate

fun hex_digits :: "nat \<Rightarrow> string" where
  "hex_digits n = (if n < 16 then [''0123456789abcdef'' ! n] else hex_digits (n div 16) @ [''0123456789abcdef'' ! (n mod 16)])"

declare hex_digits.simps [simp del]

definition fsTypeName :: "int \<Rightarrow> string" where
  "fsTypeName t =
     (let u = t mod 2 ^ 32 in
      if u = 0xEF53 then ''ext4''
      else if u = 0x58465342 then ''xfs''
      else if u = 0x9123683E then ''btrfs''
      else if u = 0x2FC12FC1 then ''zfs''
      else if u = 0x01021994 then ''tmpfs''
      else if u = 0x794C7630 then ''overlayfs''
      else ''unknown(0x'' @ (if t < 0 then ''-'' else []) @ hex_digits (nat \<bar>t\<bar>) @ '')'')"

definition openAndIsolateVolume :: "open_io \<Rightarrow> string \<Rightarrow> vol_error + SupVolume" where
  "openAndIsolateVolume io cleanedRel =
     (if \<not> oi_root io then Inl VolRootFD
      else case oi_open io of
        OpenMissing \<Rightarrow> Inl VolBackingMissing
      | OpenErr \<Rightarrow> Inl VolOpen
      | OpenOk \<Rightarrow>
          (case oi_readlink io of None \<Rightarrow> Inl VolReadlink | Some resolved \<Rightarrow>
           case oi_fstat io of None \<Rightarrow> Inl VolFstat | Some (maj, mnr, ino) \<Rightarrow>
           case oi_fstatfs io of None \<Rightarrow> Inl VolStatfs | Some t \<Rightarrow>
             if oi_private io = PrivErr then Inl VolPrivate
             else if oi_private io = PrivEinval \<and> \<not> oi_selfbind io then Inl VolSelfBind
             else if oi_private io = PrivEinval \<and> \<not> oi_private2 io then Inl VolPrivate
             else Inr \<lparr>v_ID = [], v_BackingPath = cleanedRel, v_ReadOnly = False, v_FSType = fsTypeName t,
               v_resolvedAbsPath = resolved, v_devMajor = maj, v_devMinor = mnr, v_inode = ino\<rparr>))"

definition RegisterVolume ::
  "sup_opts \<Rightarrow> open_io \<Rightarrow> SupVolume \<Rightarrow> SupVolume gomap \<Rightarrow> vol_error option \<times> SupVolume gomap"
where
  "RegisterVolume o' io v vols =
     (case ValidateID (v_ID v) of
        Some e \<Rightarrow> (Some (VolBadID e), vols)
      | None \<Rightarrow>
          if VolumeRoot o' = [] then (Some VolRootRequired, vols)
          else if v_BackingPath v = [] then (Some VolNoBacking, vols)
          else if IsAbs (v_BackingPath v) then (Some (VolAbsBacking (v_BackingPath v)), vols)
          else if containsDotDot (v_BackingPath v) then (Some (VolDotDot (v_BackingPath v)), vols)
          else if HasPrefix (v_BackingPath v) ''/'' then (Some (VolAbsBacking (v_BackingPath v)), vols)
          else case gm_get vols (v_ID v) of
            Some cur \<Rightarrow>
              if v_BackingPath cur = Clean (v_BackingPath v) \<and> v_ReadOnly cur = v_ReadOnly v then (None, vols)
              else (Some (VolExists (v_ID v)), vols)
          | None \<Rightarrow>
              (case openAndIsolateVolume io (Clean (v_BackingPath v)) of
                 Inl e \<Rightarrow> (Some e, vols)
               | Inr resolved \<Rightarrow>
                   (None, gm_set (v_ID v) (resolved\<lparr>v_ID := v_ID v, v_ReadOnly := v_ReadOnly v\<rparr>) vols)))"

definition appsReferencingVolume :: "Supervisor \<Rightarrow> string \<Rightarrow> string list" where
  "appsReferencingVolume s volumeID =
     map fst (filter (\<lambda>(appID, a). list_ex (\<lambda>ref. ref = volumeID) (a_volumeRefs (app_at s a))) (sp_apps s))"

definition UnregisterVolume ::
  "Supervisor \<Rightarrow> string \<Rightarrow> bool \<Rightarrow> SupVolume gomap \<Rightarrow> vol_error option \<times> SupVolume gomap"
where
  "UnregisterVolume s i force vols =
     (if gm_get vols i = None then (Some (VolNotFound i), vols)
      else if \<not> force \<and> appsReferencingVolume s i \<noteq> []
      then (Some (VolInUse i (appsReferencingVolume s i)), vols)
      else (None, gm_del i vols))"

definition VolumeOf :: "SupVolume gomap \<Rightarrow> string \<Rightarrow> SupVolume option" where
  "VolumeOf vols i = gm_get vols i"

definition sup_Volumes :: "SupVolume gomap \<Rightarrow> SupVolume list" where
  "sup_Volumes vols = insertion_sort v_ID (map snd vols)"

section \<open>Resolving an app's mounts\<close>

record resolvedMount =
  rm_VolumeID :: string
  rm_SubPath :: string
  rm_HostTarget :: string
  rm_ReadOnly :: bool

datatype mount_error =
    MChrootRelative | MChrootRoot | MVolumeNotFound nat | MSubPathAbs nat | MSubPathDotDot nat
  | MEmptyTarget nat | MTargetRelative nat | MTargetDotDot nat | MEscapes nat | MNotAllowed nat | MDuplicate nat

definition resolve_one ::
  "sup_opts \<Rightarrow> SupVolume gomap \<Rightarrow> string \<Rightarrow> string list \<Rightarrow> nat \<Rightarrow> VolumeMount \<Rightarrow> mount_error + resolvedMount"
where
  "resolve_one o' vols cleanedChroot seenTargets i m =
     (case gm_get vols (vm_VolumeID m) of
        None \<Rightarrow> Inl (MVolumeNotFound i)
      | Some vol \<Rightarrow>
          if vm_SubPath m \<noteq> [] \<and> IsAbs (vm_SubPath m) then Inl (MSubPathAbs i)
          else if vm_SubPath m \<noteq> [] \<and> HasPrefix (vm_SubPath m) ''/'' then Inl (MSubPathAbs i)
          else if vm_SubPath m \<noteq> [] \<and> containsDotDot (vm_SubPath m) then Inl (MSubPathDotDot i)
          else if vm_Target m = [] then Inl (MEmptyTarget i)
          else if \<not> IsAbs (vm_Target m) then Inl (MTargetRelative i)
          else if containsDotDot (vm_Target m) then Inl (MTargetDotDot i)
          else
            let effectiveRO = (v_ReadOnly vol \<or> vm_ReadOnly m);
                tgtClean = Clean (vm_Target m);
                hostTarget = (if cleanedChroot \<noteq> [] then Clean (Join cleanedChroot tgtClean) else tgtClean)
            in
            if cleanedChroot \<noteq> [] \<and> \<not> pathInside hostTarget cleanedChroot then Inl (MEscapes i)
            else if cleanedChroot = [] \<and> \<not> targetUnderAllowlist hostTarget (AllowedTargetPrefixes o') then Inl (MNotAllowed i)
            else if hostTarget \<in> set seenTargets then Inl (MDuplicate i)
            else Inr \<lparr>rm_VolumeID = vm_VolumeID m, rm_SubPath = Clean (vm_SubPath m),
              rm_HostTarget = hostTarget, rm_ReadOnly = effectiveRO\<rparr>)"

fun resolve_loop ::
  "sup_opts \<Rightarrow> SupVolume gomap \<Rightarrow> string \<Rightarrow> nat \<Rightarrow> VolumeMount list \<Rightarrow> string list \<Rightarrow> resolvedMount list \<Rightarrow>
   mount_error + resolvedMount list"
where
  "resolve_loop o' vols chroot i [] seen out = Inr out"
| "resolve_loop o' vols chroot i (m # ms) seen out =
     (case resolve_one o' vols chroot seen i m of
        Inl e \<Rightarrow> Inl e
      | Inr rm \<Rightarrow> resolve_loop o' vols chroot (Suc i) ms (rm_HostTarget rm # seen) (out @ [rm]))"

definition resolveVolumeMounts ::
  "sup_opts \<Rightarrow> SupVolume gomap \<Rightarrow> VolumeMount list \<Rightarrow> string \<Rightarrow> mount_error + resolvedMount list"
where
  "resolveVolumeMounts o' vols mounts chrootDir =
     (if mounts = [] then Inr []
      else if chrootDir \<noteq> [] \<and> \<not> IsAbs chrootDir then Inl MChrootRelative
      else
        let cleanedChroot = (if chrootDir \<noteq> [] then Clean chrootDir else []) in
        if chrootDir \<noteq> [] \<and> cleanedChroot = ''/'' then Inl MChrootRoot
        else resolve_loop o' vols cleanedChroot 0 mounts [] [])"

section \<open>Lemmas\<close>

text \<open>What a resolved mount promises, given the mount it comes from.\<close>

definition mount_ok :: "sup_opts \<Rightarrow> SupVolume gomap \<Rightarrow> string \<Rightarrow> VolumeMount \<Rightarrow> resolvedMount \<Rightarrow> bool" where
  "mount_ok o' vols chroot m rm \<longleftrightarrow>
     rm_VolumeID rm = vm_VolumeID m \<and> IsAbs (rm_HostTarget rm) \<and>
     rm_SubPath rm = Clean (vm_SubPath m) \<and> \<not> IsAbs (rm_SubPath rm) \<and>
     (\<forall>b. IsAbs b \<longrightarrow> beneath (Join b (rm_SubPath rm)) b) \<and>
     (\<exists>vol. gm_get vols (vm_VolumeID m) = Some vol \<and> rm_ReadOnly rm = (v_ReadOnly vol \<or> vm_ReadOnly m)) \<and>
     (if chroot \<noteq> [] then path_segs (rm_HostTarget rm) = path_segs chroot @ path_segs (vm_Target m)
      else path_segs (rm_HostTarget rm) = path_segs (vm_Target m) \<and>
        (\<forall>f \<in> set forbiddenTargetPrefixes. \<not> beneath (rm_HostTarget rm) f) \<and>
        (\<exists>q \<in> set (AllowedTargetPrefixes o'). IsAbs q \<and> path_segs q \<noteq> [] \<and> beneath (rm_HostTarget rm) q))"

lemma forbidden_abs: "f \<in> set forbiddenTargetPrefixes \<Longrightarrow> IsAbs f"
  by (auto simp: IsAbs_def HasPrefix_def)

lemma isForbidden_iff: "IsAbs t \<Longrightarrow> isForbiddenHostPath t \<longleftrightarrow> (\<exists>f \<in> set forbiddenTargetPrefixes. beneath t f)"
  unfolding isForbiddenHostPath_def list_ex_iff using pathInside_iff forbidden_abs by blast

lemma beneath_Clean: "IsAbs c \<Longrightarrow> beneath (Clean c) p = beneath c p"
  by (simp add: beneath_def path_segs_Clean)

lemma allowlist_iff:
  assumes "IsAbs t"
  shows "targetUnderAllowlist t allow \<longleftrightarrow> (\<forall>f \<in> set forbiddenTargetPrefixes. \<not> beneath t f) \<and>
    (\<exists>q \<in> set allow. IsAbs q \<and> path_segs q \<noteq> [] \<and> beneath t q)"
proof -
  have q: "pathInside (Clean t) (Clean q) \<longleftrightarrow> beneath t q" if "IsAbs q" for q
    using pathInside_iff [OF IsAbs_Clean [OF assms] IsAbs_Clean [OF that]] that assms
    by (simp add: beneath_def path_segs_Clean)
  show ?thesis
    unfolding targetUnderAllowlist_def Let_def isForbidden_iff [OF IsAbs_Clean [OF assms]] list_ex_iff
    using q Clean_root_iff beneath_Clean [OF assms] by auto
qed

lemma Join_chroot:
  assumes "IsAbs c" and "IsAbs t"
  shows "IsAbs (Clean (Join (Clean c) (Clean t))) \<and>
    path_segs (Clean (Join (Clean c) (Clean t))) = path_segs c @ path_segs t"
proof -
  have j: "Join (Clean c) (Clean t) = Clean (Clean c @ sep # Clean t)"
    using assms by (simp add: Join_def Clean_abs)
  have a: "IsAbs (Join (Clean c) (Clean t))" unfolding j using assms by (simp add: Clean_abs IsAbs_def HasPrefix_def)
  moreover have "path_segs (Join (Clean c) (Clean t)) = path_segs c @ path_segs t"
    using path_segs_Join_clean [OF path_segs_proper [OF assms(1)] path_segs_proper [OF assms(2)]] assms
    by (simp add: Clean_abs)
  ultimately show ?thesis by (simp add: path_segs_Clean IsAbs_Clean)
qed

text \<open>A relative path without a \<open>".."\<close> segment stays relative and traversal-free when cleaned.\<close>

lemma clean_segs_plain:
  assumes "\<forall>w \<in> set ws. sep \<notin> set w \<and> w \<noteq> ''..''" and "list_all proper_seg out"
  shows "list_all proper_seg (clean_segs r ws out)"
  using assms by (induction ws arbitrary: out) (auto simp: proper_seg_def)

lemma Clean_relative:
  assumes "\<not> IsAbs q" and "\<not> containsDotDot q"
  shows "\<not> IsAbs (Clean q) \<and> ''..'' \<notin> set (split_on sep (Clean q))"
proof (cases "q = []")
  case True
  then show ?thesis by (simp add: Clean_def IsAbs_def HasPrefix_def path_segs_def)
next
  case False
  then have "\<forall>w \<in> set (split_on sep q). sep \<notin> set w \<and> w \<noteq> ''..''"
    using assms(2) by (auto simp: containsDotDot_def list_ex_iff dest: split_on_no_sep)
  then have pr: "list_all proper_seg (path_segs q)" unfolding path_segs_def by (rule clean_segs_plain) simp
  show ?thesis
  proof (cases "path_segs q")
    case Nil
    then show ?thesis using assms(1) by (simp add: Clean_def IsAbs_def HasPrefix_def)
  next
    case (Cons w ws)
    have sp: "split_on sep (join_on sep (w # ws)) = w # ws"
      using split_join_proper [of "w # ws"] pr Cons by simp
    have cl: "Clean q = join_on sep (w # ws)" using assms(1) Cons by (simp add: Clean_def)
    obtain x xs where w: "w = x # xs" "x \<noteq> sep" using pr Cons by (cases w) (auto simp: proper_seg_def)
    then have "\<not> IsAbs (join_on sep (w # ws))" by (cases ws) (auto simp: IsAbs_def HasPrefix_def)
    then show ?thesis unfolding cl sp using pr Cons by (auto simp: proper_seg_def list_all_iff)
  qed
qed

lemma clean_segs_app: "clean_segs r (ws @ vs) out = clean_segs r vs (rev (clean_segs r ws out))"
  by (induction ws arbitrary: out) (auto split: list.split)

lemma clean_segs_nodots: "''..'' \<notin> set vs \<Longrightarrow> \<exists>ts. clean_segs r vs out = rev out @ ts"
proof (induction vs arbitrary: out)
  case (Cons v vs)
  then show ?case using Cons.IH [of out] Cons.IH [of "v # out"] by auto
qed simp

text \<open>Joined to an absolute directory, such a path stays beneath it.\<close>

lemma Join_beneath:
  assumes "IsAbs b" and "''..'' \<notin> set (split_on sep q)"
  shows "beneath (Join b q) b"
proof (cases "q = []")
  case True
  then show ?thesis using assms(1) by (auto simp: Join_def beneath_def path_segs_Clean IsAbs_def HasPrefix_def)
next
  case False
  have ne: "b \<noteq> []" and abs: "IsAbs (b @ sep # q)" using assms(1) by (cases b, auto simp: IsAbs_def HasPrefix_def)+
  have "path_segs (Join b q) = clean_segs True (split_on sep q) (rev (path_segs b))"
    using ne False abs assms(1) by (simp add: Join_def path_segs_Clean) (simp add: path_segs_def split_on_append clean_segs_app)
  then show ?thesis using clean_segs_nodots [OF assms(2), of True "rev (path_segs b)"] by (auto simp: beneath_def)
qed

lemma resolve_one_ok:
  assumes "resolve_one o' vols (if c = [] then [] else Clean c) seen i m = Inr rm" and "c \<noteq> [] \<Longrightarrow> IsAbs c"
  shows "mount_ok o' vols c m rm \<and> rm_HostTarget rm \<notin> set seen"
proof -
  obtain vol where vol: "gm_get vols (vm_VolumeID m) = Some vol" using assms(1)
    by (auto simp: resolve_one_def split: option.splits)
  have abs: "IsAbs (vm_Target m)" and subp: "rm_SubPath rm = Clean (vm_SubPath m)"
    "vm_SubPath m \<noteq> [] \<Longrightarrow> \<not> IsAbs (vm_SubPath m) \<and> \<not> containsDotDot (vm_SubPath m)"
    using assms(1) vol by (auto simp: resolve_one_def Let_def split: if_splits)
  have "\<not> IsAbs (vm_SubPath m)" "\<not> containsDotDot (vm_SubPath m)"
    using subp(2) by (cases "vm_SubPath m = []", auto simp: IsAbs_def HasPrefix_def containsDotDot_def)+
  from Clean_relative [OF this] have sub: "rm_SubPath rm = Clean (vm_SubPath m) \<and> \<not> IsAbs (rm_SubPath rm) \<and>
      (\<forall>b. IsAbs b \<longrightarrow> beneath (Join b (rm_SubPath rm)) b)"
    using Join_beneath subp(1) by simp
  show ?thesis
  proof (cases "c = []")
    case True
    then have rm: "rm_HostTarget rm = Clean (vm_Target m)" "rm_VolumeID rm = vm_VolumeID m"
      "rm_ReadOnly rm = (v_ReadOnly vol \<or> vm_ReadOnly m)" "rm_HostTarget rm \<notin> set seen"
      "targetUnderAllowlist (Clean (vm_Target m)) (AllowedTargetPrefixes o')"
      using assms(1) vol by (auto simp: resolve_one_def Let_def split: if_splits)
    then show ?thesis
      using True vol abs sub allowlist_iff [OF IsAbs_Clean [OF abs]]
      by (auto simp: mount_ok_def IsAbs_Clean path_segs_Clean)
  next
    case False
    then have "Clean c \<noteq> []" using assms(2) by (simp add: Clean_abs)
    then have rm: "rm_HostTarget rm = Clean (Join (Clean c) (Clean (vm_Target m)))" "rm_VolumeID rm = vm_VolumeID m"
      "rm_ReadOnly rm = (v_ReadOnly vol \<or> vm_ReadOnly m)" "rm_HostTarget rm \<notin> set seen"
      using assms(1) vol False by (auto simp: resolve_one_def Let_def split: if_splits)
    then show ?thesis using Join_chroot [OF assms(2) [OF False] abs] False vol sub by (auto simp: mount_ok_def)
  qed
qed

lemma resolve_loop_ok:
  assumes "resolve_loop o' vols (if c = [] then [] else Clean c) i ms seen out = Inr res" and "c \<noteq> [] \<Longrightarrow> IsAbs c"
    and "set seen = rm_HostTarget ` set out" and "distinct (map rm_HostTarget out)"
  shows "\<exists>new. res = out @ new \<and> list_all2 (mount_ok o' vols c) ms new \<and> distinct (map rm_HostTarget res)"
  using assms(1,3,4)
proof (induction ms arbitrary: i seen out)
  case Nil
  then show ?case by simp
next
  case (Cons m ms)
  obtain rm where rm: "resolve_one o' vols (if c = [] then [] else Clean c) seen i m = Inr rm"
    using Cons.prems(1) by (auto split: sum.splits)
  note ok = resolve_one_ok [OF rm assms(2)]
  have "\<exists>new. res = (out @ [rm]) @ new \<and> list_all2 (mount_ok o' vols c) ms new \<and> distinct (map rm_HostTarget res)"
    by (rule Cons.IH [of "Suc i" "rm_HostTarget rm # seen"]) (use Cons.prems rm ok in auto)
  with ok show ?case by auto
qed


definition vols_ok :: "SupVolume gomap \<Rightarrow> bool" where
  "vols_ok vols \<longleftrightarrow> gm_ok vols \<and>
     gm_all (\<lambda>i v. v_ID v = i \<and> id_grammar i \<and> \<not> IsAbs (v_BackingPath v) \<and>
       ''..'' \<notin> set (split_on sep (v_BackingPath v))) vols"

lemma openAndIsolate_path: "openAndIsolateVolume io q = Inr v \<Longrightarrow> v_BackingPath v = q"
  by (auto simp: openAndIsolateVolume_def split: if_splits open_result.splits option.splits)

lemma RegisterVolume_ok:
  assumes "vols_ok vols"
  shows "vols_ok (snd (RegisterVolume o' io v vols))"
proof (cases "snd (RegisterVolume o' io v vols) = vols")
  case False
  then obtain r where r: "openAndIsolateVolume io (Clean (v_BackingPath v)) = Inr r"
    and reg: "snd (RegisterVolume o' io v vols) = gm_set (v_ID v) (r\<lparr>v_ID := v_ID v, v_ReadOnly := v_ReadOnly v\<rparr>) vols"
    and g: "ValidateID (v_ID v) = None" "\<not> IsAbs (v_BackingPath v)" "\<not> containsDotDot (v_BackingPath v)"
    by (auto simp: RegisterVolume_def split: option.splits if_splits sum.splits)
  show ?thesis
    using assms g Clean_relative [OF g(2,3)] openAndIsolate_path [OF r] unfolding reg
    by (auto simp: vols_ok_def ValidateID_grammar)
qed (use assms in simp)

datatype vol_op = VRegister open_io SupVolume | VUnregister Supervisor string bool

fun vol_exec :: "sup_opts \<Rightarrow> vol_op \<Rightarrow> SupVolume gomap \<Rightarrow> SupVolume gomap" where
  "vol_exec o' (VRegister io v) vols = snd (RegisterVolume o' io v vols)"
| "vol_exec o' (VUnregister s i force) vols = snd (UnregisterVolume s i force vols)"

definition vol_err :: "sup_opts \<Rightarrow> vol_op \<Rightarrow> SupVolume gomap \<Rightarrow> bool" where
  "vol_err o' op vols = (case op of VRegister io v \<Rightarrow> fst (RegisterVolume o' io v vols) \<noteq> None
     | VUnregister s i force \<Rightarrow> fst (UnregisterVolume s i force vols) \<noteq> None)"

interpretation vol_sys: fallible_system "vol_exec o'" "\<lambda>_. True" vols_ok "vol_err o'" "\<lambda>vols. vols" for o'
proof
  show "vols_ok vols \<Longrightarrow> vols_ok (vol_exec o' op vols)" for vols op
    using RegisterVolume_ok by (cases op) (auto simp: UnregisterVolume_def vols_ok_def)
  show "vols_ok vols \<Longrightarrow> vol_err o' op vols \<Longrightarrow> vol_exec o' op vols = vols" for vols op
    by (cases op) (auto simp: vol_err_def RegisterVolume_def UnregisterVolume_def split: option.splits sum.splits if_splits)
qed

section \<open>Properties\<close>

text \<open>
  C27: Mount containment. When the mounts of an app resolve, there is one result per declared mount, with
  pairwise different targets; each is read-only exactly when the volume or the mount says so; its sub-path
  is relative and, joined to any absolute directory, stays beneath that directory; with a chroot
  its target is the chroot directory followed by the declared target's segments; without one it lies
  under an absolute allowlist entry other than the root and under none of the twelve system
  directories, even when an allowlist entry contains them.
\<close>

theorem resolve_contained:
  assumes "resolveVolumeMounts o' vols mounts chroot = Inr res"
  shows "list_all2 (mount_ok o' vols chroot) mounts res \<and> distinct (map rm_HostTarget res)"
proof (cases "mounts = []")
  case True
  then show ?thesis using assms by (simp add: resolveVolumeMounts_def)
next
  case False
  have abs: "chroot \<noteq> [] \<Longrightarrow> IsAbs chroot"
    using assms False by (auto simp: resolveVolumeMounts_def split: if_splits)
  have "resolve_loop o' vols (if chroot = [] then [] else Clean chroot) 0 mounts [] [] = Inr res"
    using assms False by (auto simp: resolveVolumeMounts_def Let_def split: if_splits)
  from resolve_loop_ok [OF this abs] show ?thesis by auto
qed

definition demo_volume :: SupVolume where
  "demo_volume = \<lparr>v_ID = ''data'', v_BackingPath = ''t1'', v_ReadOnly = True, v_FSType = ''ext4'',
     v_resolvedAbsPath = ''/srv/t1'', v_devMajor = 8, v_devMinor = 1, v_inode = 42\<rparr>"

definition demo_mount :: VolumeMount where
  "demo_mount = \<lparr>vm_VolumeID = ''data'', vm_SubPath = [], vm_Target = ''/x'', vm_ReadOnly = False\<rparr>"

lemmas path_eval = Clean_def path_segs_def IsAbs_def HasPrefix_def Join_def containsDotDot_def
  pathInside_def Rel_def isForbiddenHostPath_def targetUnderAllowlist_def Let_def

theorem resolve_contained_witness:
  "\<exists>rm. resolveVolumeMounts (New_opts\<lparr>AllowedTargetPrefixes := [''/m'']\<rparr>) [(''data'', demo_volume)]
      [demo_mount\<lparr>vm_SubPath := ''a/./b'', vm_Target := ''/m/a''\<rparr>] [] = Inr [rm] \<and>
    mount_ok (New_opts\<lparr>AllowedTargetPrefixes := [''/m'']\<rparr>) [(''data'', demo_volume)] []
      (demo_mount\<lparr>vm_SubPath := ''a/./b'', vm_Target := ''/m/a''\<rparr>) rm"
proof -
  let ?o = "New_opts\<lparr>AllowedTargetPrefixes := [''/m'']\<rparr>"
    and ?m = "demo_mount\<lparr>vm_SubPath := ''a/./b'', vm_Target := ''/m/a''\<rparr>"
  obtain rm where r: "resolveVolumeMounts ?o [(''data'', demo_volume)] [?m] [] = Inr [rm]"
    by (simp add: resolveVolumeMounts_def resolve_one_def demo_mount_def path_eval)
  with resolve_contained [OF r] show ?thesis by auto
qed

text \<open>
  The system directories are only protected without a chroot: with the sandbox chroot set to one of
  them (say \<open>/etc\<close>), a declared target lands inside it.
\<close>

theorem chroot_skips_forbidden:
  assumes "f \<in> set forbiddenTargetPrefixes" and "gm_get vols (vm_VolumeID m) = Some vol"
    and "vm_SubPath m = []" and "vm_Target m = ''/x''"
  shows "\<exists>rm. resolveVolumeMounts o' vols [m] f = Inr [rm] \<and> beneath (rm_HostTarget rm) f"
proof -
  let ?h = "Clean (Join (Clean f) (Clean ''/x''))"
  have f: "IsAbs f" by (rule forbidden_abs [OF assms(1)])
  have segs: "path_segs f \<noteq> []" using assms(1) by (auto simp: path_segs_def IsAbs_def HasPrefix_def)
  have x: "IsAbs ''/x''" "\<not> containsDotDot ''/x''" by (simp_all add: IsAbs_def HasPrefix_def containsDotDot_def)
  note j = Join_chroot [OF f x(1)]
  have "beneath ?h (Clean f)" using j by (simp add: beneath_def path_segs_Clean [OF f])
  then have inside: "pathInside ?h (Clean f)" using pathInside_iff [OF _ IsAbs_Clean [OF f]] j by blast
  have ne: "f \<noteq> []" "Clean f \<noteq> []" "Clean f \<noteq> ''/''"
    using f segs Clean_root_iff [OF f] by (auto simp: Clean_abs IsAbs_def HasPrefix_def)
  have one: "resolve_one o' vols (Clean f) [] 0 m =
      Inr \<lparr>rm_VolumeID = vm_VolumeID m, rm_SubPath = Clean [], rm_HostTarget = ?h, rm_ReadOnly = (v_ReadOnly vol \<or> vm_ReadOnly m)\<rparr>"
    using assms(2,3,4) x inside ne by (simp add: resolve_one_def Let_def)
  then have "resolveVolumeMounts o' vols [m] f =
      Inr [\<lparr>rm_VolumeID = vm_VolumeID m, rm_SubPath = Clean [], rm_HostTarget = ?h, rm_ReadOnly = (v_ReadOnly vol \<or> vm_ReadOnly m)\<rparr>]"
    using f ne by (simp add: resolveVolumeMounts_def)
  then show ?thesis using j by (auto simp: beneath_def)
qed

theorem chroot_skips_forbidden_witness:
  "\<exists>rm. resolveVolumeMounts New_opts [(''data'', demo_volume)] [demo_mount] ''/etc'' = Inr [rm] \<and>
    beneath (rm_HostTarget rm) ''/etc''"
  by (rule chroot_skips_forbidden) (simp_all add: demo_mount_def)

text \<open>
  C28: Volume registry. After any history of registrations and removals every volume is stored under its own
  valid id with a relative backing path that has no \<open>".."\<close> segment; a failing operation changes nothing;
  and a volume that a registered app references is only removed by force.
\<close>

theorem volume_registry:
  assumes "vols = fold (vol_exec o') ops []"
  shows "vols_ok vols \<and> (vol_err o' op vols \<longrightarrow> vol_exec o' op vols = vols) \<and>
    (gm_get (sp_apps s) i = Some a \<and> v \<in> set (a_volumeRefs (app_at s a)) \<longrightarrow>
       snd (UnregisterVolume s v False vols) = vols \<and> fst (UnregisterVolume s v False vols) \<noteq> None)"
proof -
  have ok: "vols_ok vols" unfolding assms by (rule vol_sys.inv_run) (simp_all add: vols_ok_def list_all_iff)
  have "appsReferencingVolume s v \<noteq> []"
    if "gm_get (sp_apps s) i = Some a" "v \<in> set (a_volumeRefs (app_at s a))"
    using gm_get_in [OF that(1)] that(2) by (auto simp: appsReferencingVolume_def list_ex_iff filter_empty_conv)
  then show ?thesis
    using ok vol_sys.err_view [OF ok] by (auto simp: UnregisterVolume_def)
qed

definition demo_open :: open_io where
  "demo_open = \<lparr>oi_root = True, oi_open = OpenOk, oi_readlink = Some ''/srv/t1'', oi_fstat = Some (8, 1, 42),
     oi_fstatfs = Some 0xEF53, oi_private = PrivOk, oi_selfbind = True, oi_private2 = True\<rparr>"

theorem volume_registry_witness:
  "vols_ok (fold (vol_exec (New_opts\<lparr>VolumeRoot := ''/srv''\<rparr>)) [VRegister demo_open demo_volume] [])"
  using volume_registry [OF refl] by blast

end
