(* ===== verification/Sup_Mounts.thy ===== *)
theory Sup_Mounts
  imports Sup_Volumes
begin

text \<open>
  \<open>internal/supervisor/volumemount_linux.go\<close> and \<open>mount_atomic_linux.go\<close>: binding a resolved mount. The
  model keeps the decisions and the sequence of mount calls; the results of the system calls are in
  \<open>bind_io\<close>, and \<open>/proc/self/mountinfo\<close> is its list of lines (\<open>None\<close> when it cannot be opened).
\<close>

section \<open>Reading mountinfo\<close>

definition backslash :: char where
  "backslash = CHR 0x5C"

text \<open>The early return for a string without a backslash is the general case.\<close>

fun unescapeMountinfo :: "string \<Rightarrow> string" where
  "unescapeMountinfo [] = []"
| "unescapeMountinfo (c # s) =
     (if c = backslash \<and> 3 \<le> length s then
        (case ParseUint 8 (take 3 s) of
           Some n \<Rightarrow> if n < 256 then char_of n # unescapeMountinfo (drop 3 s) else c # unescapeMountinfo s
         | None \<Rightarrow> c # unescapeMountinfo s)
      else c # unescapeMountinfo s)"

definition endsAtBoundary :: "string \<Rightarrow> string \<Rightarrow> bool" where
  "endsAtBoundary path suffix \<longleftrightarrow>
     (if path = suffix then True
      else if \<not> HasSuffix path suffix then False
      else if length path \<le> length suffix then False
      else path ! (length path - length suffix - 1) = sep)"

text \<open>\<open>strings.SplitN(s, ":", 2)\<close> into two parts; \<open>None\<close> when there is no colon.\<close>

definition split_colon :: "string \<Rightarrow> (string \<times> string) option" where
  "split_colon s =
     (if CHR '':'' \<in> set s
      then Some (takeWhile (\<lambda>c. c \<noteq> CHR '':'') s, tl (dropWhile (\<lambda>c. c \<noteq> CHR '':'') s)) else None)"

definition ParseUint32 :: "string \<Rightarrow> int option" where
  "ParseUint32 s = (case ParseUint 10 s of Some n \<Rightarrow> if n < 2 ^ 32 then Some (int n) else None | None \<Rightarrow> None)"

text \<open>Whether the mount found at the target has the source \<open>(major, minor)\<close> and the volume's path.\<close>

definition same_source :: "SupVolume \<Rightarrow> int \<times> int \<Rightarrow> string list \<Rightarrow> bool" where
  "same_source vol src fs =
     (case split_colon (fs ! 2) of
        None \<Rightarrow> False
      | Some (ma, mi) \<Rightarrow>
          (case (ParseUint32 ma, ParseUint32 mi) of
             (Some major, Some minor) \<Rightarrow>
               if (major, minor) \<noteq> src then False
               else
                 let root = unescapeMountinfo (fs ! 3) in
                 if root = ''/'' then True else endsAtBoundary (v_resolvedAbsPath vol) root
           | _ \<Rightarrow> False))"

fun bound_scan :: "string \<Rightarrow> SupVolume \<Rightarrow> int \<times> int \<Rightarrow> string list \<Rightarrow> bool \<times> bool" where
  "bound_scan target vol src [] = (False, False)"
| "bound_scan target vol src (l # ls) =
     (let fs = Fields l in
      if length fs < 5 then bound_scan target vol src ls
      else if Clean (unescapeMountinfo (fs ! 4)) \<noteq> target then bound_scan target vol src ls
      else (True, same_source vol src fs))"

definition isAlreadyBoundExact :: "string list option \<Rightarrow> string \<Rightarrow> SupVolume \<Rightarrow> int \<times> int \<Rightarrow> (bool \<times> bool) option" where
  "isAlreadyBoundExact mountinfo target vol src =
     map_option (bound_scan (Clean target) vol src) mountinfo"

fun ro_scan :: "string \<Rightarrow> string list \<Rightarrow> bool" where
  "ro_scan target [] = False"
| "ro_scan target (l # ls) =
     (let fs = Fields l in
      if length fs < 6 then ro_scan target ls
      else if Clean (unescapeMountinfo (fs ! 4)) \<noteq> target then ro_scan target ls
      else list_ex (\<lambda>opt. opt = ''ro'') (split_on (CHR '','') (fs ! 5)))"

definition verifyReadOnly :: "string list option \<Rightarrow> string \<Rightarrow> bool option" where
  "verifyReadOnly mountinfo target = map_option (ro_scan (Clean target)) mountinfo"

section \<open>Mounting\<close>

datatype mount_attr = AttrNosuid | AttrNodev | AttrNosymfollow | AttrRdonly | AttrPrivate

datatype errno = ENOSYS | EOther

text \<open>The three stages of the new mount API: \<open>None\<close> is success. The mount appears with all its attributes
  at once, in the third stage.\<close>

record atomic_io =
  ai_open_tree :: "errno option"
  ai_setattr :: "errno option"
  ai_move :: "errno option"

datatype mount_act = ActAttach string "mount_attr list" | ActBind string | ActPrivate string | ActRemountRO string

definition bindAtomic :: "atomic_io \<Rightarrow> string \<Rightarrow> bool \<Rightarrow> errno option \<times> mount_act list" where
  "bindAtomic io target readOnly =
     (case ai_open_tree io of
        Some e \<Rightarrow> (Some e, [])
      | None \<Rightarrow>
          (case ai_setattr io of
             Some e \<Rightarrow> (Some e, [])
           | None \<Rightarrow>
               (case ai_move io of
                  Some e \<Rightarrow> (Some e, [])
                | None \<Rightarrow>
                    (None, [ActAttach target ([AttrNosuid, AttrNodev, AttrNosymfollow] @
                       (if readOnly then [AttrRdonly] else []) @ [AttrPrivate])]))))"

record bind_io =
  bi_open :: open_result
  bi_fstat :: "(int \<times> int \<times> int) option"
  bi_mountinfo :: "string list option"
  bi_mkdir :: bool
  bi_available :: bool
  bi_parent :: bool
  bi_mkdirat :: bool
  bi_atomic :: atomic_io
  bi_leaf :: bool
  bi_bind :: bool
  bi_private :: bool
  bi_remount :: bool
  bi_after :: "string list option"

datatype bind_error =
    BindVolumeNotFound | BindBackingMissing | BindOpen | BindFstat | BindIdentityDrift | BindFSDrift
  | BindCheckMount | BindOtherSource | BindMkdirParent | BindOpenParent | BindMkdirLeaf | BindAtomicErr
  | BindVerify | BindStillRW | BindOpenTarget | BindMount | BindPrivate | BindRemount

text \<open>The check after a read-only mount, shared by the two paths.\<close>

definition check_ro :: "bind_io \<Rightarrow> resolvedMount \<Rightarrow> bind_error option" where
  "check_ro io rm =
     (if \<not> rm_ReadOnly rm then None
      else case verifyReadOnly (bi_after io) (rm_HostTarget rm) of
        None \<Rightarrow> Some BindVerify
      | Some ok \<Rightarrow> if ok then None else Some BindStillRW)"

definition bind_legacy :: "bind_io \<Rightarrow> resolvedMount \<Rightarrow> bind_error option \<times> mount_act list" where
  "bind_legacy io rm =
     (let t = rm_HostTarget rm in
      if \<not> bi_leaf io then (Some BindOpenTarget, [])
      else if \<not> bi_bind io then (Some BindMount, [])
      else if \<not> bi_private io then (Some BindPrivate, [ActBind t])
      else if rm_ReadOnly rm \<and> \<not> bi_remount io then (Some BindRemount, [ActBind t, ActPrivate t])
      else (check_ro io rm, [ActBind t, ActPrivate t] @ (if rm_ReadOnly rm then [ActRemountRO t] else [])))"

definition sub_root :: "resolvedMount \<Rightarrow> bool" where
  "sub_root rm \<longleftrightarrow> rm_SubPath rm = [] \<or> rm_SubPath rm = ''.''"

definition bindOneMount ::
  "bind_io \<Rightarrow> SupVolume gomap \<Rightarrow> resolvedMount \<Rightarrow> bind_error option \<times> mount_act list"
where
  "bindOneMount io vols rm =
     (case gm_get vols (rm_VolumeID rm) of
        None \<Rightarrow> (Some BindVolumeNotFound, [])
      | Some vol \<Rightarrow>
          (case bi_open io of
             OpenMissing \<Rightarrow> (Some BindBackingMissing, [])
           | OpenErr \<Rightarrow> (Some BindOpen, [])
           | OpenOk \<Rightarrow>
               (case bi_fstat io of
                  None \<Rightarrow> (Some BindFstat, [])
                | Some (maj, mnr, ino) \<Rightarrow>
                    if sub_root rm \<and> (maj \<noteq> v_devMajor vol \<or> mnr \<noteq> v_devMinor vol \<or> ino \<noteq> v_inode vol)
                    then (Some BindIdentityDrift, [])
                    else if \<not> sub_root rm \<and> (maj \<noteq> v_devMajor vol \<or> mnr \<noteq> v_devMinor vol)
                    then (Some BindFSDrift, [])
                    else case isAlreadyBoundExact (bi_mountinfo io) (rm_HostTarget rm) vol (maj, mnr) of
                      None \<Rightarrow> (Some BindCheckMount, [])
                    | Some (bound, same) \<Rightarrow>
                        if bound \<and> \<not> same then (Some BindOtherSource, [])
                        else if bound then (None, [])
                        else if \<not> bi_mkdir io then (Some BindMkdirParent, [])
                        else if bi_available io then
                          (if \<not> bi_parent io then (Some BindOpenParent, [])
                           else if \<not> bi_mkdirat io then (Some BindMkdirLeaf, [])
                           else case bindAtomic (bi_atomic io) (rm_HostTarget rm) (rm_ReadOnly rm) of
                             (None, acts) \<Rightarrow> (check_ro io rm, acts)
                           | (Some ENOSYS, _) \<Rightarrow> bind_legacy io rm
                           | (Some EOther, _) \<Rightarrow> (Some BindAtomicErr, []))
                        else bind_legacy io rm)))"

text \<open>The mounts of an app, in order; \<open>ios\<close> are the system calls of each.\<close>

fun bind_all :: "bind_io list \<Rightarrow> SupVolume gomap \<Rightarrow> resolvedMount list \<Rightarrow> bind_error option \<times> mount_act list" where
  "bind_all (io # ios) vols (rm # rms) =
     (case bindOneMount io vols rm of
        (Some e, acts) \<Rightarrow> (Some e, acts)
      | (None, acts) \<Rightarrow> (case bind_all ios vols rms of (e, acts') \<Rightarrow> (e, acts @ acts')))"
| "bind_all ios vols rms = (None, [])"

datatype apply_error = ApplyResolve mount_error | ApplyRootFD | ApplyBind bind_error

definition applyVolumeMounts ::
  "sup_opts \<Rightarrow> bool \<Rightarrow> bind_io list \<Rightarrow> SupVolume gomap \<Rightarrow> VolumeMount list \<Rightarrow> string \<Rightarrow> apply_error option \<times> mount_act list"
where
  "applyVolumeMounts o' root_ok ios vols mounts chrootDir =
     (case resolveVolumeMounts o' vols mounts chrootDir of
        Inl e \<Rightarrow> (Some (ApplyResolve e), [])
      | Inr resolved \<Rightarrow>
          if resolved = [] then (None, [])
          else if \<not> root_ok then (Some ApplyRootFD, [])
          else (case bind_all ios vols resolved of (e, acts) \<Rightarrow> (map_option ApplyBind e, acts)))"


section \<open>Lemmas\<close>

text \<open>The encoding the kernel documents for mountinfo: space, tab, newline and backslash as a backslash and
  three octal digits.\<close>

definition octal3 :: "char \<Rightarrow> string" where
  "octal3 c = (let n = of_char c :: nat in map digit_char [n div 64, n div 8 mod 8, n mod 8])"

fun mountinfo_escape :: "string \<Rightarrow> string" where
  "mountinfo_escape [] = []"
| "mountinfo_escape (c # s) =
     (if c \<in> {CHR '' '', CHR 0x09, CHR 0x0A, backslash} then backslash # octal3 c else [c]) @ mountinfo_escape s"

lemma octal3_decode:
  assumes "c \<in> {CHR '' '', CHR 0x09, CHR 0x0A, backslash}"
  shows "length (octal3 c) = 3 \<and> ParseUint 8 (octal3 c) = Some (of_char c)"
  using assms by (auto simp: octal3_def backslash_def ParseUint_def Let_def)

lemma of_char_256: "(of_char c :: nat) < 256"
  by simp

lemma cleaned_no_double_sep:
  assumes "IsAbs q" and "Clean q = q"
  shows "q \<noteq> r @ sep # sep # t"
proof
  assume q: "q = r @ sep # sep # t"
  let ?segs = "path_segs q"
  have eq: "q = sep # join_on sep ?segs" using assms Clean_abs by metis
  have ne: "?segs \<noteq> []"
  proof
    assume "?segs = []"
    with eq have "q = [sep]" by simp
    with q show False by (cases r) auto
  qed
  have pr: "list_all proper_seg ?segs" by (rule path_segs_proper [OF assms(1)])
  have "split_on sep q = [] # ?segs" using split_join_abs [OF pr] ne eq by simp
  moreover have "split_on sep q = split_on sep r @ [] # split_on sep t"
    unfolding q by (simp add: split_on_append)
  moreover obtain w ws where "split_on sep r = w # ws" by (cases "split_on sep r") auto
  ultimately have "?segs = ws @ [] # split_on sep t" by simp
  then have "[] \<in> set ?segs" by simp
  with pr show False by (auto simp: list_all_iff proper_seg_def)
qed

lemma endsAtBoundary_abs:
  assumes "IsAbs q" and "Clean q = q" and "HasPrefix root ''/''"
  shows "endsAtBoundary q root \<longleftrightarrow> q = root"
proof
  assume e: "endsAtBoundary q root"
  show "q = root"
  proof (rule ccontr)
    assume ne: "q \<noteq> root"
    with e have suf: "HasSuffix q root" and len: "length root < length q"
      and at: "q ! (length q - length root - 1) = sep" by (auto simp: endsAtBoundary_def split: if_splits)
    from suf obtain r where q: "q = r @ root" by (auto simp: HasSuffix_iff)
    with len have r: "r \<noteq> []" by auto
    then have "last r = sep" using at q by (simp add: nth_append last_conv_nth)
    with r have "r = butlast r @ [sep]" by (metis append_butlast_last_id)
    moreover obtain t where "root = sep # t" using assms(3) by (auto simp: HasPrefix_iff)
    ultimately have "q = butlast r @ sep # sep # t" using q by (metis append.assoc append_Cons append_Nil)
    with cleaned_no_double_sep [OF assms(1,2)] show False by blast
  qed
qed (simp add: endsAtBoundary_def)

section \<open>Properties\<close>

text \<open>
  Reading back mountinfo. Decoding the kernel's octal encoding of a path (space, tab, newline and
  backslash) gives the path, for every byte string.
\<close>

theorem unescape_escape: "unescapeMountinfo (mountinfo_escape s) = s"
proof (induction s)
  case Nil
  show ?case by simp
next
  case (Cons c s)
  show ?case
  proof (cases "c \<in> {CHR '' '', CHR 0x09, CHR 0x0A, backslash}")
    case True
    with octal3_decode [OF True] Cons show ?thesis by simp
  next
    case False
    with Cons show ?thesis by auto
  qed
qed

text \<open>Where a bind that succeeds, or that has made a mount call, has come from.\<close>

lemma bind_stages:
  assumes "bindOneMount io vols rm = (err, acts)" and "err = None \<or> acts \<noteq> []"
  obtains vol maj mnr ino bound where "gm_get vols (rm_VolumeID rm) = Some vol" "bi_open io = OpenOk" "bi_fstat io = Some (maj, mnr, ino)"
    "maj = v_devMajor vol" "mnr = v_devMinor vol" "sub_root rm \<longrightarrow> ino = v_inode vol"
    "isAlreadyBoundExact (bi_mountinfo io) (rm_HostTarget rm) vol (maj, mnr) = Some (bound, bound)"
    "if bound then err = None \<and> acts = [] else
       bind_legacy io rm = (err, acts) \<or> bindAtomic (bi_atomic io) (rm_HostTarget rm) (rm_ReadOnly rm) = (None, acts) \<and> err = check_ro io rm"
proof -
  have fresh: "\<not> same" if "isAlreadyBoundExact mi t vol src = Some (False, same)" for mi t vol src same
  proof -
    have "snd (bound_scan t vol src ls) \<longrightarrow> fst (bound_scan t vol src ls)" for t ls
      by (induction ls) (auto simp: Let_def)
    with that show ?thesis by (auto simp: isAlreadyBoundExact_def) (metis fst_conv snd_conv)
  qed
  obtain vol where v: "gm_get vols (rm_VolumeID rm) = Some vol"
    using assms by (cases "gm_get vols (rm_VolumeID rm)") (auto simp: bindOneMount_def)
  have o: "bi_open io = OpenOk" using assms v by (cases "bi_open io") (auto simp: bindOneMount_def)
  obtain maj mnr ino where f: "bi_fstat io = Some (maj, mnr, ino)"
    using assms v o by (cases "bi_fstat io") (auto simp: bindOneMount_def)
  note run = assms(1) [unfolded bindOneMount_def v o f option.case open_result.case prod.case]
  have d: "maj = v_devMajor vol" "mnr = v_devMinor vol" "sub_root rm \<longrightarrow> ino = v_inode vol"
    using run assms(2) by (auto split: if_splits)
  obtain bound same where b: "isAlreadyBoundExact (bi_mountinfo io) (rm_HostTarget rm) vol (maj, mnr) = Some (bound, same)"
    using run assms(2) by (cases "isAlreadyBoundExact (bi_mountinfo io) (rm_HostTarget rm) vol (maj, mnr)") (auto split: if_splits)
  note run' = run [unfolded b option.case prod.case]
  have same: "same = bound"
  proof (cases bound)
    case True
    then show ?thesis using run' assms(2) by (auto split: if_splits)
  next
    case False
    then show ?thesis using fresh b by metis
  qed
  have "if bound then err = None \<and> acts = [] else
      bind_legacy io rm = (err, acts) \<or> bindAtomic (bi_atomic io) (rm_HostTarget rm) (rm_ReadOnly rm) = (None, acts) \<and> err = check_ro io rm"
    using run' assms(2) same by (auto split: if_splits prod.splits option.splits errno.splits)
  with that [OF v o f d b [unfolded same]] show thesis .
qed

text \<open>
  C29: A bind whose source was opened and that reports success, or that has made any mount call, has seen a
  source on the device recorded for its volume at registration, and for a whole volume (no sub-path) with
  the recorded inode. Either it made mount calls: then nothing was mounted at the target before, every
  call is on the resolved target, a mount attached at once is without set-user-id, devices and symlinks
  and private, and success of a read-only projection was confirmed by mountinfo afterwards. Or it made
  none: then it succeeded because mountinfo shows the target bound to that device, and nothing is said
  about whether that older mount is read-only.
\<close>

theorem bind_checked:
  assumes "bindOneMount io vols rm = (err, acts)"
  shows "(err = None \<or> acts \<noteq> [] \<longrightarrow>
      (\<exists>vol maj mnr ino. gm_get vols (rm_VolumeID rm) = Some vol \<and> bi_open io = OpenOk \<and> bi_fstat io = Some (maj, mnr, ino) \<and>
        maj = v_devMajor vol \<and> mnr = v_devMinor vol \<and> (sub_root rm \<longrightarrow> ino = v_inode vol) \<and>
        isAlreadyBoundExact (bi_mountinfo io) (rm_HostTarget rm) vol (maj, mnr) = Some (acts = [], acts = []))) \<and>
    (\<forall>act \<in> set acts. act \<in> {ActBind (rm_HostTarget rm), ActPrivate (rm_HostTarget rm), ActRemountRO (rm_HostTarget rm)} \<or>
      (\<exists>attrs. act = ActAttach (rm_HostTarget rm) attrs \<and> {AttrNosuid, AttrNodev, AttrNosymfollow, AttrPrivate} \<subseteq> set attrs \<and>
        (rm_ReadOnly rm \<longrightarrow> AttrRdonly \<in> set attrs))) \<and>
    (err = None \<and> acts \<noteq> [] \<and> rm_ReadOnly rm \<longrightarrow> verifyReadOnly (bi_after io) (rm_HostTarget rm) = Some True)"
proof (cases "err = None \<or> acts \<noteq> []")
  case True
  obtain vol maj mnr ino bound where st: "gm_get vols (rm_VolumeID rm) = Some vol" "bi_open io = OpenOk" "bi_fstat io = Some (maj, mnr, ino)"
    "maj = v_devMajor vol" "mnr = v_devMinor vol" "sub_root rm \<longrightarrow> ino = v_inode vol"
    "isAlreadyBoundExact (bi_mountinfo io) (rm_HostTarget rm) vol (maj, mnr) = Some (bound, bound)"
    and path: "if bound then err = None \<and> acts = [] else
       bind_legacy io rm = (err, acts) \<or> bindAtomic (bi_atomic io) (rm_HostTarget rm) (rm_ReadOnly rm) = (None, acts) \<and> err = check_ro io rm"
    using bind_stages [OF assms True] by metis
  have "bound \<longleftrightarrow> acts = []"
    using path True by (cases bound) (auto simp: bind_legacy_def bindAtomic_def Let_def split: if_splits option.splits)
  moreover have "check_ro io rm = None \<Longrightarrow> rm_ReadOnly rm \<Longrightarrow> verifyReadOnly (bi_after io) (rm_HostTarget rm) = Some True"
    by (auto simp: check_ro_def split: option.splits if_splits)
  ultimately show ?thesis
    using st path by (cases bound) (auto simp: bind_legacy_def bindAtomic_def Let_def split: if_splits option.splits)
qed auto


definition demo_rm :: resolvedMount where
  "demo_rm = \<lparr>rm_VolumeID = ''data'', rm_SubPath = ''.'', rm_HostTarget = ''/m/a'', rm_ReadOnly = False\<rparr>"

definition demo_bind :: bind_io where
  "demo_bind = \<lparr>bi_open = OpenOk, bi_fstat = Some (8, 1, 42), bi_mountinfo = Some [], bi_mkdir = True,
     bi_available = True, bi_parent = True, bi_mkdirat = True,
     bi_atomic = \<lparr>ai_open_tree = None, ai_setattr = None, ai_move = None\<rparr>, bi_leaf = True, bi_bind = True,
     bi_private = True, bi_remount = True, bi_after = Some []\<rparr>"

theorem bind_checked_witness:
  "\<exists>acts. bindOneMount demo_bind [(''data'', demo_volume)] demo_rm = (None, acts) \<and> acts \<noteq> [] \<and>
    (\<exists>vol maj mnr ino. gm_get [(''data'', demo_volume)] ''data'' = Some vol \<and> bi_fstat demo_bind = Some (maj, mnr, ino) \<and>
      maj = v_devMajor vol \<and> ino = v_inode vol)"
proof -
  obtain acts where b: "bindOneMount demo_bind [(''data'', demo_volume)] demo_rm = (None, acts)" "acts \<noteq> []"
    by (simp add: bindOneMount_def demo_bind_def demo_rm_def demo_volume_def sub_root_def isAlreadyBoundExact_def
        bindAtomic_def check_ro_def)
  from bind_checked [OF b(1)] b show ?thesis by (auto simp: demo_rm_def sub_root_def)
qed

text \<open>
  A mount is not recognised as its own. Mountinfo gives the bound directory relative to the root of its
  filesystem, starting with a slash; the boundary test then asks for a slash in front of that slash,
  which a cleaned path never has. So when the volume's filesystem is not mounted at the host root (a
  data disk), or the mount projects a sub-path, the bind that the previous spawn of the app left behind
  is taken for a foreign mount and the spawn fails.
\<close>

theorem rebind_rejected:
  assumes "gm_get vols (rm_VolumeID rm) = Some vol" and "bi_open io = OpenOk"
    and "bi_fstat io = Some (v_devMajor vol, v_devMinor vol, ino)" and "sub_root rm \<longrightarrow> ino = v_inode vol"
    and "bi_mountinfo io = Some (l # ls)" and "5 \<le> length (Fields l)"
    and "Clean (unescapeMountinfo (Fields l ! 4)) = Clean (rm_HostTarget rm)"
    and "root = unescapeMountinfo (Fields l ! 3)" and "HasPrefix root ''/''" and "root \<noteq> ''/''"
    and "IsAbs (v_resolvedAbsPath vol)" and "Clean (v_resolvedAbsPath vol) = v_resolvedAbsPath vol"
    and "root \<noteq> v_resolvedAbsPath vol"
  shows "bindOneMount io vols rm = (Some BindOtherSource, [])"
proof -
  have "\<not> endsAtBoundary (v_resolvedAbsPath vol) root"
    using endsAtBoundary_abs [OF assms(11,12,9)] assms(13) by simp
  then have "\<not> same_source vol src (Fields l)" for src
    using assms(8,10) by (auto simp: same_source_def Let_def split: option.splits)
  then have "isAlreadyBoundExact (bi_mountinfo io) (rm_HostTarget rm) vol src = Some (True, False)" for src
    using assms(5,6,7) by (simp add: isAlreadyBoundExact_def)
  then show ?thesis using assms(1-4) by (simp add: bindOneMount_def)
qed

definition demo_line :: string where
  "demo_line = ''36 35 8:1 /t1 /m/a rw - ext4''"

lemma demo_line_fields: "Fields demo_line = [''36'', ''35'', ''8:1'', ''/t1'', ''/m/a'', ''rw'', ''-'', ''ext4'']"
  by (simp add: demo_line_def Fields_def FieldsFunc_def is_space_def)

theorem rebind_rejected_witness:
  "bindOneMount (demo_bind\<lparr>bi_mountinfo := Some [demo_line]\<rparr>) [(''data'', demo_volume)] demo_rm = (Some BindOtherSource, [])"
  by (rule rebind_rejected [where l = demo_line and ls = "[]" and root = "''/t1''" and vol = demo_volume and ino = 42])
    (simp_all add: demo_line_fields demo_rm_def demo_volume_def demo_bind_def backslash_def path_eval)

end
