(* ===== verification/State_Wal.thy ===== *)
theory State_Wal
  imports Sup_Config
begin

text \<open>
  \<open>internal/state\<close>, the persisted data and the write-ahead log (\<open>wal.go\<close>, the types of \<open>store.go\<close>
  and \<open>release.go\<close>).

  Files. The bytes of \<open>state.json\<close> are \<open>JSON st\<close> when they are the JSON text of the \<open>State\<close> value
  \<open>st\<close> (an absent field decodes to Go's zero value, so a version-1 document is a \<open>State\<close> whose
  metadata are all zero), \<open>JSONHead v s\<close> when they are JSON with the version \<open>v\<close> whose other fields do
  not decode as a \<open>State\<close>, and \<open>Bytes s\<close> when they are no JSON text; \<open>Bytes []\<close> is the empty file.
  A line of the WAL is a record or text that does not decode, and it may lack its newline after a
  torn write. SHA-256 is a parameter \<open>sha\<close> of the definitions that hash.

  Failure. Every system call of an append takes its outcome from \<open>append_io\<close>: the theorems hold for
  every combination of outcomes.
\<close>

section \<open>The persisted data\<close>

type_synonym time = int

record AppMetadata =
  md_UID :: string
  md_Generation :: int
  md_ObservedGeneration :: int
  md_ResourceVersion :: int
  md_CreationTimestamp :: time

definition zero_AppMetadata :: AppMetadata where
  "zero_AppMetadata = \<lparr>md_UID = [], md_Generation = 0, md_ObservedGeneration = 0,
     md_ResourceVersion = 0, md_CreationTimestamp = 0\<rparr>"

type_synonym ReleasePhase = string

abbreviation ReleasePhaseActive :: ReleasePhase where "ReleasePhaseActive \<equiv> ''Active''"
abbreviation ReleasePhaseSuperseded :: ReleasePhase where "ReleasePhaseSuperseded \<equiv> ''Superseded''"
abbreviation ReleasePhaseRolledBack :: ReleasePhase where "ReleasePhaseRolledBack \<equiv> ''RolledBack''"

record ReleaseSpec =
  rs_AppUID :: string
  rs_ReleaseSeq :: int
  rs_GitSha :: string
  rs_Image :: string
  rs_EnvHash :: string
  rs_CreatedBy :: string
  rs_RolledBackFrom :: int
  rs_OriginalArtifactRelease :: int
  rs_ConfigSnapshot :: "Config option"

record Release =
  rel_UID :: string
  rel_Phase :: ReleasePhase
  rel_CreationTimestamp :: time
  rel_Spec :: ReleaseSpec

record PersistedApp =
  pa_Config :: Config
  pa_Metadata :: AppMetadata
  pa_Releases :: "Release list"

record State =
  st_Version :: int
  st_Volumes :: "Volume list"
  st_Apps :: "PersistedApp list"

datatype bytes = JSON State | JSONHead int string | Bytes string

fun Unmarshal :: "bytes \<Rightarrow> State option" where
  "Unmarshal (JSON st) = Some st"
| "Unmarshal (JSONHead _ _) = None"
| "Unmarshal (Bytes _) = None"

section \<open>WAL records\<close>

datatype b64 = B64 bytes | BadB64 string

abbreviation b64_empty :: b64 where "b64_empty \<equiv> B64 (Bytes [])"

fun b64_DecodeString :: "b64 \<Rightarrow> bytes option" where
  "b64_DecodeString (B64 d) = Some d"
| "b64_DecodeString (BadB64 _) = None"

abbreviation walTypePending :: string where "walTypePending \<equiv> ''pending''"
abbreviation walTypeCommit :: string where "walTypeCommit \<equiv> ''commit''"
abbreviation walTypeRollback :: string where "walTypeRollback \<equiv> ''rollback''"

record walRecord =
  w_Type :: string
  w_Timestamp :: time
  w_Token :: string
  w_StateHash :: string
  w_StatePayloadB64 :: b64

text \<open>A line: \<open>wl_rec = None\<close> when it is not the JSON of a record, \<open>wl_nl\<close> whether its newline is
  there.\<close>

record wal_line =
  wl_rec :: "walRecord option"
  wl_nl :: bool

type_synonym wal_file = "wal_line list"

text \<open>
  The outcome of one append. The write may land nothing, a proper part of the line, or all of it
  but the newline (an \<open>O_APPEND\<close> write that is cut short); after a complete write the fsync or the
  close may still report an error, and so may the directory sync of a freshly created file.
\<close>

datatype append_io = AOk | AOpenFail | AWriteNone | AWriteMid | AWriteNoNL | ASyncFail | ADirSyncFail

definition put_line :: "walRecord option \<Rightarrow> bool \<Rightarrow> wal_file \<Rightarrow> wal_file" where
  "put_line r nl ls =
     (if ls \<noteq> [] \<and> \<not> wl_nl (last ls)
      then butlast ls @ [\<lparr>wl_rec = None, wl_nl = nl\<rparr>]
      else ls @ [\<lparr>wl_rec = r, wl_nl = nl\<rparr>])"

definition wal_lines :: "wal_file option \<Rightarrow> wal_file" where
  "wal_lines f = (case f of None \<Rightarrow> [] | Some ls \<Rightarrow> ls)"

fun appendWAL :: "append_io \<Rightarrow> walRecord \<Rightarrow> wal_file option \<Rightarrow> bool \<times> wal_file option" where
  "appendWAL AOk r f = (True, Some (put_line (Some r) True (wal_lines f)))"
| "appendWAL AOpenFail r f = (False, f)"
| "appendWAL AWriteNone r f = (False, Some (wal_lines f))"
| "appendWAL AWriteMid r f = (False, Some (put_line None False (wal_lines f)))"
| "appendWAL AWriteNoNL r f = (False, Some (put_line (Some r) False (wal_lines f)))"
| "appendWAL ASyncFail r f = (False, Some (put_line (Some r) True (wal_lines f)))"
| "appendWAL ADirSyncFail r f = (f \<noteq> None, Some (put_line (Some r) True (wal_lines f)))"

definition pending_rec :: "(bytes \<Rightarrow> string) \<Rightarrow> time \<Rightarrow> string \<Rightarrow> bytes \<Rightarrow> walRecord" where
  "pending_rec sha now token stateBytes = \<lparr>w_Type = walTypePending, w_Timestamp = now,
     w_Token = token, w_StateHash = ''sha256:'' @ sha stateBytes,
     w_StatePayloadB64 = B64 stateBytes\<rparr>"

definition close_rec :: "string \<Rightarrow> time \<Rightarrow> string \<Rightarrow> walRecord" where
  "close_rec ty now token = \<lparr>w_Type = ty, w_Timestamp = now, w_Token = token, w_StateHash = [],
     w_StatePayloadB64 = b64_empty\<rparr>"

definition appendPending ::
  "(bytes \<Rightarrow> string) \<Rightarrow> append_io \<Rightarrow> time \<Rightarrow> string \<Rightarrow> bytes \<Rightarrow> wal_file option \<Rightarrow> bool \<times> wal_file option"
where
  "appendPending sha io now token stateBytes f = appendWAL io (pending_rec sha now token stateBytes) f"

definition appendCommit ::
  "append_io \<Rightarrow> time \<Rightarrow> string \<Rightarrow> wal_file option \<Rightarrow> bool \<times> wal_file option"
where
  "appendCommit io now token f = appendWAL io (close_rec walTypeCommit now token) f"

definition appendRollback ::
  "append_io \<Rightarrow> time \<Rightarrow> string \<Rightarrow> wal_file option \<Rightarrow> bool \<times> wal_file option"
where
  "appendRollback io now token f = appendWAL io (close_rec walTypeRollback now token) f"

section \<open>Scanning for orphans\<close>

datatype wal_error =
    WalScanOpen | WalDecode nat | WalNotPending string | WalEmptyPayload string
  | WalBadBase64 string | WALHashMismatch string string string

fun scan_lines ::
  "nat \<Rightarrow> wal_file \<Rightarrow> (walRecord \<times> nat) gomap \<Rightarrow> wal_error + (walRecord \<times> nat) gomap"
where
  "scan_lines order [] pendings = Inr pendings"
| "scan_lines order (l # ls) pendings =
     (case wl_rec l of
        None \<Rightarrow> Inl (WalDecode order)
      | Some r \<Rightarrow>
          scan_lines (Suc order) ls
            (if w_Type r = walTypePending then gm_set (w_Token r) (r, Suc order) pendings
             else if w_Type r = walTypeCommit \<or> w_Type r = walTypeRollback
             then gm_del (w_Token r) pendings
             else pendings))"

definition scanOrphanPending :: "wal_file option \<Rightarrow> wal_error + walRecord list" where
  "scanOrphanPending f =
     (case f of
        None \<Rightarrow> Inr []
      | Some ls \<Rightarrow>
          (case scan_lines 0 ls [] of
             Inl e \<Rightarrow> Inl e
           | Inr pendings \<Rightarrow> Inr (map fst (sort_key snd (map snd pendings)))))"

definition decodePendingPayload :: "(bytes \<Rightarrow> string) \<Rightarrow> walRecord \<Rightarrow> wal_error + bytes" where
  "decodePendingPayload sha r =
     (if w_Type r \<noteq> walTypePending then Inl (WalNotPending (w_Type r))
      else if w_StatePayloadB64 r = b64_empty then Inl (WalEmptyPayload (w_Token r))
      else case b64_DecodeString (w_StatePayloadB64 r) of
        None \<Rightarrow> Inl (WalBadBase64 (w_Token r))
      | Some d \<Rightarrow>
          (let got = ''sha256:'' @ sha d in
           if got \<noteq> w_StateHash r then Inl (WALHashMismatch (w_Token r) (w_StateHash r) got)
           else Inr d))"

section \<open>What the scan computes\<close>

text \<open>
  Position \<open>i\<close> of a record list is an open pending when the record there is a pending one and no
  later record with the same token is a pending, commit or rollback.
\<close>

definition touches :: "walRecord \<Rightarrow> bool" where
  "touches r \<longleftrightarrow> w_Type r = walTypePending \<or> w_Type r = walTypeCommit \<or> w_Type r = walTypeRollback"

definition open_at :: "walRecord list \<Rightarrow> nat \<Rightarrow> bool" where
  "open_at rs i \<longleftrightarrow>
     w_Type (rs ! i) = walTypePending \<and>
     (\<forall>j. i < j \<and> j < length rs \<and> w_Token (rs ! j) = w_Token (rs ! i) \<longrightarrow> \<not> touches (rs ! j))"

definition open_pendings :: "walRecord list \<Rightarrow> walRecord list" where
  "open_pendings rs = map (\<lambda>i. rs ! i) (filter (open_at rs) [0..<length rs])"

definition decoded :: "wal_file \<Rightarrow> walRecord list \<Rightarrow> bool" where
  "decoded ls rs \<longleftrightarrow> map wl_rec ls = map Some rs"

lemma open_at_snoc:
  "i < length rs \<Longrightarrow>
   open_at (rs @ [r]) i \<longleftrightarrow> open_at rs i \<and> \<not> (touches r \<and> w_Token r = w_Token (rs ! i))"
  unfolding open_at_def by (auto simp: nth_append less_Suc_eq)

lemma open_at_last: "open_at (rs @ [r]) (length rs) \<longleftrightarrow> w_Type r = walTypePending"
  by (auto simp: open_at_def nth_append)

definition scan_step :: "walRecord \<Rightarrow> nat \<times> (walRecord \<times> nat) gomap \<Rightarrow> nat \<times> (walRecord \<times> nat) gomap"
where
  "scan_step r = (\<lambda>(order, p). (Suc order,
     if w_Type r = walTypePending then gm_set (w_Token r) (r, Suc order) p
     else if w_Type r = walTypeCommit \<or> w_Type r = walTypeRollback then gm_del (w_Token r) p
     else p))"

lemma scan_lines_fold:
  "decoded ls rs \<Longrightarrow> scan_lines k ls p = Inr (snd (fold scan_step rs (k, p)))"
proof (induction ls arbitrary: rs k p)
  case Nil
  then show ?case by (simp add: decoded_def)
next
  case (Cons l ls)
  then obtain r rs' where rs: "rs = r # rs'" "wl_rec l = Some r" "decoded ls rs'"
    by (cases rs) (auto simp: decoded_def)
  then show ?case by (simp add: Cons.IH scan_step_def)
qed

lemma fold_scan_order: "fst (fold scan_step rs (0, [])) = length rs"
  by (induction rs rule: rev_induct) (auto simp: scan_step_def split: prod.splits)

lemma scan_step_get:
  "gm_get (snd (scan_step r0 (n, p))) t = Some (r, k) \<longleftrightarrow>
     (gm_get p t = Some (r, k) \<and> \<not> (touches r0 \<and> w_Token r0 = t)) \<or>
     (k = Suc n \<and> w_Type r0 = walTypePending \<and> r = r0 \<and> t = w_Token r0)"
proof (cases "w_Type r0 = walTypePending")
  case True
  then show ?thesis by (simp add: scan_step_def touches_def) blast
next
  case False
  then show ?thesis by (simp add: scan_step_def touches_def)
qed

text \<open>After any number of records the map holds exactly the open positions, under their tokens.\<close>

lemma fold_scan_get:
  "gm_ok (snd (fold scan_step rs (0, []))) \<and>
   (\<forall>t r k. gm_get (snd (fold scan_step rs (0, []))) t = Some (r, k) \<longleftrightarrow>
      (\<exists>i < length rs. k = Suc i \<and> open_at rs i \<and> r = rs ! i \<and> t = w_Token r))"
proof (induction rs rule: rev_induct)
  case Nil
  show ?case by simp
next
  case (snoc r0 rs)
  obtain k0 p where p: "fold scan_step rs (0, []) = (k0, p)" by force
  have k0: "k0 = length rs" using fold_scan_order [of rs] p by simp
  have IH: "gm_ok p" "\<And>t r k. gm_get p t = Some (r, k) \<longleftrightarrow>
      (\<exists>i < length rs. k = Suc i \<and> open_at rs i \<and> r = rs ! i \<and> t = w_Token r)"
    using snoc p by auto
  define p' where "p' = snd (scan_step r0 (k0, p))"
  have fold': "snd (fold scan_step (rs @ [r0]) (0, [])) = p'"
    by (simp add: p p'_def)
  have ok: "gm_ok p'" using IH(1) by (simp add: p'_def scan_step_def)
  have ex_last: "(\<exists>i < length (rs @ [r0]). k = Suc i \<and> open_at (rs @ [r0]) i \<and>
        r = (rs @ [r0]) ! i \<and> t = w_Token r) \<longleftrightarrow>
      (\<exists>i < length rs. k = Suc i \<and> open_at rs i \<and> \<not> (touches r0 \<and> w_Token r0 = w_Token (rs ! i)) \<and>
        r = rs ! i \<and> t = w_Token r) \<or>
      (k = Suc (length rs) \<and> w_Type r0 = walTypePending \<and> r = r0 \<and> t = w_Token r0)" for t r k
  proof -
    have ex: "(\<exists>i < length (rs @ [r0]). Q i) \<longleftrightarrow> (\<exists>i < length rs. Q i) \<or> Q (length rs)" for Q
      by (metis length_append_singleton less_Suc_eq)
    show ?thesis unfolding ex
      by (simp add: open_at_last nth_append open_at_snoc cong: conj_cong)
  qed
  have step: "gm_get p' t = Some (r, k) \<longleftrightarrow>
      (gm_get p t = Some (r, k) \<and> \<not> (touches r0 \<and> w_Token r0 = t)) \<or>
      (k = Suc (length rs) \<and> w_Type r0 = walTypePending \<and> r = r0 \<and> t = w_Token r0)" for t r k
    unfolding p'_def using k0 by (simp add: scan_step_get)
  have "gm_get p' t = Some (r, k) \<longleftrightarrow>
      (\<exists>i < length (rs @ [r0]). k = Suc i \<and> open_at (rs @ [r0]) i \<and>
        r = (rs @ [r0]) ! i \<and> t = w_Token r)" for t r k
    unfolding ex_last step IH(2) by blast
  with ok fold' show ?case by simp
qed

lemma sorted_by_key_unique:
  assumes "sorted (map f xs)" "sorted (map f ys)" "distinct (map f xs)" "distinct (map f ys)"
    and "set xs = set ys"
  shows "xs = ys"
proof -
  have "map f xs = map f ys"
    using assms by (intro sorted_distinct_set_unique) auto
  moreover have "inj_on f (set xs \<union> set ys)"
    using assms(3,5) by (simp add: distinct_map)
  ultimately show ?thesis by (rule map_inj_on)
qed

lemma scanOrphanPending_decoded:
  assumes "decoded ls rs"
  shows "scanOrphanPending (Some ls) = Inr (open_pendings rs)"
proof -
  define p where "p = snd (fold scan_step rs (0, []))"
  define B where "B = map (\<lambda>i. (rs ! i, Suc i)) (filter (open_at rs) [0..<length rs])"
  have ok: "gm_ok p" and get: "\<And>t r k. gm_get p t = Some (r, k) \<longleftrightarrow>
      (\<exists>i < length rs. k = Suc i \<and> open_at rs i \<and> r = rs ! i \<and> t = w_Token r)"
    using fold_scan_get [of rs] by (auto simp: p_def)
  have mem: "(t, r, k) \<in> set p \<longleftrightarrow> gm_get p t = Some (r, k)" for t r k
    using ok gm_in_get [of p t] gm_get_in [of p t] by blast
  have set: "set (map snd p) = set B"
  proof (intro equalityI subsetI)
    fix x assume "x \<in> set (map snd p)"
    then obtain t where "(t, x) \<in> set p" by auto
    with mem [of t "fst x" "snd x"] get [of t "fst x" "snd x"] show "x \<in> set B"
      by (cases x) (auto simp: B_def)
  next
    fix x assume "x \<in> set B"
    then obtain i where i: "i < length rs" "open_at rs i" "x = (rs ! i, Suc i)"
      by (auto simp: B_def)
    then have "(w_Token (rs ! i), x) \<in> set p" using mem get by auto
    then show "x \<in> set (map snd p)" by force
  qed
  have snd_inj: "k = k' \<Longrightarrow> t = t' \<and> r = r'"
    if "(t, r, k) \<in> set p" "(t', r', k') \<in> set p" for t r k t' r' k'
    using that mem get by auto
  have dist: "distinct (map snd (map snd p))"
    using ok snd_inj by (fastforce simp: gm_ok_def distinct_map inj_on_def)
  have "sort_key snd (map snd p) = B"
  proof (rule sorted_by_key_unique [where f = snd])
    show "distinct (map snd (sort_key snd (map snd p)))"
      using dist by (metis distinct_map distinct_sort set_sort)
    show "sorted (map snd B)"
      by (simp add: B_def comp_def sorted_map sorted_wrt_filter)
    show "distinct (map snd B)"
      by (simp add: B_def distinct_map inj_on_def)
  qed (use set in simp_all)
  then show ?thesis
    using scan_lines_fold [OF assms, of 0 "[]"]
    by (simp add: scanOrphanPending_def p_def B_def open_pendings_def comp_def)
qed

text \<open>A line that does not decode stops the scan.\<close>

lemma scan_lines_undecodable:
  "l \<in> set ls \<Longrightarrow> wl_rec l = None \<Longrightarrow> \<exists>n. scan_lines k ls p = Inl (WalDecode n)"
proof (induction ls arbitrary: k p)
  case Nil
  then show ?case by simp
next
  case (Cons x xs)
  then show ?case by (cases "wl_rec x") auto
qed

subsection \<open>Appending to a decoded log\<close>

definition wal_clean :: "wal_file option \<Rightarrow> bool" where
  "wal_clean f \<longleftrightarrow> (\<forall>l \<in> set (wal_lines f). wl_rec l \<noteq> None \<and> wl_nl l)"

definition wal_recs :: "wal_file option \<Rightarrow> walRecord list" where
  "wal_recs f = map (\<lambda>l. the (wl_rec l)) (wal_lines f)"

definition wal_tokens :: "wal_file option \<Rightarrow> string set" where
  "wal_tokens f = w_Token ` set (wal_recs f)"

lemma wal_lines_Some: "wal_lines (Some ls) = ls"
  by (simp add: wal_lines_def)

lemma wal_clean_decoded: "wal_clean f \<Longrightarrow> decoded (wal_lines f) (wal_recs f)"
  by (auto simp: wal_clean_def decoded_def wal_recs_def)

lemma put_line_clean:
  "wal_clean f \<Longrightarrow> put_line r nl (wal_lines f) = wal_lines f @ [\<lparr>wl_rec = r, wl_nl = nl\<rparr>]"
  by (auto simp: put_line_def wal_clean_def)

lemma scan_clean: "wal_clean f \<Longrightarrow> scanOrphanPending f = Inr (open_pendings (wal_recs f))"
proof -
  assume "wal_clean f"
  from scanOrphanPending_decoded [OF wal_clean_decoded [OF this]] show ?thesis
    by (cases f) (simp_all add: wal_lines_def wal_recs_def scanOrphanPending_def open_pendings_def)
qed

lemma wal_append_clean:
  assumes "wal_clean f" and "f' = Some (put_line (Some r) True (wal_lines f))"
  shows "wal_clean f'" and "wal_recs f' = wal_recs f @ [r]"
proof -
  have "wal_lines f' = wal_lines f @ [\<lparr>wl_rec = Some r, wl_nl = True\<rparr>]"
    using assms(2) put_line_clean [OF assms(1)] by (simp add: wal_lines_Some)
  then show "wal_clean f'" and "wal_recs f' = wal_recs f @ [r]"
    using assms(1) by (auto simp: wal_clean_def wal_recs_def)
qed

lemma open_pendings_snoc:
  "open_pendings (rs @ [r]) =
     filter (\<lambda>x. \<not> (touches r \<and> w_Token r = w_Token x)) (open_pendings rs) @
     (if w_Type r = walTypePending then [r] else [])"
proof -
  have "filter (open_at (rs @ [r])) [0..<length rs] =
      filter (\<lambda>i. \<not> (touches r \<and> w_Token r = w_Token (rs ! i))) (filter (open_at rs) [0..<length rs])"
    by (auto simp: filter_filter open_at_snoc intro!: filter_cong)
  then show ?thesis
    by (auto simp: open_pendings_def open_at_last filter_map comp_def nth_append intro!: map_cong)
qed

lemma open_pendings_tokens: "x \<in> set (open_pendings rs) \<Longrightarrow> x \<in> set rs \<and> w_Type x = walTypePending"
  by (auto simp: open_pendings_def open_at_def)

text \<open>A pending record with a fresh token is the newest open one; closing it restores the list.\<close>

lemma open_after_pending:
  assumes "w_Token (pending_rec sha now t d) \<notin> w_Token ` set rs"
  shows "open_pendings (rs @ [pending_rec sha now t d]) = open_pendings rs @ [pending_rec sha now t d]"
  using assms open_pendings_tokens
  by (fastforce simp: open_pendings_snoc pending_rec_def filter_id_conv)

lemma open_after_close:
  assumes "t \<notin> w_Token ` set rs" and "ty = walTypeCommit \<or> ty = walTypeRollback"
  shows "open_pendings (rs @ [pending_rec sha now t d] @ [close_rec ty now' t]) = open_pendings rs"
proof -
  have "open_pendings ((rs @ [pending_rec sha now t d]) @ [close_rec ty now' t]) =
      filter (\<lambda>x. w_Token x \<noteq> t) (open_pendings rs @ [pending_rec sha now t d])"
    using assms open_after_pending [of sha now t d rs]
    by (subst open_pendings_snoc) (auto simp: close_rec_def touches_def pending_rec_def intro!: filter_cong)
  also have "\<dots> = open_pendings rs"
    using assms(1) open_pendings_tokens by (fastforce simp: pending_rec_def filter_id_conv)
  finally show ?thesis by simp
qed

lemma decode_pending_rec:
  "d \<noteq> Bytes [] \<Longrightarrow> decodePendingPayload sha (pending_rec sha now t d) = Inr d"
  by (simp add: decodePendingPayload_def pending_rec_def)

end
