(* ===== verification/State_Store.thy ===== *)
theory State_Store
  imports State_Wal
begin

text \<open>
  \<open>internal/state/store.go\<close>: the durable flush and the store's mutations.

  The disk of the store is \<open>state.json\<close>, \<open>state.json.tmp\<close> and \<open>state.json.wal\<close>. A flush performs
  its system calls in the order of \<open>flushFullWithReleases\<close>; each call takes its outcome from a
  \<open>flush_io\<close> value, and the flush returns, besides its error, the disk after each call (\<open>fl_hist\<close>),
  so that a crash after any call is a disk of that list. A crash in the middle of a write is the disk
  after a write whose outcome says it was cut short.

  The store's maps are values, so the copies of \<open>cloneMap\<close>, \<open>cloneMetadataMap\<close>, \<open>cloneReleaseMap\<close>
  and \<open>CloneConfig\<close> are the maps themselves. \<open>flushMu\<close> serialises the mutations: an execution of the
  store is a sequence of whole operations.
\<close>

section \<open>The disk and the outcomes of the system calls\<close>

record disk =
  d_state :: "bytes option"
  d_tmp :: "bytes option"
  d_wal :: "wal_file option"

datatype tmp_io = TmpOk | TmpOpenFail | TmpCut string | TmpSyncFail

text \<open>\<open>rb\<close>: reading \<open>state.json\<close> back fails, or returns what was written, or the page was lost and
  the file holds other bytes.\<close>

datatype readback_io = RbFail | RbSame | RbLost bytes

record flush_io =
  io_mkdir :: bool
  io_token :: string
  io_now :: time
  io_pending :: append_io
  io_tmp :: tmp_io
  io_remove :: bool
  io_sync_pre :: bool
  io_rename :: bool
  io_sync_post :: bool
  io_readback :: readback_io
  io_commit :: append_io
  io_rollback :: append_io

datatype flush_error =
    FMkdir | FWalPending | FTmpWrite | FSyncPre | FRename | FSyncPost | FReadBack
  | FStorageCorrupted string string | FWalCommit

record flush_result =
  fl_err :: "flush_error option"
  fl_hist :: "disk list"

abbreviation fl_disk :: "flush_result \<Rightarrow> disk" where
  "fl_disk r \<equiv> last (fl_hist r)"

section \<open>The flush\<close>

definition writeFileAndFsync :: "tmp_io \<Rightarrow> bytes \<Rightarrow> disk \<Rightarrow> bool \<times> disk" where
  "writeFileAndFsync io data d =
     (case io of
        TmpOk \<Rightarrow> (True, d\<lparr>d_tmp := Some data\<rparr>)
      | TmpOpenFail \<Rightarrow> (False, d)
      | TmpCut part \<Rightarrow> (False, d\<lparr>d_tmp := Some (Bytes part)\<rparr>)
      | TmpSyncFail \<Rightarrow> (False, d\<lparr>d_tmp := Some data\<rparr>))"

definition remove_tmp :: "bool \<Rightarrow> disk \<Rightarrow> disk" where
  "remove_tmp ok d = (if ok then d\<lparr>d_tmp := None\<rparr> else d)"

definition rename_tmp :: "disk \<Rightarrow> disk" where
  "rename_tmp d = d\<lparr>d_state := d_tmp d, d_tmp := None\<rparr>"

definition read_back :: "readback_io \<Rightarrow> disk \<Rightarrow> disk" where
  "read_back io d = (case io of RbLost b \<Rightarrow> d\<lparr>d_state := Some b\<rparr> | _ \<Rightarrow> d)"

definition FormatVersion :: int where
  "FormatVersion = 3"

definition meta_of :: "AppMetadata gomap \<Rightarrow> string \<Rightarrow> AppMetadata" where
  "meta_of m appID = (case gm_get m appID of None \<Rightarrow> zero_AppMetadata | Some x \<Rightarrow> x)"

definition rels_of :: "Release list gomap \<Rightarrow> string \<Rightarrow> Release list" where
  "rels_of m appID = (case gm_get m appID of None \<Rightarrow> [] | Some x \<Rightarrow> x)"

definition sortStrings :: "string list \<Rightarrow> string list" where
  "sortStrings s = insertion_sort (\<lambda>x. x) s"

definition build_state ::
  "Config gomap \<Rightarrow> AppMetadata gomap \<Rightarrow> Release list gomap \<Rightarrow> Volume gomap \<Rightarrow> State"
where
  "build_state apps metadata releases volumes = \<lparr>
     st_Version = FormatVersion,
     st_Volumes = map (\<lambda>id. the (gm_get volumes id)) (sortStrings (gm_keys volumes)),
     st_Apps = map (\<lambda>id. \<lparr>pa_Config = the (gm_get apps id), pa_Metadata = meta_of metadata id,
                          pa_Releases = rels_of releases id\<rparr>) (sortStrings (gm_keys apps))\<rparr>"

text \<open>The deferred rollback: a failure after the pending record appends a rollback record,
  whose own failure is ignored.\<close>

definition fail_rollback :: "flush_io \<Rightarrow> flush_error \<Rightarrow> disk list \<Rightarrow> flush_result" where
  "fail_rollback io e h =
     (let d = last h;
          w = snd (appendRollback (io_rollback io) (io_now io) (io_token io) (d_wal d))
      in \<lparr>fl_err = Some e, fl_hist = h @ [d\<lparr>d_wal := w\<rparr>]\<rparr>)"

definition flushFullWithReleases ::
  "(bytes \<Rightarrow> string) \<Rightarrow> flush_io \<Rightarrow> Config gomap \<Rightarrow> AppMetadata gomap \<Rightarrow> Release list gomap \<Rightarrow>
   Volume gomap \<Rightarrow> disk \<Rightarrow> flush_result"
where
  "flushFullWithReleases sha io apps metadata releases volumes d0 =
     (if \<not> io_mkdir io then \<lparr>fl_err = Some FMkdir, fl_hist = [d0]\<rparr>
      else
        let data = JSON (build_state apps metadata releases volumes);
            wantHex = sha data;
            (okp, w1) = appendPending sha (io_pending io) (io_now io) (io_token io) data (d_wal d0);
            d1 = d0\<lparr>d_wal := w1\<rparr>
        in
        if \<not> okp then \<lparr>fl_err = Some FWalPending, fl_hist = [d0, d1]\<rparr>
        else
          let (okt, d2) = writeFileAndFsync (io_tmp io) data d1 in
          if \<not> okt then fail_rollback io FTmpWrite [d0, d1, d2, remove_tmp (io_remove io) d2]
          else if \<not> io_sync_pre io
          then fail_rollback io FSyncPre [d0, d1, d2, remove_tmp (io_remove io) d2]
          else if \<not> io_rename io
          then fail_rollback io FRename [d0, d1, d2, remove_tmp (io_remove io) d2]
          else
            let d3 = rename_tmp d2 in
            if \<not> io_sync_post io then fail_rollback io FSyncPost [d0, d1, d2, d3]
            else
              let d4 = read_back (io_readback io) d3 in
              case (if io_readback io = RbFail then None else d_state d4) of
                None \<Rightarrow> fail_rollback io FReadBack [d0, d1, d2, d3, d4]
              | Some gotData \<Rightarrow>
                  let gotHex = sha gotData in
                  if gotHex \<noteq> wantHex
                  then \<lparr>fl_err = Some (FStorageCorrupted wantHex gotHex), fl_hist = [d0, d1, d2, d3, d4]\<rparr>
                  else
                    let (okc, w5) = appendCommit (io_commit io) (io_now io) (io_token io) (d_wal d4);
                        d5 = d4\<lparr>d_wal := w5\<rparr>
                    in if \<not> okc then fail_rollback io FWalCommit [d0, d1, d2, d3, d4, d5]
                       else \<lparr>fl_err = None, fl_hist = [d0, d1, d2, d3, d4, d5]\<rparr>)"

section \<open>The store\<close>

record Store =
  s_apps :: "Config gomap"
  s_metadata :: "AppMetadata gomap"
  s_releases :: "Release list gomap"
  s_volumes :: "Volume gomap"
  s_disk :: disk

definition empty_Store :: "disk \<Rightarrow> Store" where
  "empty_Store d = \<lparr>s_apps = [], s_metadata = [], s_releases = [], s_volumes = [], s_disk = d\<rparr>"

definition flushFull ::
  "(bytes \<Rightarrow> string) \<Rightarrow> flush_io \<Rightarrow> Config gomap \<Rightarrow> AppMetadata gomap \<Rightarrow> Volume gomap \<Rightarrow> Store \<Rightarrow>
   flush_result"
where
  "flushFull sha io apps metadata volumes s =
     flushFullWithReleases sha io apps metadata (s_releases s) volumes (s_disk s)"

definition flushBoth ::
  "(bytes \<Rightarrow> string) \<Rightarrow> flush_io \<Rightarrow> Config gomap \<Rightarrow> Volume gomap \<Rightarrow> Store \<Rightarrow> flush_result"
where
  "flushBoth sha io apps volumes s = flushFull sha io apps (s_metadata s) volumes s"

datatype store_error =
    StEmptyID | StUuid | StFlush flush_error | StAppNotFound string
  | StObservedRegression int int | StObservedExceeds int int | StNoMetadata string
  | StInvalidPhase ReleasePhase

text \<open>
  \<open>commit_swap\<close> is the tail every mutation shares: flush the candidate maps, and swap them in only
  when the flush returned no error.
\<close>

definition commit_swap ::
  "flush_result \<Rightarrow> (Store \<Rightarrow> Store) \<Rightarrow> Store \<Rightarrow> store_error option \<times> Store"
where
  "commit_swap r swap s =
     (case fl_err r of
        Some e \<Rightarrow> (Some (StFlush e), s\<lparr>s_disk := fl_disk r\<rparr>)
      | None \<Rightarrow> (None, swap (s\<lparr>s_disk := fl_disk r\<rparr>)))"

definition newAppMetadata :: "string option \<Rightarrow> time \<Rightarrow> store_error + AppMetadata" where
  "newAppMetadata uuid now =
     (case uuid of
        None \<Rightarrow> Inl StUuid
      | Some u \<Rightarrow> Inr \<lparr>md_UID = u, md_Generation = 1, md_ObservedGeneration = 1,
                      md_ResourceVersion = 1, md_CreationTimestamp = now\<rparr>)"

definition bump_spec :: "AppMetadata \<Rightarrow> AppMetadata" where
  "bump_spec m = \<lparr>md_UID = md_UID m, md_Generation = wrap64 (md_Generation m + 1),
     md_ObservedGeneration = wrap64 (md_Generation m + 1),
     md_ResourceVersion = uwrap64 (md_ResourceVersion m + 1),
     md_CreationTimestamp = md_CreationTimestamp m\<rparr>"

definition AddApp ::
  "(bytes \<Rightarrow> string) \<Rightarrow> flush_io \<Rightarrow> string option \<Rightarrow> Config \<Rightarrow> Store \<Rightarrow> store_error option \<times> Store"
where
  "AddApp sha io uuid cfg s =
     (if cfg_ID cfg = [] then (Some StEmptyID, s)
      else
        let nextApps = gm_set (cfg_ID cfg) cfg (s_apps s);
            meta = (case gm_get (s_metadata s) (cfg_ID cfg) of
                      Some existingMeta \<Rightarrow> Inr (bump_spec existingMeta)
                    | None \<Rightarrow> newAppMetadata uuid (io_now io))
        in case meta of
             Inl e \<Rightarrow> (Some e, s)
           | Inr m \<Rightarrow>
               let nextMeta = gm_set (cfg_ID cfg) m (s_metadata s)
               in commit_swap (flushFull sha io nextApps nextMeta (s_volumes s) s)
                    (\<lambda>s. s\<lparr>s_apps := nextApps, s_metadata := nextMeta\<rparr>) s)"

definition RemoveApp ::
  "(bytes \<Rightarrow> string) \<Rightarrow> flush_io \<Rightarrow> string \<Rightarrow> Store \<Rightarrow> store_error option \<times> Store"
where
  "RemoveApp sha io appID s =
     (if gm_get (s_apps s) appID = None then (None, s)
      else
        let nextApps = gm_del appID (s_apps s);
            nextMeta = gm_del appID (s_metadata s);
            nextReleases = gm_del appID (s_releases s)
        in commit_swap
             (flushFullWithReleases sha io nextApps nextMeta nextReleases (s_volumes s) (s_disk s))
             (\<lambda>s. s\<lparr>s_apps := nextApps, s_metadata := nextMeta, s_releases := nextReleases\<rparr>) s)"

definition Meta :: "Store \<Rightarrow> string \<Rightarrow> AppMetadata option" where
  "Meta s appID = gm_get (s_metadata s) appID"

definition Apps :: "Store \<Rightarrow> Config list" where
  "Apps s = map (\<lambda>id. the (gm_get (s_apps s) id)) (sortStrings (gm_keys (s_apps s)))"

definition Volumes :: "Store \<Rightarrow> Volume list" where
  "Volumes s = map (\<lambda>id. the (gm_get (s_volumes s) id)) (sortStrings (gm_keys (s_volumes s)))"

definition AddVolume ::
  "(bytes \<Rightarrow> string) \<Rightarrow> flush_io \<Rightarrow> Volume \<Rightarrow> Store \<Rightarrow> store_error option \<times> Store"
where
  "AddVolume sha io v s =
     (if vol_ID v = [] then (Some StEmptyID, s)
      else
        let nextVolumes = gm_set (vol_ID v) v (s_volumes s)
        in commit_swap (flushBoth sha io (s_apps s) nextVolumes s)
             (\<lambda>s. s\<lparr>s_volumes := nextVolumes\<rparr>) s)"

definition RemoveVolume ::
  "(bytes \<Rightarrow> string) \<Rightarrow> flush_io \<Rightarrow> string \<Rightarrow> Store \<Rightarrow> store_error option \<times> Store"
where
  "RemoveVolume sha io volID s =
     (if gm_get (s_volumes s) volID = None then (None, s)
      else
        let nextVolumes = gm_del volID (s_volumes s)
        in commit_swap (flushBoth sha io (s_apps s) nextVolumes s)
             (\<lambda>s. s\<lparr>s_volumes := nextVolumes\<rparr>) s)"

section \<open>Concrete inputs\<close>

text \<open>A flush in which every system call succeeds, and an empty data directory.\<close>

definition ok_io :: "string \<Rightarrow> time \<Rightarrow> flush_io" where
  "ok_io token now = \<lparr>io_mkdir = True, io_token = token, io_now = now, io_pending = AOk, io_tmp = TmpOk,
     io_remove = True, io_sync_pre = True, io_rename = True, io_sync_post = True,
     io_readback = RbSame, io_commit = AOk, io_rollback = AOk\<rparr>"

definition empty_disk :: disk where
  "empty_disk = \<lparr>d_state = None, d_tmp = None, d_wal = None\<rparr>"

definition web :: Config where
  "web = zero_Config\<lparr>cfg_ID := ''web'', cfg_Command := ''/bin/web''\<rparr>"

definition web_meta :: AppMetadata where
  "web_meta = \<lparr>md_UID = ''u1'', md_Generation = 1, md_ObservedGeneration = 1,
     md_ResourceVersion = 1, md_CreationTimestamp = 1\<rparr>"

definition web_store :: Store where
  "web_store = \<lparr>s_apps = [(''web'', web)], s_metadata = [(''web'', web_meta)], s_releases = [],
     s_volumes = [], s_disk = empty_disk\<rparr>"

lemmas flush_eval =
  flushFull_def flushBoth_def flushFullWithReleases_def ok_io_def appendPending_def appendCommit_def
  appendRollback_def writeFileAndFsync_def remove_tmp_def rename_tmp_def read_back_def
  fail_rollback_def commit_swap_def Let_def empty_disk_def empty_Store_def web_def zero_Config_def
  web_meta_def web_store_def

end
