(* ===== verification/State_Release.thy ===== *)
theory State_Release
  imports State_Store
begin

text \<open>
  \<open>internal/state/release.go\<close>: the release ledger, and the invariant of the whole store.

  A mutation of the store is a value of \<open>store_op\<close>; \<open>exec_op\<close> runs it. The invariant \<open>store_ok\<close> is
  about the in-memory maps; every operation keeps it whatever its system calls do, and an operation
  that returns an error leaves the maps as they were. Both are the assumptions of the locale
  \<open>store_contract\<close>, interpreted for \<open>exec_op\<close>.
\<close>

section \<open>Operations\<close>

definition EnvHash :: "(string \<Rightarrow> string) \<Rightarrow> string list \<Rightarrow> string" where
  "EnvHash shas env =
     (if env = [] then []
      else ''sha256:'' @ shas (join_on (CHR 0x00) (sort env)))"

definition SetObservedGeneration ::
  "(bytes \<Rightarrow> string) \<Rightarrow> flush_io \<Rightarrow> string \<Rightarrow> int \<Rightarrow> Store \<Rightarrow> store_error option \<times> Store"
where
  "SetObservedGeneration sha io appID gen s =
     (if appID = [] then (Some StEmptyID, s)
      else case gm_get (s_metadata s) appID of
        None \<Rightarrow> (Some (StAppNotFound appID), s)
      | Some cur \<Rightarrow>
          if gen < md_ObservedGeneration cur
          then (Some (StObservedRegression (md_ObservedGeneration cur) gen), s)
          else if gen > md_Generation cur
          then (Some (StObservedExceeds gen (md_Generation cur)), s)
          else if gen = md_ObservedGeneration cur then (None, s)
          else
            let nextMeta = gm_set appID
                  \<lparr>md_UID = md_UID cur, md_Generation = md_Generation cur,
                   md_ObservedGeneration = gen,
                   md_ResourceVersion = uwrap64 (md_ResourceVersion cur + 1),
                   md_CreationTimestamp = md_CreationTimestamp cur\<rparr> (s_metadata s)
            in commit_swap (flushFull sha io (s_apps s) nextMeta (s_volumes s) s)
                 (\<lambda>s. s\<lparr>s_metadata := nextMeta\<rparr>) s)"

record ReleaseInput =
  ri_Spec :: ReleaseSpec
  ri_PriorActivePhase :: ReleasePhase

definition demote :: "ReleasePhase \<Rightarrow> Release \<Rightarrow> Release" where
  "demote p r = (if rel_Phase r = ReleasePhaseActive then r\<lparr>rel_Phase := p\<rparr> else r)"

definition next_seq :: "Release list \<Rightarrow> int" where
  "next_seq rs = fold (\<lambda>r n. if rs_ReleaseSeq (rel_Spec r) \<ge> n
                             then wrap64 (rs_ReleaseSeq (rel_Spec r) + 1) else n) rs 1"

definition CreateRelease ::
  "(bytes \<Rightarrow> string) \<Rightarrow> flush_io \<Rightarrow> string \<Rightarrow> string \<Rightarrow> ReleaseInput \<Rightarrow> Store \<Rightarrow>
   (store_error + Release) \<times> Store"
where
  "CreateRelease sha io uuid appID inp s =
     (if appID = [] then (Inl StEmptyID, s)
      else if gm_get (s_apps s) appID = None then (Inl (StAppNotFound appID), s)
      else case gm_get (s_metadata s) appID of
        None \<Rightarrow> (Inl (StNoMetadata appID), s)
      | Some meta \<Rightarrow>
          let priorPhase = (if ri_PriorActivePhase inp = [] then ReleasePhaseSuperseded
                            else ri_PriorActivePhase inp)
          in
          if priorPhase \<noteq> ReleasePhaseSuperseded \<and> priorPhase \<noteq> ReleasePhaseRolledBack
          then (Inl (StInvalidPhase priorPhase), s)
          else
            let existing = rels_of (s_releases s) appID;
                spec = (ri_Spec inp)\<lparr>rs_AppUID := md_UID meta, rs_ReleaseSeq := next_seq existing\<rparr>;
                rel = \<lparr>rel_UID = uuid, rel_Phase = ReleasePhaseActive,
                       rel_CreationTimestamp = io_now io, rel_Spec = spec\<rparr>;
                nextReleases = gm_set appID (map (demote priorPhase) existing @ [rel]) (s_releases s);
                nextMeta = gm_set appID
                  \<lparr>md_UID = md_UID meta, md_Generation = md_Generation meta,
                   md_ObservedGeneration = md_ObservedGeneration meta,
                   md_ResourceVersion = uwrap64 (md_ResourceVersion meta + 1),
                   md_CreationTimestamp = md_CreationTimestamp meta\<rparr> (s_metadata s);
                (err, s') = commit_swap
                  (flushFullWithReleases sha io (s_apps s) nextMeta nextReleases (s_volumes s) (s_disk s))
                  (\<lambda>s. s\<lparr>s_metadata := nextMeta, s_releases := nextReleases\<rparr>) s
            in case err of Some e \<Rightarrow> (Inl e, s') | None \<Rightarrow> (Inr rel, s'))"

definition Releases :: "Store \<Rightarrow> string \<Rightarrow> Release list" where
  "Releases s appID = rels_of (s_releases s) appID"

definition ActiveRelease :: "Store \<Rightarrow> string \<Rightarrow> Release option" where
  "ActiveRelease s appID = find (\<lambda>r. rel_Phase r = ReleasePhaseActive) (rels_of (s_releases s) appID)"

definition FindRelease :: "Store \<Rightarrow> string \<Rightarrow> int \<Rightarrow> Release option" where
  "FindRelease s appID seq =
     find (\<lambda>r. rs_ReleaseSeq (rel_Spec r) = seq) (rels_of (s_releases s) appID)"

section \<open>Executions\<close>

datatype store_op =
    OpAddApp "string option" Config | OpRemoveApp string
  | OpAddVolume Volume | OpRemoveVolume string
  | OpSetObserved string int | OpCreateRelease string string ReleaseInput

fun exec_op ::
  "(bytes \<Rightarrow> string) \<Rightarrow> flush_io \<Rightarrow> store_op \<Rightarrow> Store \<Rightarrow> store_error option \<times> Store"
where
  "exec_op sha io (OpAddApp u cfg) s = AddApp sha io u cfg s"
| "exec_op sha io (OpRemoveApp i) s = RemoveApp sha io i s"
| "exec_op sha io (OpAddVolume v) s = AddVolume sha io v s"
| "exec_op sha io (OpRemoveVolume i) s = RemoveVolume sha io i s"
| "exec_op sha io (OpSetObserved i g) s = SetObservedGeneration sha io i g s"
| "exec_op sha io (OpCreateRelease u i inp) s =
     (case CreateRelease sha io u i inp s of (Inl e, s') \<Rightarrow> (Some e, s') | (Inr _, s') \<Rightarrow> (None, s'))"

fun run_ops :: "(bytes \<Rightarrow> string) \<Rightarrow> (flush_io \<times> store_op) list \<Rightarrow> Store \<Rightarrow> Store" where
  "run_ops sha [] s = s"
| "run_ops sha ((io, op) # ops) s = run_ops sha ops (snd (exec_op sha io op s))"

text \<open>The in-memory maps of a store, without its disk.\<close>

definition mem :: "Store \<Rightarrow> Config gomap \<times> AppMetadata gomap \<times> Release list gomap \<times> Volume gomap" where
  "mem s = (s_apps s, s_metadata s, s_releases s, s_volumes s)"

section \<open>The invariant\<close>

definition one_active :: "Release list \<Rightarrow> bool" where
  "one_active rs \<longleftrightarrow> length (filter (\<lambda>r. rel_Phase r = ReleasePhaseActive) rs) \<le> 1"

definition ledger_ok :: "Release list \<Rightarrow> bool" where
  "ledger_ok rs \<longleftrightarrow> rs \<noteq> [] \<and> one_active rs \<and>
     (int (length rs) < 2 ^ 63 \<longrightarrow>
       map (\<lambda>r. rs_ReleaseSeq (rel_Spec r)) rs = map (\<lambda>i. int i + 1) [0..<length rs])"

definition apps_ok :: "Config gomap \<Rightarrow> bool" where
  "apps_ok m \<longleftrightarrow> gm_ok m \<and> gm_all (\<lambda>i c. i \<noteq> [] \<and> cfg_ID c = i) m"

definition volumes_ok :: "Volume gomap \<Rightarrow> bool" where
  "volumes_ok m \<longleftrightarrow> gm_ok m \<and> gm_all (\<lambda>i v. i \<noteq> [] \<and> vol_ID v = i) m"

definition metadata_ok :: "AppMetadata gomap \<Rightarrow> bool" where
  "metadata_ok m \<longleftrightarrow> gm_ok m \<and>
     gm_all (\<lambda>i d. md_UID d \<noteq> [] \<and> md_ObservedGeneration d \<le> md_Generation d) m"

definition releases_ok :: "Release list gomap \<Rightarrow> bool" where
  "releases_ok m \<longleftrightarrow> gm_ok m \<and> gm_all (\<lambda>i rs. ledger_ok rs) m"

definition store_ok :: "Store \<Rightarrow> bool" where
  "store_ok s \<longleftrightarrow> apps_ok (s_apps s) \<and> volumes_ok (s_volumes s) \<and> metadata_ok (s_metadata s) \<and>
     releases_ok (s_releases s) \<and>
     set (gm_keys (s_metadata s)) = set (gm_keys (s_apps s)) \<and>
     set (gm_keys (s_releases s)) \<subseteq> set (gm_keys (s_apps s))"

lemma store_ok_disk [simp]: "store_ok (s\<lparr>s_disk := d\<rparr>) = store_ok s"
  by (simp add: store_ok_def)

lemma mem_disk [simp]: "mem (s\<lparr>s_disk := d\<rparr>) = mem s"
  by (simp add: mem_def)

lemma store_ok_empty: "store_ok (empty_Store d)"
  by (simp add: store_ok_def empty_Store_def apps_ok_def volumes_ok_def metadata_ok_def releases_ok_def)

text \<open>The shape of every mutation: the maps change only when the flush succeeds.\<close>

lemma commit_swap_err:
  "fst (commit_swap r swap s) = Some e \<Longrightarrow> mem (snd (commit_swap r swap s)) = mem s"
  by (auto simp: commit_swap_def split: option.splits)

lemma commit_swap_None:
  "fst (commit_swap r swap s) = None \<longleftrightarrow> fl_err r = None"
  by (auto simp: commit_swap_def split: option.splits)

lemma commit_swap_snd:
  "snd (commit_swap r swap s) =
     (if fl_err r = None then swap (s\<lparr>s_disk := fl_disk r\<rparr>) else s\<lparr>s_disk := fl_disk r\<rparr>)"
  by (auto simp: commit_swap_def split: option.splits)

lemma bump_spec_ok [simp]:
  "md_UID (bump_spec m) = md_UID m" "md_ObservedGeneration (bump_spec m) = md_Generation (bump_spec m)"
  by (simp_all add: bump_spec_def)

lemma newAppMetadata_ok:
  "newAppMetadata u now = Inr m \<Longrightarrow> u \<noteq> Some [] \<Longrightarrow>
   md_UID m \<noteq> [] \<and> md_ObservedGeneration m \<le> md_Generation m"
  by (auto simp: newAppMetadata_def split: option.splits)

text \<open>Writing and deleting entries keeps the invariants of the four maps.\<close>

lemma maps_ok_set [intro]:
  "apps_ok m1 \<Longrightarrow> cfg_ID c \<noteq> [] \<Longrightarrow> apps_ok (gm_set (cfg_ID c) c m1)"
  "volumes_ok m2 \<Longrightarrow> vol_ID v \<noteq> [] \<Longrightarrow> volumes_ok (gm_set (vol_ID v) v m2)"
  "metadata_ok m3 \<Longrightarrow> md_UID d \<noteq> [] \<Longrightarrow> md_ObservedGeneration d \<le> md_Generation d \<Longrightarrow>
   metadata_ok (gm_set i d m3)"
  "releases_ok m4 \<Longrightarrow> ledger_ok rs \<Longrightarrow> releases_ok (gm_set i rs m4)"
  by (auto simp: apps_ok_def volumes_ok_def metadata_ok_def releases_ok_def)

lemma maps_ok_del [intro]:
  "apps_ok m1 \<Longrightarrow> apps_ok (gm_del i m1)"
  "volumes_ok m2 \<Longrightarrow> volumes_ok (gm_del i m2)"
  "metadata_ok m3 \<Longrightarrow> metadata_ok (gm_del i m3)"
  "releases_ok m4 \<Longrightarrow> releases_ok (gm_del i m4)"
  by (auto simp: apps_ok_def volumes_ok_def metadata_ok_def releases_ok_def)

lemma metadata_ok_get:
  "metadata_ok m \<Longrightarrow> gm_get m i = Some d \<Longrightarrow>
   md_UID d \<noteq> [] \<and> md_ObservedGeneration d \<le> md_Generation d"
  by (auto simp: metadata_ok_def dest: gm_all_get)

lemma releases_ok_get: "releases_ok m \<Longrightarrow> gm_get m i = Some rs \<Longrightarrow> ledger_ok rs"
  by (auto simp: releases_ok_def dest: gm_all_get)

lemma store_ok_meta:
  "store_ok s \<Longrightarrow> gm_get (s_metadata s) i = Some d \<Longrightarrow>
   md_UID d \<noteq> [] \<and> md_ObservedGeneration d \<le> md_Generation d \<and> i \<in> fst ` set (s_apps s)"
  using metadata_ok_get gm_get_Some_key [of "s_metadata s" i d] by (auto simp: store_ok_def)

lemma AddApp_ok:
  assumes "store_ok s" and "u \<noteq> Some []"
  shows "store_ok (snd (AddApp sha io u cfg s))"
proof (cases "gm_get (s_metadata s) (cfg_ID cfg)")
  case None
  with assms show ?thesis
    by (auto simp: AddApp_def Let_def commit_swap_snd store_ok_def
        dest: newAppMetadata_ok split: sum.split)
next
  case (Some m)
  then have "md_UID m \<noteq> []" using assms(1) store_ok_meta by blast
  with Some assms show ?thesis
    by (auto simp: AddApp_def Let_def commit_swap_snd store_ok_def)
qed

lemma RemoveApp_ok: "store_ok s \<Longrightarrow> store_ok (snd (RemoveApp sha io i s))"
  by (auto simp: RemoveApp_def Let_def commit_swap_snd store_ok_def)

lemma AddVolume_ok: "store_ok s \<Longrightarrow> store_ok (snd (AddVolume sha io v s))"
  by (auto simp: AddVolume_def Let_def commit_swap_snd store_ok_def)

lemma RemoveVolume_ok: "store_ok s \<Longrightarrow> store_ok (snd (RemoveVolume sha io i s))"
  by (auto simp: RemoveVolume_def Let_def commit_swap_snd store_ok_def)

lemma SetObservedGeneration_ok:
  "store_ok s \<Longrightarrow> store_ok (snd (SetObservedGeneration sha io i g s))"
  using store_ok_meta [of s i]
  by (auto simp: SetObservedGeneration_def Let_def commit_swap_snd store_ok_def insert_absorb
      split: option.split)

subsection \<open>The ledger\<close>

abbreviation seq_of :: "Release \<Rightarrow> int" where
  "seq_of r \<equiv> rs_ReleaseSeq (rel_Spec r)"

lemma demote_seq [simp]: "rel_Spec (demote p r) = rel_Spec r"
  by (simp add: demote_def)

lemma demote_phase: "p \<noteq> ReleasePhaseActive \<Longrightarrow> rel_Phase (demote p r) \<noteq> ReleasePhaseActive"
  by (simp add: demote_def)

lemma next_seq_upto:
  "int n < 2 ^ 63 - 1 \<Longrightarrow> map seq_of rs = map (\<lambda>i. int i + 1) [0..<n] \<Longrightarrow> next_seq rs = int n + 1"
proof (induction n arbitrary: rs)
  case 0
  then show ?case by (simp add: next_seq_def)
next
  case (Suc n)
  then obtain r rs' where rs: "rs = rs' @ [r]" by (cases rs rule: rev_cases) auto
  with Suc.prems have r: "seq_of r = int n + 1" and "map seq_of rs' = map (\<lambda>i. int i + 1) [0..<n]"
    by simp_all
  then have "next_seq rs' = int n + 1" using Suc by simp
  with rs r Suc.prems(1) show ?case
    by (simp add: next_seq_def int64_ok_def)
qed

lemma next_seq_ledger:
  assumes "rs = [] \<or> ledger_ok rs" and "int (length rs) < 2 ^ 63 - 1"
  shows "next_seq rs = int (length rs) + 1"
  using assms by (intro next_seq_upto) (auto simp: ledger_ok_def)

lemma filter_demote:
  "p \<noteq> ReleasePhaseActive \<Longrightarrow>
   filter (\<lambda>r. rel_Phase r = ReleasePhaseActive) (map (demote p) rs) = []"
  using demote_phase by (auto simp: filter_empty_conv)

lemma ledger_ok_snoc:
  assumes "rs = [] \<or> ledger_ok rs" and "p \<noteq> ReleasePhaseActive" and "seq_of r = next_seq rs"
  shows "ledger_ok (map (demote p) rs @ [r])"
proof -
  have "int (length rs) < 2 ^ 63 - 1 \<Longrightarrow>
      map seq_of rs = map (\<lambda>i. int i + 1) [0..<length rs] \<and> seq_of r = int (length rs) + 1"
    using assms(1,3) next_seq_ledger [of rs] by (auto simp: ledger_ok_def)
  then show ?thesis
    using filter_demote [OF assms(2)] by (auto simp: ledger_ok_def one_active_def comp_def)
qed

lemma store_ok_rels: "store_ok s \<Longrightarrow> rels_of (s_releases s) i = [] \<or> ledger_ok (rels_of (s_releases s) i)"
  by (auto simp: store_ok_def rels_of_def dest: releases_ok_get split: option.split)

text \<open>What \<open>CreateRelease\<close> does when it reaches the flush.\<close>

definition release_of :: "flush_io \<Rightarrow> string \<Rightarrow> AppMetadata \<Rightarrow> ReleaseInput \<Rightarrow> Release list \<Rightarrow> Release" where
  "release_of io uuid meta inp rs = \<lparr>rel_UID = uuid, rel_Phase = ReleasePhaseActive,
     rel_CreationTimestamp = io_now io,
     rel_Spec = (ri_Spec inp)\<lparr>rs_AppUID := md_UID meta, rs_ReleaseSeq := next_seq rs\<rparr>\<rparr>"

definition prior_phase :: "ReleaseInput \<Rightarrow> ReleasePhase" where
  "prior_phase inp = (if ri_PriorActivePhase inp = [] then ReleasePhaseSuperseded
                      else ri_PriorActivePhase inp)"

lemma CreateRelease_Inr:
  assumes "CreateRelease sha io u i inp s = (Inr rel, s')"
  obtains meta where "gm_get (s_metadata s) i = Some meta" and "i \<noteq> []"
    and "gm_get (s_apps s) i \<noteq> None"
    and "prior_phase inp = ReleasePhaseSuperseded \<or> prior_phase inp = ReleasePhaseRolledBack"
    and "rel = release_of io u meta inp (rels_of (s_releases s) i)"
    and "s_releases s' = gm_set i (map (demote (prior_phase inp)) (rels_of (s_releases s) i) @ [rel])
           (s_releases s)"
    and "s_metadata s' = gm_set i (meta\<lparr>md_ResourceVersion := uwrap64 (md_ResourceVersion meta + 1)\<rparr>)
           (s_metadata s)"
    and "s_apps s' = s_apps s" and "s_volumes s' = s_volumes s"
proof -
  obtain meta where meta: "gm_get (s_metadata s) i = Some meta"
    using assms by (auto simp: CreateRelease_def split: if_splits option.splits)
  have upd: "\<lparr>md_UID = md_UID meta, md_Generation = md_Generation meta,
      md_ObservedGeneration = md_ObservedGeneration meta, md_ResourceVersion = x,
      md_CreationTimestamp = md_CreationTimestamp meta\<rparr> = meta\<lparr>md_ResourceVersion := x\<rparr>" for x
    by (cases meta) simp
  show thesis
    using assms meta
    by (intro that [OF meta])
      (auto simp: CreateRelease_def Let_def commit_swap_def upd release_of_def prior_phase_def
        split: if_splits option.splits)
qed

lemma CreateRelease_Inl:
  "CreateRelease sha io u i inp s = (Inl e, s') \<Longrightarrow> mem s' = mem s"
  by (auto simp: CreateRelease_def Let_def commit_swap_def split: if_splits option.splits)

lemma store_ok_mem: "mem s = mem s' \<Longrightarrow> store_ok s = store_ok s'"
  by (simp add: mem_def store_ok_def)

lemma CreateRelease_ok: "store_ok s \<Longrightarrow> store_ok (snd (CreateRelease sha io u i inp s))"
proof (cases "CreateRelease sha io u i inp s")
  case (Pair res s')
  assume ok: "store_ok s"
  show ?thesis
  proof (cases res)
    case (Inl e)
    with Pair ok show ?thesis by (auto dest: CreateRelease_Inl simp: store_ok_mem [of s' s])
  next
    case (Inr rel)
    with Pair have "CreateRelease sha io u i inp s = (Inr rel, s')" by simp
    then show ?thesis
    proof (rule CreateRelease_Inr)
      fix meta assume m: "gm_get (s_metadata s) i = Some meta"
        and p: "prior_phase inp = ReleasePhaseSuperseded \<or> prior_phase inp = ReleasePhaseRolledBack"
        and r: "rel = release_of io u meta inp (rels_of (s_releases s) i)"
        and s': "s_releases s' = gm_set i (map (demote (prior_phase inp)) (rels_of (s_releases s) i) @ [rel])
           (s_releases s)"
          "s_metadata s' = gm_set i (meta\<lparr>md_ResourceVersion := uwrap64 (md_ResourceVersion meta + 1)\<rparr>)
           (s_metadata s)" "s_apps s' = s_apps s" "s_volumes s' = s_volumes s"
      have "ledger_ok (map (demote (prior_phase inp)) (rels_of (s_releases s) i) @ [rel])"
        using p r by (intro ledger_ok_snoc store_ok_rels ok) (auto simp: release_of_def)
      then show ?thesis
        using ok s' Pair store_ok_meta [OF ok m] by (auto simp: store_ok_def insert_absorb)
    qed
  qed
qed

section \<open>The contract\<close>

fun op_uuid_ok :: "store_op \<Rightarrow> bool" where
  "op_uuid_ok (OpAddApp u cfg) \<longleftrightarrow> u \<noteq> Some []"
| "op_uuid_ok _ \<longleftrightarrow> True"

lemma exec_CreateRelease:
  "snd (exec_op sha io (OpCreateRelease u i inp) s) = snd (CreateRelease sha io u i inp s)"
  by (simp split: prod.split sum.split)

lemma exec_op_ok: "store_ok s \<Longrightarrow> op_uuid_ok op \<Longrightarrow> store_ok (snd (exec_op sha io op s))"
  by (cases op) (simp_all add: AddApp_ok RemoveApp_ok AddVolume_ok RemoveVolume_ok
      SetObservedGeneration_ok exec_CreateRelease CreateRelease_ok del: exec_op.simps(6))

lemma exec_op_err: "fst (exec_op sha io op s) = Some e \<Longrightarrow> mem (snd (exec_op sha io op s)) = mem s"
  by (cases op) (auto simp: AddApp_def RemoveApp_def AddVolume_def RemoveVolume_def
      SetObservedGeneration_def Let_def commit_swap_err dest: CreateRelease_Inl
      split: if_splits sum.splits option.splits prod.splits)

definition exec_step :: "(bytes \<Rightarrow> string) \<Rightarrow> flush_io \<times> store_op \<Rightarrow> Store \<Rightarrow> Store" where
  "exec_step sha = (\<lambda>(io, op) s. snd (exec_op sha io op s))"

lemma run_ops_fold: "run_ops sha ops s = fold (exec_step sha) ops s"
  by (induction sha ops s rule: run_ops.induct) (simp_all add: exec_step_def)

interpretation store_sys: fallible_system "exec_step sha" "\<lambda>(io, op). op_uuid_ok op" store_ok
    "\<lambda>(io, op) s. fst (exec_op sha io op s) \<noteq> None" mem
  for sha
  by unfold_locales (auto simp: exec_step_def exec_op_ok exec_op_err)

text \<open>The part of an app's metadata that survives: identity for ever, the counters upwards.\<close>

definition meta_le :: "AppMetadata \<Rightarrow> AppMetadata \<Rightarrow> bool" where
  "meta_le m m' \<longleftrightarrow> md_UID m' = md_UID m \<and> md_CreationTimestamp m' = md_CreationTimestamp m \<and>
     md_Generation m \<le> md_Generation m' \<and> md_ObservedGeneration m \<le> md_ObservedGeneration m'"

lemma meta_le_refl [simp]: "meta_le m m"
  by (simp add: meta_le_def)

definition removes :: "string \<Rightarrow> store_op \<Rightarrow> bool" where
  "removes i op \<longleftrightarrow> op = OpRemoveApp i"

lemma exec_op_meta:
  assumes "store_ok s" and "gm_get (s_metadata s) i = Some m" and "\<not> removes i op"
    and "0 \<le> md_Generation m" and "md_Generation m < 2 ^ 63 - 1"
  obtains m' where "gm_get (s_metadata (snd (exec_op sha io op s))) i = Some m'" and "meta_le m m'"
    and "md_Generation m' \<le> md_Generation m + 1"
proof -
  have gen: "wrap64 (md_Generation m + 1) = md_Generation m + 1"
    using assms(4,5) by (rule wrap64_Suc)
  have obs: "md_ObservedGeneration m \<le> md_Generation m"
    using store_ok_meta [OF assms(1,2)] by simp
  have "\<exists>m'. gm_get (s_metadata (snd (exec_op sha io op s))) i = Some m' \<and> meta_le m m' \<and>
      md_Generation m' \<le> md_Generation m + 1"
  proof (cases op)
    case (OpAddApp u cfg)
    then show ?thesis using assms(2) gen obs
      by (cases "cfg_ID cfg = i")
        (auto simp: AddApp_def Let_def commit_swap_snd meta_le_def bump_spec_def
          split: option.split sum.split)
  next
    case (OpSetObserved j g)
    then show ?thesis using assms(2)
      by (auto simp: SetObservedGeneration_def Let_def commit_swap_snd meta_le_def split: option.split)
  next
    case (OpCreateRelease u j inp)
    then show ?thesis using assms(2)
      by (cases "CreateRelease sha io u j inp s")
        (auto dest!: CreateRelease_Inl elim!: CreateRelease_Inr simp: mem_def meta_le_def split: sum.split)
  qed (use assms(2,3) in \<open>auto simp: RemoveApp_def AddVolume_def RemoveVolume_def Let_def commit_swap_snd
        removes_def\<close>)
  then show thesis using that by blast
qed

lemma run_meta:
  assumes "store_ok s" and "list_all (\<lambda>(io, op). op_uuid_ok op \<and> \<not> removes i op) ops"
    and "gm_get (s_metadata s) i = Some m" and "0 \<le> md_Generation m"
    and "md_Generation m + int (length ops) < 2 ^ 63"
  shows "\<exists>m'. gm_get (s_metadata (run_ops sha ops s)) i = Some m' \<and> meta_le m m'"
  using assms
proof (induction ops arbitrary: s m)
  case Nil
  then show ?case by (auto intro: exI [of _ m])
next
  case (Cons iop ops)
  obtain io op where iop: "iop = (io, op)" by force
  from Cons.prems iop have nr: "\<not> removes i op" and bound: "md_Generation m < 2 ^ 63 - 1" by auto
  obtain m' where m': "gm_get (s_metadata (snd (exec_op sha io op s))) i = Some m'" "meta_le m m'"
      "md_Generation m' \<le> md_Generation m + 1"
    by (rule exec_op_meta [OF Cons.prems(1,3) nr Cons.prems(4) bound])
  have "store_ok (snd (exec_op sha io op s))" using Cons.prems iop by (auto intro: exec_op_ok)
  then obtain m'' where "gm_get (s_metadata (run_ops sha ops (snd (exec_op sha io op s)))) i = Some m''"
      "meta_le m' m''"
    using Cons.IH [of _ m'] Cons.prems iop m' by (auto simp: meta_le_def)
  with m'(2) iop show ?case by (auto simp: meta_le_def)
qed

definition web_input :: ReleaseInput where
  "web_input = \<lparr>ri_Spec = \<lparr>rs_AppUID = [], rs_ReleaseSeq = 0, rs_GitSha = ''abc'', rs_Image = [],
     rs_EnvHash = [], rs_CreatedBy = ''ci'', rs_RolledBackFrom = 0, rs_OriginalArtifactRelease = 0,
     rs_ConfigSnapshot = Some web\<rparr>, ri_PriorActivePhase = []\<rparr>"

lemma web_store_ok: "store_ok web_store"
  by (simp add: store_ok_def apps_ok_def volumes_ok_def metadata_ok_def releases_ok_def gm_ok_def
      gm_all_def flush_eval)

section \<open>Properties\<close>

text \<open>
  C3: Whatever the system calls of its flushes return, a sequence of store mutations started on an empty
  store keeps the store's invariant: app and volume entries sit under their own non-empty id, every
  app has metadata with a UID and an observed generation that is at most the generation, and every
  ledger has at most one Active release and the sequence numbers 1, 2, 3, ...
\<close>

theorem store_invariant:
  assumes "list_all (\<lambda>(io, op). op_uuid_ok op) ops"
  shows "store_ok (run_ops sha ops (empty_Store d))"
  unfolding run_ops_fold using store_ok_empty assms by (rule store_sys.inv_run)

theorem store_invariant_witness:
  "store_ok (run_ops (\<lambda>_. []) [(ok_io ''t1'' 1, OpAddApp (Some ''u1'') web),
     (ok_io ''t2'' 2, OpCreateRelease ''u2'' ''web'' web_input)] (empty_Store empty_disk))"
  by (rule store_invariant) simp

text \<open>
  C5: A store mutation that returns an error leaves the in-memory maps exactly as they were, at
  whatever step of its flush it failed.
\<close>

theorem store_error_keeps_memory:
  assumes "fst (exec_op sha io op s) = Some e"
  shows "s_apps (snd (exec_op sha io op s)) = s_apps s \<and>
    s_metadata (snd (exec_op sha io op s)) = s_metadata s \<and>
    s_releases (snd (exec_op sha io op s)) = s_releases s \<and>
    s_volumes (snd (exec_op sha io op s)) = s_volumes s"
  using exec_op_err [OF assms] by (simp add: mem_def)

theorem store_error_keeps_memory_witness:
  "s_apps (snd (exec_op (\<lambda>_. []) ((ok_io ''t'' 1)\<lparr>io_rename := False\<rparr>) (OpAddApp (Some ''u'') web)
     (empty_Store empty_disk))) = []"
  using store_error_keeps_memory [of "\<lambda>_. []" "(ok_io ''t'' 1)\<lparr>io_rename := False\<rparr>"
      "OpAddApp (Some ''u'') web" "empty_Store empty_disk" "StFlush FRename"]
  by (simp add: AddApp_def newAppMetadata_def flush_eval)

text \<open>
  C6: An app's UID and creation time never change while it is not removed, and its generation and
  observed generation never decrease (for fewer than \<open>2 ^ 63\<close> spec writes), over any sequence of
  mutations, successful or not.
\<close>

theorem identity_preserved:
  assumes "store_ok s" and "list_all (\<lambda>(io, op). op_uuid_ok op \<and> op \<noteq> OpRemoveApp i) ops"
    and "Meta s i = Some m" and "0 \<le> md_Generation m"
    and "md_Generation m + int (length ops) < 2 ^ 63"
  shows "\<exists>m'. Meta (run_ops sha ops s) i = Some m' \<and> md_UID m' = md_UID m \<and>
    md_CreationTimestamp m' = md_CreationTimestamp m \<and> md_Generation m \<le> md_Generation m' \<and>
    md_ObservedGeneration m \<le> md_ObservedGeneration m'"
  using run_meta [of s i ops m sha] assms by (auto simp: Meta_def removes_def meta_le_def)

theorem identity_preserved_witness:
  "\<exists>m'. Meta (run_ops (\<lambda>_. []) [(ok_io ''t2'' 2, OpAddApp (Some ''u2'') web)]
      (snd (AddApp (\<lambda>_. []) (ok_io ''t1'' 1) (Some ''u1'') web (empty_Store empty_disk)))) ''web'' = Some m' \<and>
    md_UID m' = ''u1'' \<and> md_CreationTimestamp m' = 1 \<and> 1 \<le> md_Generation m' \<and>
    1 \<le> md_ObservedGeneration m'"
  using identity_preserved [of "snd (AddApp (\<lambda>_. []) (ok_io ''t1'' 1) (Some ''u1'') web (empty_Store empty_disk))"
      "''web''" "[(ok_io ''t2'' 2, OpAddApp (Some ''u2'') web)]"
      "\<lparr>md_UID = ''u1'', md_Generation = 1, md_ObservedGeneration = 1, md_ResourceVersion = 1,
        md_CreationTimestamp = 1\<rparr>" "\<lambda>_. []"]
  by (simp add: AddApp_ok store_ok_empty Meta_def)
    (simp add: AddApp_def newAppMetadata_def flush_eval)

text \<open>
  C4: A release that \<open>CreateRelease\<close> returns is the last entry of the app's ledger, carries the next
  sequence number, and is the one \<open>ActiveRelease\<close> and \<open>FindRelease\<close> return; the earlier
  entries keep their specs, and none of them is Active any more.
\<close>

theorem CreateRelease_single_active:
  assumes "store_ok s" and "CreateRelease sha io u i inp s = (Inr rel, s')"
    and "int (length (Releases s i)) < 2 ^ 63 - 1"
  shows "rs_ReleaseSeq (rel_Spec rel) = int (length (Releases s i)) + 1 \<and>
    map rel_Spec (Releases s' i) = map rel_Spec (Releases s i) @ [rel_Spec rel] \<and>
    filter (\<lambda>r. rel_Phase r = ReleasePhaseActive) (Releases s' i) = [rel] \<and>
    ActiveRelease s' i = Some rel \<and>
    FindRelease s' i (rs_ReleaseSeq (rel_Spec rel)) = Some rel"
proof -
  define rs where "rs = Releases s i"
  obtain meta where p: "prior_phase inp = ReleasePhaseSuperseded \<or> prior_phase inp = ReleasePhaseRolledBack"
    and rel: "rel = release_of io u meta inp rs"
    and s': "s_releases s' = gm_set i (map (demote (prior_phase inp)) rs @ [rel]) (s_releases s)"
    by (rule CreateRelease_Inr [OF assms(2)]) (auto simp: rs_def Releases_def)
  have p': "prior_phase inp \<noteq> ReleasePhaseActive" using p by auto
  have rs: "rs = [] \<or> ledger_ok rs" using store_ok_rels [OF assms(1)] by (simp add: rs_def Releases_def)
  then have seq: "seq_of rel = int (length rs) + 1"
    using next_seq_ledger [of rs] assms(3) rel by (simp add: release_of_def rs_def)
  have act: "rel_Phase rel = ReleasePhaseActive" using rel by (simp add: release_of_def)
  have R: "Releases s' i = map (demote (prior_phase inp)) rs @ [rel]"
    by (simp add: Releases_def rels_of_def s')
  have early: "seq_of r \<noteq> int (length rs) + 1" if "r \<in> set rs" for r
  proof -
    have "map seq_of rs = map (\<lambda>i. int i + 1) [0..<length rs]"
      using rs assms(3) by (auto simp: ledger_ok_def rs_def)
    then have "seq_of r \<in> set (map (\<lambda>i. int i + 1) [0..<length rs])"
      using that by (metis image_eqI image_set)
    then show ?thesis by auto
  qed
  have "find (\<lambda>r. rel_Phase r = ReleasePhaseActive) (map (demote (prior_phase inp)) rs @ [rel]) = Some rel"
    using act demote_phase [OF p'] by (intro find_snoc) auto
  moreover have "find (\<lambda>r. seq_of r = seq_of rel) (map (demote (prior_phase inp)) rs @ [rel]) = Some rel"
    using early seq by (intro find_snoc) auto
  ultimately show ?thesis
    using seq R act filter_demote [OF p', of rs]
    by (simp add: ActiveRelease_def FindRelease_def rs_def Releases_def comp_def)
qed

theorem CreateRelease_single_active_witness:
  "\<exists>rel s'. CreateRelease (\<lambda>_. []) (ok_io ''t'' 2) ''u2'' ''web'' web_input web_store = (Inr rel, s') \<and>
     rs_ReleaseSeq (rel_Spec rel) = 1 \<and> ActiveRelease s' ''web'' = Some rel"
proof -
  obtain rel s' where c: "CreateRelease (\<lambda>_. []) (ok_io ''t'' 2) ''u2'' ''web'' web_input web_store = (Inr rel, s')"
    by (simp add: CreateRelease_def web_input_def flush_eval)
  moreover have "Releases web_store ''web'' = []"
    by (simp add: Releases_def rels_of_def flush_eval)
  ultimately show ?thesis
    using CreateRelease_single_active [OF web_store_ok c] by auto
qed

text \<open>
  \<open>SetObservedGeneration\<close> returns no error only for a generation between the observed and the
  current one; then the observed generation is that value (a success whose metadata is unchanged
  included), and nothing else of the identity moves.
\<close>

lemma SetObservedGeneration_guard:
  assumes "fst (SetObservedGeneration sha io i g s) = None"
  shows "\<exists>m m'. Meta s i = Some m \<and> Meta (snd (SetObservedGeneration sha io i g s)) i = Some m' \<and>
    md_ObservedGeneration m \<le> g \<and> g \<le> md_Generation m \<and>
    md_ObservedGeneration m' = g \<and> md_UID m' = md_UID m \<and> md_Generation m' = md_Generation m \<and>
    md_CreationTimestamp m' = md_CreationTimestamp m"
  using assms
  by (auto simp: SetObservedGeneration_def Let_def commit_swap_None commit_swap_snd Meta_def
      split: if_splits option.splits)

lemma SetObservedGeneration_guard_witness:
  "\<exists>m m'. Meta web_store ''web'' = Some m \<and>
    Meta (snd (SetObservedGeneration (\<lambda>_. []) (ok_io ''t'' 2) ''web'' 1 web_store)) ''web'' = Some m' \<and>
    md_ObservedGeneration m \<le> 1 \<and> 1 \<le> md_Generation m \<and> md_ObservedGeneration m' = 1 \<and>
    md_UID m' = md_UID m \<and> md_Generation m' = md_Generation m \<and>
    md_CreationTimestamp m' = md_CreationTimestamp m"
  by (rule SetObservedGeneration_guard) (simp add: SetObservedGeneration_def flush_eval)

text \<open>
  A successful \<open>RemoveApp\<close> of a known app drops its configuration, metadata and ledger, so adding
  the same name again takes the new UID, generation 1 and an empty ledger.
\<close>

theorem recreate_gets_fresh_identity:
  assumes "store_ok s" and "fst (RemoveApp sha io (cfg_ID cfg) s) = None"
    and "s1 = snd (RemoveApp sha io (cfg_ID cfg) s)"
    and "fst (AddApp sha io' (Some u) cfg s1) = None"
  shows "Meta s1 (cfg_ID cfg) = None \<and> Releases s1 (cfg_ID cfg) = [] \<and>
    Releases (snd (AddApp sha io' (Some u) cfg s1)) (cfg_ID cfg) = [] \<and>
    Meta (snd (AddApp sha io' (Some u) cfg s1)) (cfg_ID cfg) =
      Some \<lparr>md_UID = u, md_Generation = 1, md_ObservedGeneration = 1, md_ResourceVersion = 1,
            md_CreationTimestamp = io_now io'\<rparr>"
proof -
  have s1: "Meta s1 (cfg_ID cfg) = None \<and> Releases s1 (cfg_ID cfg) = []"
  proof (cases "gm_get (s_apps s) (cfg_ID cfg)")
    case None
    with assms(1) have "gm_get (s_metadata s) (cfg_ID cfg) = None" "gm_get (s_releases s) (cfg_ID cfg) = None"
      by (auto simp: gm_get_None store_ok_def)
    with None assms(3) show ?thesis
      by (simp add: RemoveApp_def Meta_def Releases_def rels_of_def)
  next
    case (Some c)
    with assms(2,3) show ?thesis
      by (auto simp: RemoveApp_def Let_def commit_swap_None commit_swap_snd Meta_def Releases_def
          rels_of_def)
  qed
  with assms(4) show ?thesis
    by (auto simp: AddApp_def Let_def newAppMetadata_def commit_swap_None commit_swap_snd Meta_def
        Releases_def split: if_splits)
qed

theorem recreate_gets_fresh_identity_witness:
  "Meta (snd (AddApp (\<lambda>_. []) (ok_io ''t2'' 9) (Some ''u9'') web
     (snd (RemoveApp (\<lambda>_. []) (ok_io ''t1'' 2) ''web'' web_store)))) ''web'' =
   Some \<lparr>md_UID = ''u9'', md_Generation = 1, md_ObservedGeneration = 1, md_ResourceVersion = 1,
         md_CreationTimestamp = 9\<rparr>"
proof -
  have i: "cfg_ID web = ''web''" and now: "io_now (ok_io ''t2'' 9) = 9"
    by (simp_all add: web_def zero_Config_def ok_io_def)
  have "fst (RemoveApp (\<lambda>_. []) (ok_io ''t1'' 2) ''web'' web_store) = None"
    by (simp add: RemoveApp_def flush_eval)
  moreover have "fst (AddApp (\<lambda>_. []) (ok_io ''t2'' 9) (Some ''u9'') web
      (snd (RemoveApp (\<lambda>_. []) (ok_io ''t1'' 2) ''web'' web_store))) = None"
    by (simp add: RemoveApp_def AddApp_def newAppMetadata_def flush_eval)
  ultimately show ?thesis
    using recreate_gets_fresh_identity [OF web_store_ok, where cfg = web and u = "''u9''"
        and io = "ok_io ''t1'' 2" and io' = "ok_io ''t2'' 9" and sha = "\<lambda>_. []"] i now
    by simp
qed

end
