(* ===== verification/Admin_Audit.thy ===== *)
theory Admin_Audit
  imports Go_Strings
begin

text \<open>
  \<open>internal/adminapi/audit.go\<close>: the hash-chained audit log. \<open>sha\<close> is the hex SHA-256 of a byte string and
  \<open>enc\<close>, \<open>dec\<close> are the JSON encoding of an entry, all arguments of the definitions. A log file is its
  complete lines and the bytes after the last newline; \<open>rot\<close> holds \<open>audit.log.1\<close> to \<open>audit.log.5\<close>. Reading
  splits a file the way \<open>bufio.Scanner\<close> does: one carriage return before the newline is dropped, and a
  line that does not fit into the 1 MiB buffer ends the scan with an error.
\<close>

section \<open>Entries and files\<close>

record AuditEntry =
  ae_PrevSHA256 :: string
  ae_Timestamp :: string
  ae_Method :: string
  ae_Path :: string
  ae_AppID :: string
  ae_Action :: string
  ae_Actor :: string
  ae_StatusCode :: int
  ae_DurationMS :: int
  ae_SourceIP :: string

definition auditGenesisHash :: string where
  "auditGenesisHash = replicate 64 (CHR ''0'')"

definition auditMaxFileBytes :: int where
  "auditMaxFileBytes = 25 * 1024 * 1024"

abbreviation auditKeepRotated :: nat where "auditKeepRotated \<equiv> 5"

record log_file =
  lf_lines :: "string list"
  lf_tail :: string

definition empty_file :: log_file where
  "empty_file = \<lparr>lf_lines = [], lf_tail = []\<rparr>"

text \<open>
  What \<open>bufio.Scanner\<close> returns for the lines, and the tail when it is not empty: the tokens before the
  first line that fills the buffer, each without one carriage return at its end, and whether there was
  no such line.
\<close>

definition auditMaxLine :: int where
  "auditMaxLine = 1024 * 1024"

abbreviation CR :: string where "CR \<equiv> [CHR 0x0D]"

fun scan_lines :: "string list \<Rightarrow> string list \<times> bool" where
  "scan_lines [] = ([], True)"
| "scan_lines (l # ls) =
     (if int (length l) \<ge> auditMaxLine then ([], False)
      else let (ts, ok) = scan_lines ls in (TrimSuffix l CR # ts, ok))"

definition scan_file :: "log_file \<Rightarrow> string list \<times> bool" where
  "scan_file f = scan_lines (lf_lines f @ (if lf_tail f = [] then [] else [lf_tail f]))"

record audit_fs =
  fs_cur :: "log_file option"
  fs_rot :: "log_file option list"
  fs_cursor :: "(string \<times> nat) option"

record AuditLogger =
  al_fs :: audit_fs
  al_open :: bool
  al_bytes :: int
  al_lastHash :: string

section \<open>Opening\<close>

text \<open>\<open>None\<close>: the scan of \<open>audit.log\<close> ended with an error.\<close>

definition resumeChain :: "(string \<Rightarrow> string) \<Rightarrow> audit_fs \<Rightarrow> string option" where
  "resumeChain sha fs =
     (case fs_cur fs of
        None \<Rightarrow> Some auditGenesisHash
      | Some f \<Rightarrow>
          (case scan_file f of
             (_, False) \<Rightarrow> None
           | (ls, True) \<Rightarrow>
               (case filter (\<lambda>l. l \<noteq> []) ls of
                  [] \<Rightarrow> Some auditGenesisHash
                | rs \<Rightarrow> Some (sha (last rs)))))"

definition file_size :: "log_file \<Rightarrow> int" where
  "file_size f = int (sum_list (map (\<lambda>l. length l + 1) (lf_lines f)) + length (lf_tail f))"

definition NewAuditLogger :: "(string \<Rightarrow> string) \<Rightarrow> bool \<Rightarrow> audit_fs \<Rightarrow> AuditLogger option" where
  "NewAuditLogger sha io_ok fs =
     (if \<not> io_ok then None
      else case resumeChain sha fs of
        None \<Rightarrow> None
      | Some h \<Rightarrow>
          let f = (case fs_cur fs of None \<Rightarrow> empty_file | Some f \<Rightarrow> f)
          in Some \<lparr>al_fs = fs\<lparr>fs_cur := Some f\<rparr>, al_open = True, al_bytes = file_size f, al_lastHash = h\<rparr>)"

section \<open>Rotation\<close>

text \<open>A file whose \<open>Close\<close> failed is as unusable as a closed one: every later write on it fails.\<close>

record rotate_io =
  rt_close :: bool
  rt_shift :: "nat \<Rightarrow> bool"
  rt_promote :: bool
  rt_cursor :: bool
  rt_open :: bool

text \<open>The rename of \<open>audit.log.i\<close> to \<open>audit.log.(i+1)\<close>, for \<open>i\<close> from 4 down to 1; \<open>False\<close> when one failed.\<close>

fun rot_shift :: "(nat \<Rightarrow> bool) \<Rightarrow> nat \<Rightarrow> log_file option list \<Rightarrow> bool \<times> log_file option list" where
  "rot_shift ok 0 rot = (True, rot)"
| "rot_shift ok (Suc i) rot =
     (if rot ! i = None then rot_shift ok i rot
      else if ok (Suc i) then rot_shift ok i (rot[Suc i := rot ! i, i := None])
      else (False, rot))"

definition rotate_log :: "rotate_io \<Rightarrow> AuditLogger \<Rightarrow> AuditLogger" where
  "rotate_log io a =
     (if \<not> rt_close io then a\<lparr>al_open := False\<rparr>
      else
        let a1 = a\<lparr>al_open := False\<rparr>;
            rot0 = (fs_rot (al_fs a))[auditKeepRotated - 1 := None];
            (ok, rot1) = rot_shift (rt_shift io) (auditKeepRotated - 1) rot0
        in
        if \<not> ok then a1\<lparr>al_fs := (al_fs a)\<lparr>fs_rot := rot1\<rparr>\<rparr>
        else if \<not> rt_promote io then a1\<lparr>al_fs := (al_fs a)\<lparr>fs_rot := rot1\<rparr>\<rparr>
        else
          let fs2 = (al_fs a)\<lparr>fs_rot := rot1[0 := fs_cur (al_fs a)], fs_cur := None\<rparr> in
          if \<not> rt_cursor io then a1\<lparr>al_fs := fs2\<rparr>
          else
            let fs3 = fs2\<lparr>fs_cursor := Some (al_lastHash a, 1)\<rparr> in
            if \<not> rt_open io then a1\<lparr>al_fs := fs3\<rparr>
            else a1\<lparr>al_fs := fs3\<lparr>fs_cur := Some empty_file\<rparr>, al_open := True, al_bytes := 0\<rparr>)"

section \<open>Logging\<close>

text \<open>\<open>lio_fail\<close>: the write failed after that many bytes of the line.\<close>

record log_io =
  lio_fail :: "nat option"
  lio_rotate :: rotate_io

definition append_bytes :: "string \<Rightarrow> bool \<Rightarrow> log_file \<Rightarrow> log_file" where
  "append_bytes bytes newline f =
     (if newline then \<lparr>lf_lines = lf_lines f @ [lf_tail f @ bytes], lf_tail = []\<rparr>
      else f\<lparr>lf_tail := lf_tail f @ bytes\<rparr>)"

definition write_cur :: "string \<Rightarrow> bool \<Rightarrow> AuditLogger \<Rightarrow> AuditLogger" where
  "write_cur bytes newline a =
     a\<lparr>al_fs := (al_fs a)\<lparr>fs_cur := map_option (append_bytes bytes newline) (fs_cur (al_fs a))\<rparr>\<rparr>"

definition Log :: "(string \<Rightarrow> string) \<Rightarrow> (AuditEntry \<Rightarrow> string option) \<Rightarrow> log_io \<Rightarrow> AuditEntry \<Rightarrow> AuditLogger \<Rightarrow> AuditLogger" where
  "Log sha enc io e a =
     (case enc (e\<lparr>ae_PrevSHA256 := al_lastHash a\<rparr>) of
        None \<Rightarrow> a
      | Some line \<Rightarrow>
          if \<not> al_open a then a
          else case lio_fail io of
            Some n \<Rightarrow> write_cur (take n line) False a
          | None \<Rightarrow>
              let a1 = (write_cur line True a)\<lparr>al_bytes := wrap64 (al_bytes a + int (length line + 1)), al_lastHash := sha line\<rparr>
              in if al_bytes a1 \<ge> auditMaxFileBytes then rotate_log (lio_rotate io) a1 else a1)"

definition audit_Close :: "AuditLogger \<Rightarrow> AuditLogger" where
  "audit_Close a = a\<lparr>al_open := False\<rparr>"

section \<open>Verification\<close>

text \<open>\<open>ChainScan\<close>: the scanner stopped at a line that is too long.\<close>

datatype audit_error = ChainDecode nat | ChainMismatch nat | ChainScan

fun verify_lines :: "(string \<Rightarrow> string) \<Rightarrow> (string \<Rightarrow> AuditEntry option) \<Rightarrow> nat \<Rightarrow> string \<Rightarrow> string list \<Rightarrow> audit_error + string" where
  "verify_lines sha dec n prev [] = Inr prev"
| "verify_lines sha dec n prev (raw # ls) =
     (if raw = [] then verify_lines sha dec (Suc n) prev ls
      else case dec raw of
        None \<Rightarrow> Inl (ChainDecode (Suc n))
      | Some rec \<Rightarrow>
          if ae_PrevSHA256 rec \<noteq> prev then Inl (ChainMismatch (Suc n))
          else verify_lines sha dec (Suc n) (sha raw) ls)"

definition verifyChainInFile ::
  "(string \<Rightarrow> string) \<Rightarrow> (string \<Rightarrow> AuditEntry option) \<Rightarrow> log_file option \<Rightarrow> string \<Rightarrow> audit_error + string"
where
  "verifyChainInFile sha dec f expectedPrev =
     (case f of
        None \<Rightarrow> Inr expectedPrev
      | Some f \<Rightarrow>
          let (ls, ok) = scan_file f in
          case verify_lines sha dec 0 expectedPrev ls of
            Inl e \<Rightarrow> Inl e
          | Inr prev \<Rightarrow> if ok then Inr prev else Inl ChainScan)"

fun verify_files ::
  "(string \<Rightarrow> string) \<Rightarrow> (string \<Rightarrow> AuditEntry option) \<Rightarrow> string \<Rightarrow> log_file option list \<Rightarrow> audit_error + string"
where
  "verify_files sha dec prev [] = Inr prev"
| "verify_files sha dec prev (f # fs) =
     (case verifyChainInFile sha dec f prev of Inl e \<Rightarrow> Inl e | Inr tip \<Rightarrow> verify_files sha dec tip fs)"

definition VerifyAuditChain :: "(string \<Rightarrow> string) \<Rightarrow> (string \<Rightarrow> AuditEntry option) \<Rightarrow> audit_fs \<Rightarrow> audit_error option" where
  "VerifyAuditChain sha dec fs =
     (case verify_files sha dec auditGenesisHash (rev (fs_rot fs) @ [fs_cur fs]) of Inl e \<Rightarrow> Some e | Inr _ \<Rightarrow> None)"

section \<open>Requests\<close>

definition extractAppID :: "string \<Rightarrow> string" where
  "extractAppID path =
     (let parts = split_on sep (TrimPrefix path ''/v1/apps/'') in
      if hd parts \<noteq> [] then hd parts else [])"

definition isMutating :: "string \<Rightarrow> bool" where
  "isMutating m \<longleftrightarrow> m = ''POST'' \<or> m = ''DELETE'' \<or> m = ''PUT'' \<or> m = ''PATCH''"

definition actionFromRequest :: "string \<Rightarrow> string \<Rightarrow> string" where
  "actionFromRequest m path =
     (if m = ''POST'' \<and> path = ''/v1/apps'' then ''spawn''
      else if m = ''DELETE'' \<and> HasPrefix path ''/v1/apps/'' then ''stop''
      else if HasSuffix path ''/deploy'' then ''deploy''
      else if HasSuffix path ''/restart'' then ''restart''
      else if HasSuffix path ''/reset'' then ''reset''
      else if m = ''POST'' \<and> HasPrefix path ''/v1/volumes'' then ''volume_register''
      else if m = ''DELETE'' \<and> HasPrefix path ''/v1/volumes/'' then ''volume_delete''
      else m @ '' '' @ path)"

definition hashToken :: "(string \<Rightarrow> string) \<Rightarrow> string \<Rightarrow> string" where
  "hashToken sha token = (if token = [] then ''none'' else ''sha256:'' @ take 8 (sha token))"


section \<open>The chain of lines\<close>

text \<open>The tip of the chain after the given lines, without the line numbers; \<open>None\<close> when it breaks.\<close>

fun chain_tip :: "(string \<Rightarrow> string) \<Rightarrow> (string \<Rightarrow> AuditEntry option) \<Rightarrow> string \<Rightarrow> string list \<Rightarrow> string option" where
  "chain_tip sha dec prev [] = Some prev"
| "chain_tip sha dec prev (raw # ls) =
     (if raw = [] then chain_tip sha dec prev ls
      else case dec raw of
        None \<Rightarrow> None
      | Some rec \<Rightarrow> if ae_PrevSHA256 rec \<noteq> prev then None else chain_tip sha dec (sha raw) ls)"

lemma chain_tip_append:
  "chain_tip sha dec prev (xs @ ys) = (case chain_tip sha dec prev xs of None \<Rightarrow> None | Some t \<Rightarrow> chain_tip sha dec t ys)"
  by (induction xs arbitrary: prev) (auto split: option.splits)

lemma verify_lines_iff: "verify_lines sha dec n prev ls = Inr t \<longleftrightarrow> chain_tip sha dec prev ls = Some t"
  by (induction ls arbitrary: n prev) (auto split: option.splits)

text \<open>The tokens a scan of the file returns, and whether it ends without an error.\<close>

definition file_lines :: "log_file option \<Rightarrow> string list" where
  "file_lines f = (case f of None \<Rightarrow> [] | Some f \<Rightarrow> fst (scan_file f))"

definition scans :: "log_file option \<Rightarrow> bool" where
  "scans f \<longleftrightarrow> (case f of None \<Rightarrow> True | Some f \<Rightarrow> snd (scan_file f))"

lemma empty_lines [simp]: "file_lines None = []" "file_lines (Some empty_file) = []" "scans None" "scans (Some empty_file)"
  by (simp_all add: file_lines_def scans_def empty_file_def scan_file_def)

lemma scan_lines_append:
  "snd (scan_lines xs) \<Longrightarrow>
   scan_lines (xs @ ys) = (fst (scan_lines xs) @ fst (scan_lines ys), snd (scan_lines ys))"
  by (induction xs) (auto simp: split_beta Let_def split: if_splits)

lemma verifyChainInFile_iff:
  "verifyChainInFile sha dec f prev = Inr t \<longleftrightarrow> scans f \<and> chain_tip sha dec prev (file_lines f) = Some t"
proof (cases f)
  case (Some g)
  then show ?thesis
    using verify_lines_iff [of sha dec 0 prev "fst (scan_file g)" t]
    by (auto simp: verifyChainInFile_def file_lines_def scans_def split_beta split: sum.split)
qed (simp add: verifyChainInFile_def)

lemma verify_files_iff:
  "verify_files sha dec prev fs = Inr t \<longleftrightarrow>
     list_all scans fs \<and> chain_tip sha dec prev (concat (map file_lines fs)) = Some t"
proof (induction fs arbitrary: prev)
  case Nil
  show ?case by auto
next
  case (Cons f fs)
  show ?case
  proof (cases "verifyChainInFile sha dec f prev")
    case (Inl e)
    then have "\<not> scans f \<or> chain_tip sha dec prev (file_lines f) = None"
      using verifyChainInFile_iff [of sha dec f prev] by (metis Inl_Inr_False not_Some_eq)
    with Inl show ?thesis by (auto simp: chain_tip_append)
  next
    case (Inr tip)
    then have "scans f" "chain_tip sha dec prev (file_lines f) = Some tip" by (simp_all add: verifyChainInFile_iff)
    with Inr Cons show ?thesis by (simp add: chain_tip_append)
  qed
qed

definition all_files :: "audit_fs \<Rightarrow> log_file option list" where
  "all_files fs = rev (fs_rot fs) @ [fs_cur fs]"

definition all_lines :: "audit_fs \<Rightarrow> string list" where
  "all_lines fs = concat (map file_lines (rev (fs_rot fs) @ [fs_cur fs]))"

lemma VerifyAuditChain_iff:
  "VerifyAuditChain sha dec fs = None \<longleftrightarrow>
     list_all scans (all_files fs) \<and> (\<exists>t. chain_tip sha dec auditGenesisHash (all_lines fs) = Some t)"
proof (cases "verify_files sha dec auditGenesisHash (rev (fs_rot fs) @ [fs_cur fs])")
  case (Inl e)
  then have "\<not> (list_all scans (all_files fs) \<and> chain_tip sha dec auditGenesisHash (all_lines fs) = Some t)" for t
    using verify_files_iff [of sha dec auditGenesisHash "rev (fs_rot fs) @ [fs_cur fs]" t]
    by (auto simp: all_lines_def all_files_def)
  with Inl show ?thesis by (cases "chain_tip sha dec auditGenesisHash (all_lines fs)") (auto simp: VerifyAuditChain_def)
next
  case (Inr t)
  then have "list_all scans (all_files fs) \<and> chain_tip sha dec auditGenesisHash (all_lines fs) = Some t"
    unfolding all_lines_def all_files_def verify_files_iff .
  with Inr show ?thesis by (simp add: VerifyAuditChain_def)
qed

section \<open>Rotation keeps the lines in order\<close>

lemma two_positions:
  assumes "Suc j < length xs"
  shows "xs = take j xs @ xs ! j # xs ! Suc j # drop (Suc (Suc j)) xs"
  using assms by (metis Cons_nth_drop_Suc Suc_lessD append_take_drop_id)

lemma shift_step_lines:
  assumes "Suc j < length rot" and "rot ! Suc j = None"
  shows "concat (map file_lines (rev (rot[Suc j := rot ! j, j := None]))) = concat (map file_lines (rev rot))"
proof -
  define A B where "A = take j rot" and "B = drop (Suc (Suc j)) rot"
  have rot: "rot = A @ rot ! j # None # B" and len: "length A = j"
    using two_positions [OF assms(1)] assms by (simp_all add: A_def B_def)
  obtain x where x: "x = rot ! j" by simp
  have "(A @ x # None # B)[Suc j := x, j := None] = A @ None # x # B"
    using len by (simp add: list_update_append)
  with rot x have upd: "rot[Suc j := rot ! j, j := None] = A @ None # x # B" by metis
  have old: "rev rot = rev B @ [None, x] @ rev A" by (subst rot) (simp add: x)
  show ?thesis unfolding upd old by (simp add: file_lines_def)
qed

lemma rot_shift_lines:
  assumes "i < length rot" and "rot ! i = None" and "rot_shift ok i rot = (b, rot')"
  shows "concat (map file_lines (rev rot')) = concat (map file_lines (rev rot)) \<and>
    length rot' = length rot \<and> (b \<longrightarrow> rot' ! 0 = None)"
  using assms
proof (induction ok i rot rule: rot_shift.induct)
  case (1 ok rot)
  then show ?case by auto
next
  case (2 ok i rot)
  show ?case
  proof (cases "rot ! i = None \<or> \<not> ok (Suc i)")
    case True
    then show ?thesis using 2 by (cases "rot ! i = None") auto
  next
    case False
    let ?r = "rot[Suc i := rot ! i, i := None]"
    have "concat (map file_lines (rev rot')) = concat (map file_lines (rev ?r)) \<and>
        length rot' = length ?r \<and> (b \<longrightarrow> rot' ! 0 = None)"
      by (rule 2(2)) (use False 2(3-5) in auto)
    with shift_step_lines [OF 2(3,4)] show ?thesis by simp
  qed
qed

text \<open>What a rotation drops: the oldest file.\<close>

lemma drop_oldest:
  assumes "length rot = 5"
  shows "concat (map file_lines (rev rot)) = file_lines (rot ! 4) @ concat (map file_lines (rev (rot[4 := None])))"
proof -
  from assms obtain a b c d e where "rot = [a, b, c, d, e]" by (auto simp: length_Suc_conv eval_nat_numeral)
  then show ?thesis by (simp add: file_lines_def)
qed

lemma promote_lines:
  assumes "rot ! 0 = None" and "rot \<noteq> []"
  shows "concat (map file_lines (rev (rot[0 := f]) @ [None])) = concat (map file_lines (rev rot @ [f]))"
  using assms by (cases rot) (simp_all add: file_lines_def)

text \<open>A rotation only moves files.\<close>

lemma rot_shift_files: "rot_shift ok i rot = (b, rot') \<Longrightarrow> i < length rot \<Longrightarrow> set rot' \<subseteq> insert None (set rot)"
proof (induction ok i rot rule: rot_shift.induct)
  case (2 ok i rot)
  show ?case
  proof (cases "rot ! i = None \<or> \<not> ok (Suc i)")
    case True
    then show ?thesis using 2 by (cases "rot ! i = None") auto
  next
    case False
    let ?r = "rot[Suc i := rot ! i, i := None]"
    have "set rot' \<subseteq> insert None (set ?r)" by (rule 2(2)) (use False 2(3,4) in auto)
    also have "set ?r \<subseteq> insert None (insert (rot ! i) (set rot))"
      using set_update_subset_insert [of "rot[Suc i := rot ! i]" i None] set_update_subset_insert [of rot "Suc i" "rot ! i"]
      by blast
    finally have "set rot' \<subseteq> insert None (insert (rot ! i) (set rot))" by (simp add: subset_insertI2)
    moreover have "rot ! i \<in> set rot" using 2(4) by simp
    ultimately show ?thesis by (simp add: insert_absorb)
  qed
qed auto

lemma rotate_log_files:
  assumes "length (fs_rot (al_fs a)) = 5"
  shows "set (all_files (al_fs (rotate_log io a))) \<subseteq> {None, Some empty_file} \<union> set (all_files (al_fs a))"
proof -
  obtain ok rot1 where sh: "rot_shift (rt_shift io) 4 ((fs_rot (al_fs a))[4 := None]) = (ok, rot1)" by (metis surj_pair)
  have s: "set rot1 \<subseteq> insert None (set (fs_rot (al_fs a)))"
    using rot_shift_files [OF sh] assms set_update_subset_insert [of "fs_rot (al_fs a)" 4 None] by auto
  moreover have "set (rot1[0 := fs_cur (al_fs a)]) \<subseteq> insert (fs_cur (al_fs a)) (set rot1)"
    by (rule set_update_subset_insert)
  ultimately show ?thesis by (auto simp: rotate_log_def sh all_files_def Let_def)
qed

lemma rotate_log_lines:
  assumes "length (fs_rot (al_fs a)) = 5" and "rt_close io"
  shows "all_lines (al_fs a) = file_lines (fs_rot (al_fs a) ! 4) @ all_lines (al_fs (rotate_log io a)) \<and>
    length (fs_rot (al_fs (rotate_log io a))) = 5 \<and> al_lastHash (rotate_log io a) = al_lastHash a"
proof -
  let ?rot0 = "(fs_rot (al_fs a))[4 := None]"
  obtain ok rot1 where sh: "rot_shift (rt_shift io) 4 ?rot0 = (ok, rot1)" by (metis surj_pair)
  have s: "concat (map file_lines (rev rot1)) = concat (map file_lines (rev ?rot0))" "length rot1 = 5"
    "ok \<Longrightarrow> rot1 ! 0 = None"
    using rot_shift_lines [OF _ _ sh] assms(1) by auto
  note d = drop_oldest [OF assms(1)]
  have ne: "rot1 \<noteq> []" using s(2) by auto
  have pr: "ok \<Longrightarrow> concat (map file_lines (rev (rot1[0 := f]))) = concat (map file_lines (rev rot1)) @ file_lines f" for f
    using promote_lines [OF s(3) ne, of f] by (simp add: file_lines_def)
  show ?thesis
    using assms(2) s d pr by (auto simp: rotate_log_def sh all_lines_def Let_def)
qed


section \<open>Runs\<close>

text \<open>
  A run of the daemon: a fresh log, entries (whose write lands whole or not at all), closes and process
  restarts onto an \<open>audit.log\<close> with at least one record. The second component collects the lines that
  rotation has dropped. \<open>codec_ok\<close> is what \<open>encoding/json\<close> documents: the encoding of a struct is not empty,
  ends in a brace (so in no carriage return), and decoding gives the field back. \<open>fits\<close> says that the
  encoded entry is shorter than the scanner's buffer; \<open>main.go\<close> bounds the request line and headers, from
  which the entry's strings come, by 16 KiB.
\<close>

definition codec_ok :: "(AuditEntry \<Rightarrow> string option) \<Rightarrow> (string \<Rightarrow> AuditEntry option) \<Rightarrow> bool" where
  "codec_ok enc dec \<longleftrightarrow> (\<forall>e l. enc e = Some l \<longrightarrow> l \<noteq> [] \<and> \<not> HasSuffix l CR \<and>
     (\<exists>r. dec l = Some r \<and> ae_PrevSHA256 r = ae_PrevSHA256 e))"

definition fits :: "(AuditEntry \<Rightarrow> string option) \<Rightarrow> AuditEntry \<Rightarrow> AuditLogger \<Rightarrow> bool" where
  "fits enc e a \<longleftrightarrow>
     (case enc (e\<lparr>ae_PrevSHA256 := al_lastHash a\<rparr>) of None \<Rightarrow> True | Some line \<Rightarrow> int (length line) < auditMaxLine)"

definition fresh_fs :: audit_fs where
  "fresh_fs = \<lparr>fs_cur = None, fs_rot = replicate auditKeepRotated None, fs_cursor = None\<rparr>"

definition log_drops :: "(string \<Rightarrow> string) \<Rightarrow> (AuditEntry \<Rightarrow> string option) \<Rightarrow> log_io \<Rightarrow> AuditEntry \<Rightarrow> AuditLogger \<Rightarrow> string list" where
  "log_drops sha enc io e a =
     (case enc (e\<lparr>ae_PrevSHA256 := al_lastHash a\<rparr>) of
        None \<Rightarrow> []
      | Some line \<Rightarrow>
          if al_open a \<and> lio_fail io = None \<and> wrap64 (al_bytes a + int (length line + 1)) \<ge> auditMaxFileBytes \<and>
             rt_close (lio_rotate io)
          then file_lines (fs_rot (al_fs a) ! 4) else [])"

definition resumable :: "audit_fs \<Rightarrow> bool" where
  "resumable fs \<longleftrightarrow> list_ex (\<lambda>l. l \<noteq> []) (file_lines (fs_cur fs))"

inductive audit_run ::
  "(string \<Rightarrow> string) \<Rightarrow> (AuditEntry \<Rightarrow> string option) \<Rightarrow> AuditLogger \<Rightarrow> string list \<Rightarrow> bool"
  for sha enc
where
  boot: "NewAuditLogger sha True fresh_fs = Some a \<Longrightarrow> audit_run sha enc a []"
| entry: "audit_run sha enc a lost \<Longrightarrow> lio_fail io \<in> {None, Some 0} \<Longrightarrow> fits enc e a \<Longrightarrow>
    audit_run sha enc (Log sha enc io e a) (lost @ log_drops sha enc io e a)"
| close: "audit_run sha enc a lost \<Longrightarrow> audit_run sha enc (audit_Close a) lost"
| restart: "audit_run sha enc a lost \<Longrightarrow> resumable (al_fs a) \<Longrightarrow> NewAuditLogger sha True (al_fs a) = Some a' \<Longrightarrow>
    audit_run sha enc a' lost"

definition no_tails :: "audit_fs \<Rightarrow> bool" where
  "no_tails fs \<longleftrightarrow> (case fs_cur fs of None \<Rightarrow> True | Some f \<Rightarrow> lf_tail f = [])"

definition audit_inv :: "(string \<Rightarrow> string) \<Rightarrow> (string \<Rightarrow> AuditEntry option) \<Rightarrow> AuditLogger \<Rightarrow> string list \<Rightarrow> bool" where
  "audit_inv sha dec a lost \<longleftrightarrow> length (fs_rot (al_fs a)) = 5 \<and> no_tails (al_fs a) \<and> (al_open a \<longrightarrow> fs_cur (al_fs a) \<noteq> None) \<and>
     list_all scans (all_files (al_fs a)) \<and>
     chain_tip sha dec auditGenesisHash (lost @ all_lines (al_fs a)) = Some (al_lastHash a)"

lemma chain_last:
  assumes "chain_tip sha dec prev ls = Some t" and "filter (\<lambda>l. l \<noteq> []) ls \<noteq> []"
  shows "t = sha (last (filter (\<lambda>l. l \<noteq> []) ls))"
  using assms
proof (induction ls arbitrary: prev)
  case (Cons raw ls)
  show ?case
  proof (cases "filter (\<lambda>l. l \<noteq> []) ls = []")
    case True
    then have "chain_tip sha dec q ls = Some q" for q by (induction ls) (auto split: if_splits)
    with Cons.prems True show ?thesis by (auto split: option.splits if_splits)
  next
    case False
    with Cons show ?thesis by (auto split: option.splits if_splits)
  qed
qed simp

lemma rotate_log_shape:
  assumes "no_tails (al_fs a)"
  shows "no_tails (al_fs (rotate_log io a)) \<and> (al_open (rotate_log io a) \<longrightarrow> fs_cur (al_fs (rotate_log io a)) \<noteq> None)"
  using assms by (auto simp: rotate_log_def no_tails_def empty_file_def Let_def split: prod.split)

lemma inv_rotate:
  assumes "audit_inv sha dec a lost" and "rt_close io"
  shows "audit_inv sha dec (rotate_log io a) (lost @ file_lines (fs_rot (al_fs a) ! 4))"
proof -
  from assms(1) have "length (fs_rot (al_fs a)) = 5" "list_all scans (all_files (al_fs a))"
    by (simp_all add: audit_inv_def)
  with rotate_log_files [of a io] have "list_all scans (all_files (al_fs (rotate_log io a)))"
    by (fastforce simp: list_all_iff)
  then show ?thesis
    using assms rotate_log_lines [of a io] rotate_log_shape [of a io] by (simp add: audit_inv_def)
qed

lemma inv_write:
  assumes "audit_inv sha dec a lost" and "al_open a" and "codec_ok enc dec" and "fits enc e a"
    and "enc (e\<lparr>ae_PrevSHA256 := al_lastHash a\<rparr>) = Some line"
  shows "audit_inv sha dec ((write_cur line True a)\<lparr>al_bytes := n, al_lastHash := sha line\<rparr>) lost \<and>
    fs_rot (al_fs (write_cur line True a)) = fs_rot (al_fs a)"
proof -
  from assms(1,2) obtain f where f: "fs_cur (al_fs a) = Some f" "lf_tail f = []" and sc: "snd (scan_lines (lf_lines f))"
    by (auto simp: audit_inv_def no_tails_def all_files_def scans_def scan_file_def)
  from assms(3,5) obtain r where r: "line \<noteq> []" "dec line = Some r" "ae_PrevSHA256 r = al_lastHash a"
    and cr: "\<not> HasSuffix line CR" by (fastforce simp: codec_ok_def)
  have "\<not> auditMaxLine \<le> int (length line)" using assms(4,5) by (simp add: fits_def)
  note one = this TrimSuffix_id [OF cr]
  have al: "all_lines (al_fs (write_cur line True a)) = all_lines (al_fs a) @ [line]"
    using f by (simp add: all_lines_def write_cur_def append_bytes_def file_lines_def scan_file_def scan_lines_append [OF sc] one)
  have "scans (Some (append_bytes line True f))"
    using f by (simp add: scans_def append_bytes_def scan_file_def scan_lines_append [OF sc] one)
  then have sc': "list_all scans (all_files (al_fs (write_cur line True a)))"
    using assms(1) f by (simp add: audit_inv_def all_files_def write_cur_def)
  have "chain_tip sha dec auditGenesisHash ((lost @ all_lines (al_fs a)) @ [line]) = Some (sha line)"
    using assms(1) r by (subst chain_tip_append) (simp add: audit_inv_def)
  with al sc' assms(1) f show ?thesis by (simp add: audit_inv_def no_tails_def write_cur_def append_bytes_def)
qed

lemma inv_Log:
  assumes inv: "audit_inv sha dec a lost" and codec: "codec_ok enc dec" and fail: "lio_fail io \<in> {None, Some 0}"
    and fit: "fits enc e a"
  shows "audit_inv sha dec (Log sha enc io e a) (lost @ log_drops sha enc io e a)"
proof (cases "enc (e\<lparr>ae_PrevSHA256 := al_lastHash a\<rparr>)")
  case None
  then show ?thesis using inv by (simp add: Log_def log_drops_def)
next
  case (Some line)
  show ?thesis
  proof (cases "al_open a \<and> lio_fail io = None")
    case False
    have "write_cur [] False a = a"
      by (cases "fs_cur (al_fs a)") (simp_all add: write_cur_def append_bytes_def)
    then show ?thesis using inv fail Some False by (auto simp: Log_def log_drops_def)
  next
    case True
    define a1 where "a1 = (write_cur line True a)\<lparr>al_bytes := wrap64 (al_bytes a + int (length line + 1)), al_lastHash := sha line\<rparr>"
    have i1: "audit_inv sha dec a1 lost" and rot: "fs_rot (al_fs a1) = fs_rot (al_fs a)"
      using inv_write [OF inv _ codec fit Some] True by (simp_all add: a1_def)
    have Log: "Log sha enc io e a = (if al_bytes a1 \<ge> auditMaxFileBytes then rotate_log (lio_rotate io) a1 else a1)"
      using True Some by (simp add: Log_def a1_def)
    have "audit_inv sha dec (rotate_log (lio_rotate io) a1) lost" if "\<not> rt_close (lio_rotate io)"
      using i1 that by (simp add: rotate_log_def audit_inv_def)
    then show ?thesis
      unfolding Log using i1 inv_rotate [OF i1, of "lio_rotate io"] rot True Some
      by (auto simp: log_drops_def a1_def)
  qed
qed

lemma inv_restart:
  assumes "audit_inv sha dec a lost" and "resumable (al_fs a)" and "NewAuditLogger sha True (al_fs a) = Some a'"
  shows "audit_inv sha dec a' lost"
proof -
  from assms(2) obtain f where f: "fs_cur (al_fs a) = Some f" and ne: "filter (\<lambda>l. l \<noteq> []) (fst (scan_file f)) \<noteq> []"
    by (cases "fs_cur (al_fs a)") (auto simp: resumable_def file_lines_def list_ex_iff filter_empty_conv)
  have a': "al_fs a' = al_fs a" "al_open a'" "resumeChain sha (al_fs a) = Some (al_lastHash a')"
    using assms(3) f by (auto simp: NewAuditLogger_def split: option.splits)
  let ?F = "\<lambda>ls. filter (\<lambda>l. l \<noteq> []) ls"
  have ok: "snd (scan_file f)" using assms(1) f by (simp add: audit_inv_def all_files_def scans_def)
  have "al_lastHash a = sha (last (?F (lost @ all_lines (al_fs a))))"
    by (rule chain_last) (use assms(1) f ne in \<open>auto simp: audit_inv_def all_lines_def file_lines_def\<close>)
  also have "?F (lost @ all_lines (al_fs a)) = ?F (lost @ concat (map file_lines (rev (fs_rot (al_fs a))))) @ ?F (fst (scan_file f))"
    using f by (simp add: all_lines_def file_lines_def)
  also have "last \<dots> = last (?F (fst (scan_file f)))" using ne by simp
  finally have "resumeChain sha (al_fs a) = Some (al_lastHash a)"
    using f ne ok by (cases "scan_file f") (auto simp: resumeChain_def split: list.split)
  then show ?thesis using assms(1) a' f by (simp add: audit_inv_def no_tails_def)
qed

lemma inv_boot: "NewAuditLogger sha True fresh_fs = Some a \<Longrightarrow> audit_inv sha dec a []"
  by (auto simp: NewAuditLogger_def fresh_fs_def audit_inv_def no_tails_def empty_file_def all_lines_def file_lines_def
      scan_file_def scans_def all_files_def resumeChain_def eval_nat_numeral Let_def)

lemma run_inv: "audit_run sha enc a lost \<Longrightarrow> codec_ok enc dec \<Longrightarrow> audit_inv sha dec a lost"
proof (induction rule: audit_run.induct)
  case (boot a)
  then show ?case by (simp add: inv_boot)
next
  case (entry a lost io e)
  then show ?case by (simp add: inv_Log)
next
  case (close a lost)
  then show ?case by (simp add: audit_inv_def audit_Close_def)
next
  case (restart a lost a')
  then show ?case using inv_restart by blast
qed


section \<open>Properties\<close>

text \<open>
  C30: The audit chain is unbroken. After any run from a fresh directory of entries shorter than 1 MiB (whose
  write succeeds, or fails with no byte written), rotations (successful or failing at any step), closes,
  and restarts that find at least one record in \<open>audit.log\<close>, all lines ever written, the dropped ones
  first, form one hash chain from the genesis value whose tip is the hash the next entry will carry;
  as long as no rotation has dropped a line, \<open>VerifyAuditChain\<close> accepts the files. Without the condition
  on restarts, or once history was dropped, verification fails; the theorems at the end of this theory
  show both.
\<close>

theorem audit_chain_unbroken:
  assumes "codec_ok enc dec" and "audit_run sha enc a lost"
  shows "chain_tip sha dec auditGenesisHash (lost @ all_lines (al_fs a)) = Some (al_lastHash a) \<and>
    (lost = [] \<longrightarrow> VerifyAuditChain sha dec (al_fs a) = None)"
proof -
  have "audit_inv sha dec a lost" by (rule run_inv [OF assms(2,1)])
  then show ?thesis by (auto simp: audit_inv_def VerifyAuditChain_iff)
qed

text \<open>A small codec that satisfies the assumptions: an entry is its link, after a letter.\<close>

definition demo_entry :: AuditEntry where
  "demo_entry = \<lparr>ae_PrevSHA256 = [], ae_Timestamp = [], ae_Method = ''POST'', ae_Path = ''/v1/apps'', ae_AppID = [],
     ae_Action = ''spawn'', ae_Actor = ''none'', ae_StatusCode = 201, ae_DurationMS = 3, ae_SourceIP = []\<rparr>"

definition demo_enc :: "AuditEntry \<Rightarrow> string option" where
  "demo_enc e = Some (''p'' @ ae_PrevSHA256 e @ ''}'')"

definition demo_dec :: "string \<Rightarrow> AuditEntry option" where
  "demo_dec s = (case s of [] \<Rightarrow> None | _ # link \<Rightarrow> Some (demo_entry\<lparr>ae_PrevSHA256 := butlast link\<rparr>))"

definition demo_sha :: "string \<Rightarrow> string" where
  "demo_sha s = CHR ''h'' # s"

definition ok_rotate :: rotate_io where
  "ok_rotate = \<lparr>rt_close = True, rt_shift = (\<lambda>_. True), rt_promote = True, rt_cursor = True, rt_open = True\<rparr>"

definition demo_logger :: AuditLogger where
  "demo_logger = \<lparr>al_fs = fresh_fs\<lparr>fs_cur := Some empty_file\<rparr>, al_open = True, al_bytes = 0, al_lastHash = auditGenesisHash\<rparr>"

lemma demo_codec: "codec_ok demo_enc demo_dec"
  by (auto simp: codec_ok_def demo_enc_def demo_dec_def HasSuffix_iff)

lemma demo_start: "NewAuditLogger demo_sha True fresh_fs = Some demo_logger"
  by (simp add: NewAuditLogger_def demo_logger_def fresh_fs_def empty_file_def file_size_def resumeChain_def)

theorem audit_chain_unbroken_witness:
  "VerifyAuditChain demo_sha demo_dec (al_fs (Log demo_sha demo_enc \<lparr>lio_fail = None, lio_rotate = ok_rotate\<rparr> demo_entry demo_logger)) = None"
proof -
  let ?io = "\<lparr>lio_fail = None, lio_rotate = ok_rotate\<rparr>"
  have "audit_run demo_sha demo_enc (Log demo_sha demo_enc ?io demo_entry demo_logger)
      ([] @ log_drops demo_sha demo_enc ?io demo_entry demo_logger)"
    by (rule audit_run.entry [OF audit_run.boot [OF demo_start]])
      (simp_all add: fits_def demo_enc_def demo_logger_def auditGenesisHash_def auditMaxLine_def)
  moreover have "log_drops demo_sha demo_enc ?io demo_entry demo_logger = []"
    by (simp add: log_drops_def demo_enc_def demo_logger_def fresh_fs_def file_lines_def eval_nat_numeral)
  ultimately show ?thesis using audit_chain_unbroken [OF demo_codec] by auto
qed

text \<open>The records of a log: its lines as the scanner returns them, without the empty ones.\<close>

definition records :: "audit_fs \<Rightarrow> string list" where
  "records fs = filter (\<lambda>l. l \<noteq> []) (all_lines fs)"

lemma chain_tip_records: "chain_tip sha dec prev (filter (\<lambda>l. l \<noteq> []) ls) = chain_tip sha dec prev ls"
  by (induction ls arbitrary: prev) (auto split: option.splits)

lemma chain_link:
  assumes "chain_tip sha dec g (xs @ [z]) = Some t" and "z \<noteq> []"
  obtains r where "dec z = Some r" and "chain_tip sha dec g xs = Some (ae_PrevSHA256 r)"
  using assms by (auto simp: chain_tip_append split: option.splits if_splits)

lemma chain_tip_snoc: "chain_tip sha dec g (xs @ [u]) = Some t \<Longrightarrow> u \<noteq> [] \<Longrightarrow> t = sha u"
  by (auto simp: chain_tip_append split: option.splits if_splits)

text \<open>Two chains from the same start that end in the same record are the same, or two of their records
  collide, or a record hashes to the start value.\<close>

lemma chains_agree:
  assumes "chain_tip sha dec g (xs @ [z]) = Some t" and "chain_tip sha dec g (ys @ [z]) = Some t'"
    and "[] \<notin> set (z # xs @ ys)" and "xs \<noteq> ys"
  shows "(\<exists>u\<in>set xs. \<exists>w\<in>set ys. u \<noteq> w \<and> sha u = sha w) \<or> (\<exists>u\<in>set xs \<union> set ys. sha u = g)"
  using assms
proof (induction xs arbitrary: ys z t t' rule: rev_induct)
  case Nil
  from Nil(4) obtain ys' w where w: "ys = ys' @ [w]" by (metis rev_exhaust)
  from chain_link [OF Nil(1)] Nil(3) obtain r where r: "dec z = Some r" "g = ae_PrevSHA256 r" by auto
  from chain_link [OF Nil(2)] Nil(3) r have tip: "chain_tip sha dec g ys = Some g" by auto
  have "g = sha w" by (rule chain_tip_snoc [OF tip [unfolded w]]) (use Nil(3) in \<open>auto simp: w\<close>)
  then show ?case by (simp add: w)
next
  case (snoc u xs)
  note ne = snoc(4,5)
  from chain_link [OF snoc(2)] snoc(4)
  obtain r where r: "dec z = Some r" and u: "chain_tip sha dec g (xs @ [u]) = Some (ae_PrevSHA256 r)" by auto
  from chain_link [OF snoc(3)] snoc(4) r have tip: "chain_tip sha dec g ys = Some (ae_PrevSHA256 r)" by auto
  have su: "ae_PrevSHA256 r = sha u" by (rule chain_tip_snoc [OF u]) (use snoc(4) in auto)
  show ?case
  proof (cases ys rule: rev_exhaust)
    case Nil
    then show ?thesis using tip su by simp
  next
    case (snoc ys' w)
    have sw: "ae_PrevSHA256 r = sha w"
      by (rule chain_tip_snoc [OF tip [unfolded snoc]]) (use ne(1) snoc in auto)
    show ?thesis
    proof (cases "u = w")
      case True
      have "(\<exists>u\<in>set xs. \<exists>w\<in>set ys'. u \<noteq> w \<and> sha u = sha w) \<or> (\<exists>u\<in>set xs \<union> set ys'. sha u = g)"
        by (rule snoc.IH [OF u tip [unfolded snoc True [symmetric]]]) (use ne snoc True in auto)
      then show ?thesis by (auto simp: snoc)
    next
      case False
      then show ?thesis using su sw by (auto simp: snoc)
    qed
  qed
qed

text \<open>
  C31: Tampering before the last record is detected, up to SHA-256. Take a log that verifies and any files
  whose last record is the same but whose records (lines as the scanner returns them) differ in any way:
  one changed, removed, inserted, or the order swapped. If these verify too, then a record of the one
  and a different record of the other have the same hash, or some record hashes to the 64 zeros of the
  genesis value.
\<close>

theorem audit_tamper_detected:
  assumes "VerifyAuditChain sha dec fs = None" and "VerifyAuditChain sha dec fs' = None"
    and "records fs \<noteq> []" and "records fs' \<noteq> []" and "last (records fs) = last (records fs')"
    and "records fs \<noteq> records fs'"
  shows "(\<exists>x x'. x \<in> set (records fs) \<and> x' \<in> set (records fs') \<and> x \<noteq> x' \<and> sha x = sha x') \<or>
    (\<exists>x. x \<in> set (records fs) \<union> set (records fs') \<and> sha x = auditGenesisHash)"
proof -
  have tip: "\<exists>t. chain_tip sha dec auditGenesisHash (records f) = Some t" if "VerifyAuditChain sha dec f = None" for f
    using that by (simp add: records_def chain_tip_records VerifyAuditChain_iff)
  obtain xs z where x: "records fs = xs @ [z]" using assms(3) by (metis rev_exhaust)
  obtain ys z' where y: "records fs' = ys @ [z']" using assms(4) by (metis rev_exhaust)
  have z: "z' = z" and ne: "xs \<noteq> ys" using assms(5,6) x y by auto
  have "[] \<notin> set (records fs)" "[] \<notin> set (records fs')" by (simp_all add: records_def)
  then have nil: "[] \<notin> set (z # xs @ ys)" by (auto simp: x y)
  obtain t t' where "chain_tip sha dec auditGenesisHash (xs @ [z]) = Some t"
    "chain_tip sha dec auditGenesisHash (ys @ [z]) = Some t'"
    using tip [OF assms(1)] tip [OF assms(2)] by (auto simp: x y z)
  from chains_agree [OF this nil ne] show ?thesis
  proof
    assume "\<exists>u\<in>set xs. \<exists>w\<in>set ys. u \<noteq> w \<and> sha u = sha w"
    then obtain u w where "u \<in> set xs" "w \<in> set ys" "u \<noteq> w" "sha u = sha w" by blast
    then show ?thesis by (intro disjI1 exI [of _ u] exI [of _ w]) (simp add: x y)
  next
    assume "\<exists>u\<in>set xs \<union> set ys. sha u = auditGenesisHash"
    then show ?thesis by (auto simp: x y)
  qed
qed

definition demo_files :: "string \<Rightarrow> audit_fs" where
  "demo_files l = fresh_fs\<lparr>fs_cur := Some \<lparr>lf_lines = [l @ auditGenesisHash @ ''}'',
     ''p'' @ demo_sha (''p'' @ auditGenesisHash @ ''}'') @ ''}''], lf_tail = []\<rparr>\<rparr>"

lemma demo_scan:
  assumes "HasSuffix l ''}''" and "int (length l) < auditMaxLine"
  shows "scan_lines (l # ls) = (l # fst (scan_lines ls), snd (scan_lines ls))"
proof -
  have "\<not> HasSuffix l CR" using assms(1) by (auto simp: HasSuffix_iff)
  then show ?thesis using assms(2) by (simp add: TrimSuffix_id split_beta)
qed

lemma demo_records:
  assumes "length l = 1"
  shows "all_lines (demo_files l) = [l @ auditGenesisHash @ ''}'', ''p'' @ demo_sha (''p'' @ auditGenesisHash @ ''}'') @ ''}''] \<and>
    list_all scans (all_files (demo_files l))"
proof -
  have "scan_lines [l @ auditGenesisHash @ ''}'', ''p'' @ demo_sha (''p'' @ auditGenesisHash @ ''}'') @ ''}''] =
      ([l @ auditGenesisHash @ ''}'', ''p'' @ demo_sha (''p'' @ auditGenesisHash @ ''}'') @ ''}''], True)"
    using assms by (subst demo_scan, simp add: HasSuffix_iff, simp add: auditGenesisHash_def auditMaxLine_def,
        subst demo_scan, auto simp: HasSuffix_iff demo_sha_def auditGenesisHash_def auditMaxLine_def)
  then show ?thesis
    by (simp add: demo_files_def all_lines_def all_files_def scans_def fresh_fs_def file_lines_def scan_file_def eval_nat_numeral)
qed

theorem audit_tamper_detected_witness:
  "VerifyAuditChain demo_sha demo_dec (demo_files ''p'') = None \<and> VerifyAuditChain demo_sha demo_dec (demo_files ''q'') \<noteq> None"
proof -
  let ?y = "''p'' @ demo_sha (''p'' @ auditGenesisHash @ ''}'') @ ''}''"
  have rec: "records (demo_files l) = [l @ auditGenesisHash @ ''}'', ?y]" if "length l = 1" for l
    using demo_records [OF that] by (simp add: records_def)
  have ok: "VerifyAuditChain demo_sha demo_dec (demo_files ''p'') = None"
    using demo_records [of "''p''"] by (simp add: VerifyAuditChain_iff demo_dec_def butlast_append)
  have inj: "demo_sha x = demo_sha y \<longleftrightarrow> x = y" "demo_sha x \<noteq> auditGenesisHash" for x y
    by (simp_all add: demo_sha_def auditGenesisHash_def eval_nat_numeral)
  have "VerifyAuditChain demo_sha demo_dec (demo_files ''q'') \<noteq> None"
    using audit_tamper_detected [OF ok, of "demo_files ''q''"] by (auto simp: rec inj)
  with ok show ?thesis by simp
qed

text \<open>What the scanner drops is not protected: a carriage return added at the end of a record is invisible to
  verification.\<close>

lemma added_CR_undetected:
  assumes "fs_cur fs = Some \<lparr>lf_lines = xs @ l # ys, lf_tail = t\<rparr>" and "\<not> HasSuffix l CR"
    and "int (length l) + 1 < auditMaxLine"
  shows "VerifyAuditChain sha dec (fs\<lparr>fs_cur := Some \<lparr>lf_lines = xs @ (l @ CR) # ys, lf_tail = t\<rparr>\<rparr>) =
    VerifyAuditChain sha dec fs"
proof -
  have "scan_lines (zs @ (l @ CR) # ws) = scan_lines (zs @ l # ws)" for zs ws
    using assms(2,3) by (induction zs) (simp_all add: TrimSuffix_id)
  then have "verifyChainInFile sha dec (Some \<lparr>lf_lines = xs @ (l @ CR) # ys, lf_tail = t\<rparr>) =
      verifyChainInFile sha dec (Some \<lparr>lf_lines = xs @ l # ys, lf_tail = t\<rparr>)"
    by (intro ext) (simp add: verifyChainInFile_def scan_file_def)
  then have "verify_files sha dec p (fs @ [Some \<lparr>lf_lines = xs @ (l @ CR) # ys, lf_tail = t\<rparr>]) =
      verify_files sha dec p (fs @ [Some \<lparr>lf_lines = xs @ l # ys, lf_tail = t\<rparr>])" for p fs
    by (induction fs arbitrary: p) (simp_all split: sum.split)
  then show ?thesis using assms(1) by (simp add: VerifyAuditChain_def)
qed

text \<open>
  Verification rejects a log that has lost its beginning. Once rotation has dropped a record, the
  verification of the remaining files, which starts from the genesis value, fails, although nobody
  touched them (given that no record hashes to 64 zeros).
\<close>

theorem dropped_history_fails_verify:
  assumes "codec_ok enc dec" and "audit_run sha enc a lost" and "\<And>s. sha s \<noteq> auditGenesisHash"
    and "list_ex (\<lambda>l. l \<noteq> []) lost" and "list_ex (\<lambda>l. l \<noteq> []) (all_lines (al_fs a))"
  shows "VerifyAuditChain sha dec (al_fs a) \<noteq> None"
proof
  assume "VerifyAuditChain sha dec (al_fs a) = None"
  then obtain t where ok: "chain_tip sha dec auditGenesisHash (all_lines (al_fs a)) = Some t"
    unfolding VerifyAuditChain_iff by blast
  have "audit_inv sha dec a lost" by (rule run_inv [OF assms(2,1)])
  then obtain q where q: "chain_tip sha dec auditGenesisHash lost = Some q"
    and rest: "chain_tip sha dec q (all_lines (al_fs a)) = Some (al_lastHash a)"
    by (auto simp: audit_inv_def chain_tip_append split: option.splits)
  have "q = sha (last (filter (\<lambda>l. l \<noteq> []) lost))"
    by (rule chain_last [OF q]) (use assms(4) in \<open>auto simp: list_ex_iff filter_empty_conv\<close>)
  then have ne: "q \<noteq> auditGenesisHash" using assms(3) by simp
  have "q = p" if "chain_tip sha dec q ls = Some x" "chain_tip sha dec p ls = Some y" "list_ex (\<lambda>l. l \<noteq> []) ls" for p ls x y
    using that by (induction ls) (auto split: option.splits if_splits)
  from this [OF rest ok assms(5)] ne show False by simp
qed


text \<open>An encoding for which 25 \<open>POST\<close> entries fill a file: each takes 1 MiB with its newline.\<close>

definition big :: "string \<Rightarrow> string" where
  "big link = ''p'' @ link @ replicate (1048574 - length link) (CHR ''}'')"

definition big_enc :: "AuditEntry \<Rightarrow> string option" where
  "big_enc e =
     (if ae_PrevSHA256 e \<in> {auditGenesisHash, ''h''}
      then Some (if ae_Method e = ''POST'' then big (ae_PrevSHA256 e) else ''q'' @ ae_PrevSHA256 e @ ''}'')
      else None)"

definition big_dec :: "string \<Rightarrow> AuditEntry option" where
  "big_dec s = (case s of [] \<Rightarrow> None | _ # r \<Rightarrow> Some (demo_entry\<lparr>ae_PrevSHA256 := takeWhile (\<lambda>c. c \<noteq> CHR ''}'') r\<rparr>))"

definition ok_io :: log_io where
  "ok_io = \<lparr>lio_fail = None, lio_rotate = ok_rotate\<rparr>"

lemma length_big: "h \<in> {auditGenesisHash, ''h''} \<Longrightarrow> length (big h) = 1048575"
  by (auto simp: big_def auditGenesisHash_def)

lemma big_shape:
  assumes "h \<in> {auditGenesisHash, ''h''}"
  shows "\<exists>r. big h = CHR ''p'' # h @ CHR ''}'' # r @ ''}''"
proof -
  have "\<exists>n. 1048574 - length h = Suc (Suc n)"
    using assms by (intro exI [of _ "1048574 - length h - 2"]) (auto simp: auditGenesisHash_def)
  then obtain n where "1048574 - length h = Suc (Suc n)" by blast
  then have "big h = CHR ''p'' # h @ CHR ''}'' # replicate n (CHR ''}'') @ ''}''"
    by (simp only: big_def) (simp add: replicate_append_same)
  then show ?thesis by blast
qed

lemma link_plain: "h \<in> {auditGenesisHash, ''h''} \<Longrightarrow> c \<in> set h \<Longrightarrow> c \<noteq> CHR ''}''"
  by (auto simp: auditGenesisHash_def)

lemma big_codec: "codec_ok big_enc big_dec"
proof -
  have "l \<noteq> [] \<and> \<not> HasSuffix l CR \<and> (\<exists>r. big_dec l = Some r \<and> ae_PrevSHA256 r = ae_PrevSHA256 e)"
    if e: "big_enc e = Some l" for e l
  proof -
    let ?h = "ae_PrevSHA256 e"
    have h: "?h \<in> {auditGenesisHash, ''h''}" using e by (simp add: big_enc_def split: if_splits)
    obtain c r where l: "l = c # ?h @ CHR ''}'' # r" and last: "HasSuffix l ''}''"
    proof (cases "ae_Method e = ''POST''")
      case True
      with e have "l = big ?h" by (simp add: big_enc_def split: if_splits)
      with big_shape [OF h] show ?thesis using that by (metis HasSuffix_iff append_Cons append_assoc)
    next
      case False
      with e have "l = CHR ''q'' # ?h @ CHR ''}'' # []" by (simp add: big_enc_def split: if_splits)
      then show ?thesis using that by (metis HasSuffix_iff append_Cons)
    qed
    have "takeWhile (\<lambda>c. c \<noteq> CHR ''}'') (?h @ CHR ''}'' # r) = ?h"
      using link_plain [OF h] by (simp add: takeWhile_append2)
    moreover have "\<not> HasSuffix l CR" using last by (auto simp: HasSuffix_iff)
    ultimately show ?thesis by (simp add: l big_dec_def)
  qed
  then show ?thesis unfolding codec_ok_def by blast
qed

text \<open>The logger after \<open>k\<close> such entries into the current file.\<close>

definition full_at :: "nat \<Rightarrow> log_file option list \<Rightarrow> AuditLogger \<Rightarrow> bool" where
  "full_at k rot a \<longleftrightarrow> al_open a \<and> al_bytes a = int k * 1048576 \<and> fs_rot (al_fs a) = rot \<and>
     al_lastHash a \<in> {auditGenesisHash, ''h''} \<and>
     (\<exists>ls. fs_cur (al_fs a) = Some \<lparr>lf_lines = ls, lf_tail = []\<rparr> \<and> length ls = k \<and>
        list_all (\<lambda>l. \<exists>h. h \<in> {auditGenesisHash, ''h''} \<and> l = big h) ls)"

lemma full_lines:
  assumes "ls \<noteq> []" and "list_all (\<lambda>l. \<exists>h. h \<in> {auditGenesisHash, ''h''} \<and> l = big h) ls"
  shows "list_ex (\<lambda>l. l \<noteq> []) (file_lines (Some \<lparr>lf_lines = ls, lf_tail = []\<rparr>))"
proof -
  from assms obtain l ls' h where ls: "ls = l # ls'" and h: "h \<in> {auditGenesisHash, ''h''}" "l = big h"
    by (cases ls) auto
  obtain r where r: "l = CHR ''p'' # h @ CHR ''}'' # r @ ''}''" using big_shape [OF h(1)] h(2) by metis
  have "l = (CHR ''p'' # h @ CHR ''}'' # r) @ ''}''" using r by simp
  then have "HasSuffix l ''}''" unfolding HasSuffix_iff by blast
  moreover have "int (length l) < auditMaxLine" using length_big [OF h(1)] h(2) by (simp add: auditMaxLine_def)
  ultimately have "fst (scan_lines ls) = l # fst (scan_lines ls')" by (simp only: ls demo_scan fst_conv)
  then show ?thesis using r by (simp add: file_lines_def scan_file_def)
qed

text \<open>An entry into a file with \<open>k\<close> of them is the \<open>k + 1\<close>st; the 25th rotates.\<close>

lemma shift_all: "rot_shift (\<lambda>_. True) 4 [a, b, c, d, None] = (True, [None, a, b, c, d])"
  by (cases a; cases b; cases c; cases d) (simp_all add: eval_nat_numeral)

lemma big_log:
  assumes "full_at k rot a" and "k \<le> 24"
  shows "Log (\<lambda>_. ''h'') big_enc ok_io demo_entry a =
      (let a1 = (write_cur (big (al_lastHash a)) True a)\<lparr>al_bytes := int (Suc k) * 1048576, al_lastHash := ''h''\<rparr>
       in if k = 24 then rotate_log ok_rotate a1 else a1)"
    and "log_drops (\<lambda>_. ''h'') big_enc ok_io demo_entry a = (if k = 24 then file_lines (rot ! 4) else [])"
    and "fits big_enc demo_entry a"
proof -
  let ?line = "big (al_lastHash a)"
  have h: "al_lastHash a \<in> {auditGenesisHash, ''h''}" using assms(1) by (simp add: full_at_def)
  have enc: "big_enc (demo_entry\<lparr>ae_PrevSHA256 := al_lastHash a\<rparr>) = Some ?line"
    using h by (auto simp: big_enc_def demo_entry_def)
  have sum: "al_bytes a + int (length ?line + 1) = int (Suc k) * 1048576"
    using assms(1) by (simp add: full_at_def length_big [OF h])
  have w: "wrap64 (int (Suc k) * 1048576) = int (Suc k) * 1048576"
    by (rule wrap64_id) (use assms(2) in \<open>simp add: int64_ok_def\<close>)
  have ge: "int (Suc k) * 1048576 \<ge> auditMaxFileBytes \<longleftrightarrow> k = 24" using assms(2) by (auto simp: auditMaxFileBytes_def)
  have op: "al_open a" "fs_rot (al_fs a) = rot" using assms(1) by (simp_all add: full_at_def)
  show "Log (\<lambda>_. ''h'') big_enc ok_io demo_entry a =
      (let a1 = (write_cur ?line True a)\<lparr>al_bytes := int (Suc k) * 1048576, al_lastHash := ''h''\<rparr>
       in if k = 24 then rotate_log ok_rotate a1 else a1)"
    unfolding Log_def enc option.case sum w Let_def using op(1) ge by (simp add: ok_io_def)
  show "log_drops (\<lambda>_. ''h'') big_enc ok_io demo_entry a = (if k = 24 then file_lines (rot ! 4) else [])"
    unfolding log_drops_def enc option.case sum w ge using op by (simp add: ok_io_def ok_rotate_def)
  show "fits big_enc demo_entry a" unfolding fits_def enc by (simp add: length_big [OF h] auditMaxLine_def)
qed

lemma big_grow:
  assumes "audit_run (\<lambda>_. ''h'') big_enc a lost" and "full_at 0 rot a" and "k \<le> 24"
  shows "\<exists>a'. audit_run (\<lambda>_. ''h'') big_enc a' lost \<and> full_at k rot a'"
  using assms(3)
proof (induction k)
  case 0
  then show ?case using assms by blast
next
  case (Suc k)
  then obtain a' where a': "audit_run (\<lambda>_. ''h'') big_enc a' lost" "full_at k rot a'" by auto
  note b = big_log [OF a'(2)]
  have k: "k \<le> 24" "k \<noteq> 24" using Suc(2) by auto
  have "audit_run (\<lambda>_. ''h'') big_enc (Log (\<lambda>_. ''h'') big_enc ok_io demo_entry a')
      (lost @ log_drops (\<lambda>_. ''h'') big_enc ok_io demo_entry a')"
    by (rule audit_run.entry [OF a'(1) _ b(3) [OF k(1)]]) (simp add: ok_io_def)
  then have run: "audit_run (\<lambda>_. ''h'') big_enc (Log (\<lambda>_. ''h'') big_enc ok_io demo_entry a') lost"
    using b(2) [OF k(1)] k(2) by simp
  have "full_at (Suc k) rot (Log (\<lambda>_. ''h'') big_enc ok_io demo_entry a')"
    using a'(2) k(2) unfolding b(1) [OF k(1)] by (auto simp: full_at_def write_cur_def append_bytes_def)
  with run show ?case by blast
qed

lemma full_run:
  assumes "audit_run (\<lambda>_. ''h'') big_enc a lost" and "full_at 0 [r1, r2, r3, r4, r5] a"
  shows "\<exists>a' f. list_ex (\<lambda>l. l \<noteq> []) (file_lines f) \<and> full_at 0 [f, r1, r2, r3, r4] a' \<and>
    audit_run (\<lambda>_. ''h'') big_enc a' (lost @ file_lines r5)"
proof -
  from big_grow [OF assms, of 24] obtain a' where a': "audit_run (\<lambda>_. ''h'') big_enc a' lost"
    "full_at 24 [r1, r2, r3, r4, r5] a'" by auto
  note b = big_log [OF a'(2) order_refl]
  obtain ls where ls: "fs_cur (al_fs a') = Some \<lparr>lf_lines = ls, lf_tail = []\<rparr>"
    "list_all (\<lambda>l. \<exists>h. h \<in> {auditGenesisHash, ''h''} \<and> l = big h) ls"
    using a'(2) by (auto simp: full_at_def)
  define ls' where "ls' = ls @ [big (al_lastHash a')]"
  let ?f = "Some \<lparr>lf_lines = ls', lf_tail = []\<rparr>"
  have h: "al_lastHash a' \<in> {auditGenesisHash, ''h''}" using a'(2) by (simp add: full_at_def)
  have "list_ex (\<lambda>l. l \<noteq> []) (file_lines ?f)"
    by (rule full_lines) (use ls(2) h in \<open>auto simp: ls'_def\<close>)
  moreover have "full_at 0 [?f, r1, r2, r3, r4] (Log (\<lambda>_. ''h'') big_enc ok_io demo_entry a')"
    unfolding b(1) using ls(1) a'(2) shift_all [of r1 r2 r3 r4]
    by (simp add: full_at_def rotate_log_def ok_rotate_def write_cur_def append_bytes_def ls'_def empty_file_def Let_def eval_nat_numeral)
  moreover have "audit_run (\<lambda>_. ''h'') big_enc (Log (\<lambda>_. ''h'') big_enc ok_io demo_entry a') (lost @ file_lines r5)"
    using audit_run.entry [OF a'(1) _ b(3), of ok_io] b(2) by (simp add: ok_io_def eval_nat_numeral)
  ultimately show ?thesis by blast
qed

lemma six_rotations:
  "\<exists>a lost. audit_run (\<lambda>_. ''h'') big_enc a lost \<and> list_ex (\<lambda>l. l \<noteq> []) lost \<and> list_ex (\<lambda>l. l \<noteq> []) (all_lines (al_fs a))"
proof -
  have "NewAuditLogger (\<lambda>_. ''h'') True fresh_fs = Some demo_logger"
    by (simp add: NewAuditLogger_def demo_logger_def fresh_fs_def empty_file_def file_size_def resumeChain_def)
  then have 0: "audit_run (\<lambda>_. ''h'') big_enc demo_logger []" by (rule audit_run.boot)
  have f0: "full_at 0 [None, None, None, None, None] demo_logger"
    by (simp add: full_at_def demo_logger_def empty_file_def fresh_fs_def auditGenesisHash_def eval_nat_numeral)
  obtain a1 f1 where 1: "list_ex (\<lambda>l. l \<noteq> []) (file_lines f1)" "full_at 0 [f1, None, None, None, None] a1"
    "audit_run (\<lambda>_. ''h'') big_enc a1 ([] @ file_lines None)" using full_run [OF 0 f0] by blast
  obtain a2 f2 where 2: "full_at 0 [f2, f1, None, None, None] a2"
    "audit_run (\<lambda>_. ''h'') big_enc a2 (([] @ file_lines None) @ file_lines None)" using full_run [OF 1(3,2)] by blast
  obtain a3 f3 where 3: "full_at 0 [f3, f2, f1, None, None] a3"
    "audit_run (\<lambda>_. ''h'') big_enc a3 ((([] @ file_lines None) @ file_lines None) @ file_lines None)"
    using full_run [OF 2(2,1)] by blast
  obtain a4 f4 where 4: "full_at 0 [f4, f3, f2, f1, None] a4"
    "audit_run (\<lambda>_. ''h'') big_enc a4 (((([] @ file_lines None) @ file_lines None) @ file_lines None) @ file_lines None)"
    using full_run [OF 3(2,1)] by blast
  obtain a5 f5 where 5: "full_at 0 [f5, f4, f3, f2, f1] a5"
    "audit_run (\<lambda>_. ''h'') big_enc a5 ((((([] @ file_lines None) @ file_lines None) @ file_lines None) @ file_lines None) @ file_lines None)"
    using full_run [OF 4(2,1)] by blast
  obtain a6 f6 where 6: "list_ex (\<lambda>l. l \<noteq> []) (file_lines f6)" "full_at 0 [f6, f5, f4, f3, f2] a6"
    "audit_run (\<lambda>_. ''h'') big_enc a6 (((((([] @ file_lines None) @ file_lines None) @ file_lines None) @ file_lines None) @ file_lines None) @ file_lines f1)"
    using full_run [OF 5(2,1)] by blast
  have "list_ex (\<lambda>l. l \<noteq> []) (all_lines (al_fs a6))" using 6(1,2) by (auto simp: full_at_def all_lines_def list_ex_iff)
  moreover have "list_ex (\<lambda>l. l \<noteq> []) ((((((([] @ file_lines None) @ file_lines None) @ file_lines None) @ file_lines None) @ file_lines None) @ file_lines f1))"
    using 1(1) by (auto simp: list_ex_iff)
  ultimately show ?thesis using 6(3) by blast
qed

theorem dropped_history_fails_verify_witness:
  "\<exists>a :: AuditLogger. VerifyAuditChain (\<lambda>_. ''h'') big_dec (al_fs a) \<noteq> None"
proof -
  from six_rotations obtain a lost where r: "audit_run (\<lambda>_. ''h'') big_enc a lost" "list_ex (\<lambda>l. l \<noteq> []) lost"
    "list_ex (\<lambda>l. l \<noteq> []) (all_lines (al_fs a))" by blast
  have "''h'' \<noteq> auditGenesisHash" by (simp add: auditGenesisHash_def eval_nat_numeral)
  from dropped_history_fails_verify [OF big_codec r(1) this r(2,3)] show ?thesis by (rule exI [of _ a])
qed

text \<open>
  A restart between a rotation and the next entry breaks the chain. The fresh \<open>audit.log\<close> is empty, so
  the logger resumes at the genesis value although \<open>audit.log.1\<close> holds records: the next entry no longer
  verifies.
\<close>

theorem restart_after_rotation_breaks_chain:
  assumes "codec_ok enc dec" and "audit_run sha enc a lost" and "\<And>s. sha s \<noteq> auditGenesisHash"
    and "fs_cur (al_fs a) = Some empty_file" and "list_ex (\<lambda>l. l \<noteq> []) (all_lines (al_fs a))" and "lost = []"
    and "NewAuditLogger sha True (al_fs a) = Some a1" and "enc (e\<lparr>ae_PrevSHA256 := auditGenesisHash\<rparr>) = Some line"
    and "lio_fail io = None" and "int (length line) < auditMaxLine"
  shows "VerifyAuditChain sha dec (al_fs a) = None \<and> VerifyAuditChain sha dec (al_fs (Log sha enc io e a1)) \<noteq> None"
proof -
  have inv: "audit_inv sha dec a lost" by (rule run_inv [OF assms(2,1)])
  then have tip: "chain_tip sha dec auditGenesisHash (all_lines (al_fs a)) = Some (al_lastHash a)"
    using assms(6) by (simp add: audit_inv_def)
  have "al_lastHash a = sha (last (filter (\<lambda>l. l \<noteq> []) (all_lines (al_fs a))))"
    by (rule chain_last [OF tip]) (use assms(5) in \<open>auto simp: list_ex_iff filter_empty_conv\<close>)
  then have ne: "al_lastHash a \<noteq> auditGenesisHash" using assms(3) by simp
  have a1: "al_fs a1 = al_fs a" "al_open a1" "al_bytes a1 = 0" "al_lastHash a1 = auditGenesisHash"
    using assms(4,7) by (auto simp: NewAuditLogger_def resumeChain_def scan_file_def empty_file_def file_size_def)
  from assms(1,8) obtain r where r: "line \<noteq> []" "dec line = Some r" "ae_PrevSHA256 r = auditGenesisHash" "\<not> HasSuffix line CR"
    by (fastforce simp: codec_ok_def)
  have w: "wrap64 (1 + int (length line)) = 1 + int (length line)"
    by (rule wrap64_id) (use assms(10) in \<open>simp add: int64_ok_def auditMaxLine_def\<close>)
  have "al_fs (Log sha enc io e a1) = (al_fs a)\<lparr>fs_cur := Some \<lparr>lf_lines = [line], lf_tail = []\<rparr>\<rparr>"
    using a1 assms(4,8,9,10) w
    by (simp add: Log_def write_cur_def append_bytes_def empty_file_def Let_def auditMaxLine_def auditMaxFileBytes_def)
  then have "all_lines (al_fs (Log sha enc io e a1)) = all_lines (al_fs a) @ [line]"
    using assms(4,10) TrimSuffix_id [OF r(4)] by (simp add: all_lines_def file_lines_def scan_file_def empty_file_def)
  then have "chain_tip sha dec auditGenesisHash (all_lines (al_fs (Log sha enc io e a1))) = None"
    using tip r ne by (simp add: chain_tip_append)
  then show ?thesis using tip inv by (simp add: VerifyAuditChain_iff audit_inv_def)
qed

theorem restart_after_rotation_breaks_chain_witness:
  "\<exists>(a :: AuditLogger) (a1 :: AuditLogger). VerifyAuditChain (\<lambda>_. ''h'') big_dec (al_fs a) = None \<and>
    VerifyAuditChain (\<lambda>_. ''h'') big_dec (al_fs (Log (\<lambda>_. ''h'') big_enc ok_io (demo_entry\<lparr>ae_Method := ''PUT''\<rparr>) a1)) \<noteq> None"
proof -
  have b: "NewAuditLogger (\<lambda>_. ''h'') True fresh_fs = Some demo_logger"
    by (simp add: NewAuditLogger_def demo_logger_def fresh_fs_def empty_file_def file_size_def resumeChain_def)
  have f0: "full_at 0 [None, None, None, None, None] demo_logger"
    by (simp add: full_at_def demo_logger_def empty_file_def fresh_fs_def auditGenesisHash_def eval_nat_numeral)
  obtain a f where f: "list_ex (\<lambda>l. l \<noteq> []) (file_lines f)" "full_at 0 [f, None, None, None, None] a"
    and run: "audit_run (\<lambda>_. ''h'') big_enc a ([] @ file_lines None)"
    using full_run [OF audit_run.boot [OF b] f0] by blast
  have h: "''h'' \<noteq> auditGenesisHash" by (simp add: auditGenesisHash_def eval_nat_numeral)
  have cur: "fs_cur (al_fs a) = Some empty_file" using f(2) by (simp add: full_at_def empty_file_def)
  have al: "list_ex (\<lambda>l. l \<noteq> []) (all_lines (al_fs a))" using f by (auto simp: full_at_def all_lines_def list_ex_iff)
  obtain a1 where n: "NewAuditLogger (\<lambda>_. ''h'') True (al_fs a) = Some a1"
    using cur by (simp add: NewAuditLogger_def Let_def resumeChain_def scan_file_def empty_file_def)
  have en: "big_enc ((demo_entry\<lparr>ae_Method := ''PUT''\<rparr>)\<lparr>ae_PrevSHA256 := auditGenesisHash\<rparr>) = Some (''q'' @ auditGenesisHash @ ''}'')"
    by (simp add: big_enc_def)
  have "VerifyAuditChain (\<lambda>_. ''h'') big_dec (al_fs a) = None \<and>
    VerifyAuditChain (\<lambda>_. ''h'') big_dec (al_fs (Log (\<lambda>_. ''h'') big_enc ok_io (demo_entry\<lparr>ae_Method := ''PUT''\<rparr>) a1)) \<noteq> None"
    by (rule restart_after_rotation_breaks_chain [OF big_codec run h cur al _ n en])
      (simp_all add: file_lines_def ok_io_def auditGenesisHash_def auditMaxLine_def)
  then show ?thesis by (intro exI [of _ a] exI [of _ a1])
qed

end
