(* ===== verification/Admin_Convert.thy ===== *)
theory Admin_Convert
  imports Sup_Volumes State_Release Admin_Audit
begin

text \<open>
  \<open>internal/adminapi/convert.go\<close>: the requests of the admin API (the structs of
  \<open>internal/apitypes/types.gen.go\<close>, pointers to optional fields as \<open>option\<close>), their conversion to the
  supervisor's configuration, and the views sent back. A \<open>time.Duration\<close> is its int64 count of
  nanoseconds, so a multiplication wraps.
\<close>

section \<open>Request types\<close>

record WireLimits =
  wl_CpuPeriodUs :: "int option"
  wl_CpuQuotaUs :: "int option"
  wl_MemoryHighBytes :: "int option"
  wl_MemoryMaxBytes :: "int option"
  wl_PidsMax :: "int option"

record WireSandbox =
  ws_Chroot :: "string option"
  ws_IpcNamespace :: "bool option"
  ws_MountNamespace :: "bool option"
  ws_NoNewPrivs :: "bool option"
  ws_PidNamespace :: "bool option"
  ws_UserNamespace :: "bool option"
  ws_UtsNamespace :: "bool option"

record WireVolumeMount =
  wv_ReadOnly :: "bool option"
  wv_SubPath :: "string option"
  wv_Target :: string
  wv_VolumeId :: string

record WireRunAs =
  wr_Gid :: int
  wr_Uid :: int

record SpawnRequest =
  sr_Args :: "string list option"
  sr_Command :: "string option"
  sr_Entry :: "string option"
  sr_Env :: "string list option"
  sr_HealthCheckPath :: "string option"
  sr_Id :: string
  sr_Limits :: "WireLimits option"
  sr_NetIsolation :: "bool option"
  sr_Port :: int
  sr_RunAs :: "WireRunAs option"
  sr_RunAsRoot :: "bool option"
  sr_Runtime :: "string option"
  sr_Sandbox :: "WireSandbox option"
  sr_VolumeMounts :: "WireVolumeMount list option"

record DeployRequest =
  dr_Args :: "string list option"
  dr_Command :: "string option"
  dr_Entry :: "string option"
  dr_Env :: "string list option"
  dr_GracefulV1Ms :: "int option"
  dr_HealthCheckPath :: "string option"
  dr_Limits :: "WireLimits option"
  dr_NetIsolation :: "bool option"
  dr_PollIntervalMs :: "int option"
  dr_Port :: int
  dr_ReadyTimeoutMs :: "int option"
  dr_RunAs :: "WireRunAs option"
  dr_RunAsRoot :: "bool option"
  dr_Runtime :: "string option"
  dr_Sandbox :: "WireSandbox option"
  dr_VolumeMounts :: "WireVolumeMount list option"

record VolumeRequest =
  vr_BackingPath :: string
  vr_Id :: string
  vr_ReadOnly :: "bool option"

section \<open>From the wire to the supervisor\<close>

definition derefStr :: "string option \<Rightarrow> string" where
  "derefStr p = (case p of None \<Rightarrow> [] | Some x \<Rightarrow> x)"

definition derefBool :: "bool option \<Rightarrow> bool" where
  "derefBool p = (case p of None \<Rightarrow> False | Some x \<Rightarrow> x)"

definition derefInt64 :: "int option \<Rightarrow> int" where
  "derefInt64 p = (case p of None \<Rightarrow> 0 | Some x \<Rightarrow> x)"

definition derefStrSlice :: "string list option \<Rightarrow> string list" where
  "derefStrSlice p = (case p of None \<Rightarrow> [] | Some x \<Rightarrow> x)"

definition msOrDuration :: "int option \<Rightarrow> int \<Rightarrow> int" where
  "msOrDuration ms fallback =
     (case ms of None \<Rightarrow> fallback | Some v \<Rightarrow> if v \<le> 0 then fallback else wrap64 (v * 1000000))"

definition parseRuntimePtr :: "string option \<Rightarrow> runtime_error + runtime" where
  "parseRuntimePtr r = (case r of None \<Rightarrow> Inr [] | Some x \<Rightarrow> runtime_Parse x)"

definition limitsToInternal :: "WireLimits option \<Rightarrow> limits option" where
  "limitsToInternal l =
     (case l of
        None \<Rightarrow> None
      | Some w \<Rightarrow>
          let out = \<lparr>MemoryHigh = derefInt64 (wl_MemoryHighBytes w), MemoryMax = derefInt64 (wl_MemoryMaxBytes w),
                     PidsMax = derefInt64 (wl_PidsMax w), CPUQuota = derefInt64 (wl_CpuQuotaUs w),
                     CPUPeriod = derefInt64 (wl_CpuPeriodUs w)\<rparr>
          in if MemoryHigh out = 0 \<and> MemoryMax out = 0 \<and> PidsMax out = 0 \<and> CPUQuota out = 0 then None
             else Some out)"

definition sandboxToInternal :: "WireSandbox option \<Rightarrow> sandbox_spec option" where
  "sandboxToInternal s =
     (case s of
        None \<Rightarrow> None
      | Some w \<Rightarrow>
          let spec = \<lparr>PIDNamespace = derefBool (ws_PidNamespace w), UTSNamespace = derefBool (ws_UtsNamespace w),
                IPCNamespace = derefBool (ws_IpcNamespace w), MountNamespace = derefBool (ws_MountNamespace w),
                UserNamespace = derefBool (ws_UserNamespace w), UIDMappings = [], GIDMappings = [],
                AllowSetgroups = False, NoNewPrivs = derefBool (ws_NoNewPrivs w), Chroot = derefStr (ws_Chroot w)\<rparr>
          in if \<not> spec_Any spec then None else Some spec)"

definition runAsToInternal :: "WireRunAs option \<Rightarrow> RunAs option" where
  "runAsToInternal r = (case r of None \<Rightarrow> None | Some w \<Rightarrow> Some \<lparr>ra_UID = wr_Uid w, ra_GID = wr_Gid w\<rparr>)"

definition volumeMountsToInternal :: "WireVolumeMount list option \<Rightarrow> VolumeMount list" where
  "volumeMountsToInternal vms =
     (case vms of
        None \<Rightarrow> []
      | Some vs \<Rightarrow> map (\<lambda>v. \<lparr>vm_VolumeID = wv_VolumeId v, vm_SubPath = derefStr (wv_SubPath v),
                            vm_Target = wv_Target v, vm_ReadOnly = derefBool (wv_ReadOnly v)\<rparr>) vs)"

definition spawnToConfig :: "SpawnRequest \<Rightarrow> runtime_error + Config" where
  "spawnToConfig req =
     (case parseRuntimePtr (sr_Runtime req) of
        Inl e \<Rightarrow> Inl e
      | Inr rt \<Rightarrow> Inr \<lparr>cfg_ID = sr_Id req, cfg_Command = derefStr (sr_Command req),
          cfg_Args = derefStrSlice (sr_Args req), cfg_Runtime = rt, cfg_Entry = derefStr (sr_Entry req),
          cfg_Port = sr_Port req, cfg_Env = derefStrSlice (sr_Env req),
          cfg_CgroupLimits = limitsToInternal (sr_Limits req), cfg_Sandbox = sandboxToInternal (sr_Sandbox req),
          cfg_RunAs = runAsToInternal (sr_RunAs req), cfg_RunAsRoot = derefBool (sr_RunAsRoot req),
          cfg_NetIsolation = derefBool (sr_NetIsolation req),
          cfg_HealthCheckPath = derefStr (sr_HealthCheckPath req),
          cfg_VolumeMounts = volumeMountsToInternal (sr_VolumeMounts req)\<rparr>)"

definition deployToConfig :: "string \<Rightarrow> DeployRequest \<Rightarrow> runtime_error + DeployConfig" where
  "deployToConfig appID req =
     (case parseRuntimePtr (dr_Runtime req) of
        Inl e \<Rightarrow> Inl e
      | Inr rt \<Rightarrow> Inr \<lparr>dc_Config = \<lparr>cfg_ID = appID, cfg_Command = derefStr (dr_Command req),
          cfg_Args = derefStrSlice (dr_Args req), cfg_Runtime = rt, cfg_Entry = derefStr (dr_Entry req),
          cfg_Port = dr_Port req, cfg_Env = derefStrSlice (dr_Env req),
          cfg_CgroupLimits = limitsToInternal (dr_Limits req), cfg_Sandbox = sandboxToInternal (dr_Sandbox req),
          cfg_RunAs = runAsToInternal (dr_RunAs req), cfg_RunAsRoot = derefBool (dr_RunAsRoot req),
          cfg_NetIsolation = derefBool (dr_NetIsolation req),
          cfg_HealthCheckPath = derefStr (dr_HealthCheckPath req),
          cfg_VolumeMounts = volumeMountsToInternal (dr_VolumeMounts req)\<rparr>,
          dc_ReadyTimeout = msOrDuration (dr_ReadyTimeoutMs req) 0,
          dc_PollInterval = msOrDuration (dr_PollIntervalMs req) 0,
          dc_GracefulV1Timeout = msOrDuration (dr_GracefulV1Ms req) 0\<rparr>)"

section \<open>From the daemon to the wire\<close>

text \<open>\<open>nonempty\<close>: the fields a view omits when they are empty.\<close>

definition nonempty :: "'a list \<Rightarrow> 'a list option" where
  "nonempty xs = (if xs = [] then None else Some xs)"

definition nonzero :: "int \<Rightarrow> int option" where
  "nonzero n = (if n = 0 then None else Some n)"

record AppView =
  av_Id :: string
  av_Command :: string
  av_Port :: int
  av_Status :: string
  av_Pid :: int
  av_UptimeMs :: int
  av_RestartCount :: nat
  av_HealthFailures :: int
  av_Runtime :: "string option"
  av_Args :: "string list option"
  av_Env :: "string list option"
  av_NetIp :: "string option"
  av_RunAs :: "WireRunAs option"

text \<open>\<open>PID()\<close> is 0 without a process, and the uptime is 0 before the first start (\<open>a_startedAt\<close> 0 is the
  zero time). Times are nanoseconds.\<close>

definition Uptime :: "int \<Rightarrow> App \<Rightarrow> int" where
  "Uptime now app = (if a_startedAt app = 0 then 0 else now - a_startedAt app)"

definition Milliseconds :: "int \<Rightarrow> int" where
  "Milliseconds d = (if d < 0 then - ((- d) div 1000000) else d div 1000000)"

definition app_PID :: "App \<Rightarrow> int" where
  "app_PID app = (case a_cmd app of None \<Rightarrow> 0 | Some pid \<Rightarrow> pid)"

definition appToView :: "int \<Rightarrow> (ip \<Rightarrow> string) \<Rightarrow> App \<Rightarrow> AppView" where
  "appToView now ip_str app = \<lparr>av_Id = a_ID app, av_Command = a_Command app, av_Port = a_Port app,
     av_Status = Status_String (a_status app), av_Pid = app_PID app,
     av_UptimeMs = Milliseconds (Uptime now app), av_RestartCount = length (a_restarts app),
     av_HealthFailures = a_healthFailures app, av_Runtime = nonempty (a_Runtime app),
     av_Args = nonempty (a_Args app), av_Env = nonempty (a_env app), av_NetIp = map_option ip_str (a_NetIP app),
     av_RunAs = map_option (\<lambda>ra. \<lparr>wr_Gid = ra_GID ra, wr_Uid = ra_UID ra\<rparr>) (a_runAs app)\<rparr>"

record VolumeView =
  vv_Id :: string
  vv_BackingPath :: string
  vv_ReadOnly :: "bool option"
  vv_FsType :: "string option"

definition volumeToView :: "SupVolume \<Rightarrow> VolumeView" where
  "volumeToView v = \<lparr>vv_Id = v_ID v, vv_BackingPath = v_BackingPath v,
     vv_ReadOnly = (if v_ReadOnly v then Some True else None), vv_FsType = nonempty (v_FSType v)\<rparr>"

definition resolveOriginalArtifactRelease :: "Release \<Rightarrow> int" where
  "resolveOriginalArtifactRelease target =
     (if rs_OriginalArtifactRelease (rel_Spec target) \<noteq> 0 then rs_OriginalArtifactRelease (rel_Spec target)
      else rs_ReleaseSeq (rel_Spec target))"

text \<open>\<open>parse_uuid\<close> stands for \<open>uuid.Parse\<close>, which yields the nil UUID on an error.\<close>

record WireReleaseSpec =
  wp_AppUid :: string
  wp_ReleaseSeq :: int
  wp_GitSha :: "string option"
  wp_Image :: "string option"
  wp_EnvHash :: "string option"
  wp_CreatedBy :: "string option"
  wp_RolledBackFrom :: "int option"
  wp_OriginalArtifactRelease :: "int option"

record WireRelease =
  wrel_Uid :: string
  wrel_Phase :: string
  wrel_CreationTimestamp :: int
  wrel_Spec :: WireReleaseSpec

definition releaseSpecToWire :: "(string \<Rightarrow> string) \<Rightarrow> ReleaseSpec \<Rightarrow> WireReleaseSpec" where
  "releaseSpecToWire parse_uuid s = \<lparr>wp_AppUid = parse_uuid (rs_AppUID s), wp_ReleaseSeq = rs_ReleaseSeq s,
     wp_GitSha = nonempty (rs_GitSha s), wp_Image = nonempty (rs_Image s), wp_EnvHash = nonempty (rs_EnvHash s),
     wp_CreatedBy = nonempty (rs_CreatedBy s), wp_RolledBackFrom = nonzero (rs_RolledBackFrom s),
     wp_OriginalArtifactRelease = nonzero (rs_OriginalArtifactRelease s)\<rparr>"

definition releaseToWire :: "(string \<Rightarrow> string) \<Rightarrow> Release \<Rightarrow> WireRelease" where
  "releaseToWire parse_uuid r = \<lparr>wrel_Uid = parse_uuid (rel_UID r), wrel_Phase = rel_Phase r,
     wrel_CreationTimestamp = rel_CreationTimestamp r, wrel_Spec = releaseSpecToWire parse_uuid (rel_Spec r)\<rparr>"

text \<open>\<open>authz\<close> is the Authorization header, empty when absent.\<close>

definition releaseActor :: "(string \<Rightarrow> string) \<Rightarrow> string \<Rightarrow> string \<Rightarrow> string" where
  "releaseActor sha authz remoteAddr =
     (if HasPrefix authz ''Bearer '' then hashToken sha (TrimPrefix authz ''Bearer '') else remoteAddr)"

section \<open>Lemmas\<close>

lemma spawnToConfig_ID: "spawnToConfig req = Inr cfg \<Longrightarrow> cfg_ID cfg = sr_Id req \<and> cfg_Port cfg = sr_Port req"
  by (auto simp: spawnToConfig_def split: sum.splits)

lemma deployToConfig_ID:
  "deployToConfig i req = Inr dc \<Longrightarrow> cfg_ID (dc_Config dc) = i \<and> cfg_Port (dc_Config dc) = dr_Port req"
  by (auto simp: deployToConfig_def split: sum.splits)

text \<open>A timeout the request gives in milliseconds is exact up to the largest int64 duration.\<close>

lemma msOrDuration_exact:
  "0 < v \<Longrightarrow> v \<le> 9223372036854 \<Longrightarrow> msOrDuration (Some v) d = v * 1000000"
  by (simp add: msOrDuration_def int64_ok_def)

lemma msOrDuration_wraps: "msOrDuration (Some 9223372036855) d < 0"
  by (simp add: msOrDuration_def wrap64_def)

end
