(* ===== verification/Admin_Conditions.thy ===== *)
theory Admin_Conditions
  imports Sup_Lifecycle
begin

text \<open>
  \<open>internal/adminapi/conditions.go\<close>: the condition tracker. It remembers, per app, the last reported
  conditions and since when Progressing has been True, so that a report can carry the time of the last
  status flip and turn a deploy that takes too long into Degraded.

  The contract is a function of the history of reports of the app since it was last forgotten
  (\<open>spec_report\<close>): it names the block of reports with the same status a report ends. The tracker
  refines it for every interleaving of reports of all apps and of forgets.
\<close>

section \<open>Conditions\<close>

type_synonym ConditionStatus = string

abbreviation ConditionStatusTrue :: ConditionStatus where "ConditionStatusTrue \<equiv> ''True''"
abbreviation ConditionStatusFalse :: ConditionStatus where "ConditionStatusFalse \<equiv> ''False''"
abbreviation ConditionStatusUnknown :: ConditionStatus where "ConditionStatusUnknown \<equiv> ''Unknown''"

record Condition =
  c_Type :: string
  c_Status :: ConditionStatus
  c_Reason :: string
  c_LastTransitionTime :: int

definition condition :: "string \<Rightarrow> ConditionStatus \<Rightarrow> string \<Rightarrow> Condition" where
  "condition ty st r = \<lparr>c_Type = ty, c_Status = st, c_Reason = r, c_LastTransitionTime = 0\<rparr>"

record conditionTracker =
  ct_m :: "Condition gomap gomap"
  ct_progressingStart :: "int gomap"
  ct_progressingTimeout :: int

definition defaultProgressingTimeout :: int where
  "defaultProgressingTimeout = 5 * 60 * 1000000000"

definition newConditionTracker :: conditionTracker where
  "newConditionTracker = \<lparr>ct_m = [], ct_progressingStart = [], ct_progressingTimeout = defaultProgressingTimeout\<rparr>"

text \<open>\<open>time.Time.Sub\<close> saturates at the ends of the int64 range.\<close>

definition Sub :: "int \<Rightarrow> int \<Rightarrow> int" where
  "Sub t u = max (- (2 ^ 63)) (min (2 ^ 63 - 1) (t - u))"

fun status_conditions :: "Status \<Rightarrow> Condition \<times> Condition \<times> Condition" where
  "status_conditions StatusRunning =
     (condition ''Ready'' ConditionStatusTrue ''Healthy'', condition ''Progressing'' ConditionStatusFalse ''AtRest'',
      condition ''Degraded'' ConditionStatusFalse ''Stable'')"
| "status_conditions StatusStarting =
     (condition ''Ready'' ConditionStatusFalse ''Starting'', condition ''Progressing'' ConditionStatusTrue ''Starting'',
      condition ''Degraded'' ConditionStatusFalse ''Stable'')"
| "status_conditions StatusCrashed =
     (condition ''Ready'' ConditionStatusFalse ''Crashed'', condition ''Progressing'' ConditionStatusFalse ''AtRest'',
      condition ''Degraded'' ConditionStatusTrue ''Crashed'')"
| "status_conditions StatusCrashLooping =
     (condition ''Ready'' ConditionStatusFalse ''CrashLooping'', condition ''Progressing'' ConditionStatusFalse ''AtRest'',
      condition ''Degraded'' ConditionStatusTrue ''CrashLooping'')"
| "status_conditions StatusUnhealthy =
     (condition ''Ready'' ConditionStatusFalse ''ProbeFailing'', condition ''Progressing'' ConditionStatusFalse ''AtRest'',
      condition ''Degraded'' ConditionStatusTrue ''Unhealthy'')"
| "status_conditions StatusStopped =
     (condition ''Ready'' ConditionStatusFalse ''Stopped'', condition ''Progressing'' ConditionStatusFalse ''AtRest'',
      condition ''Degraded'' ConditionStatusFalse ''Stable'')"
| "status_conditions StatusUnknown =
     (condition ''Ready'' ConditionStatusUnknown ''Unknown'', condition ''Progressing'' ConditionStatusUnknown ''Unknown'',
      condition ''Degraded'' ConditionStatusUnknown ''Unknown'')"

section \<open>The tracker\<close>

definition applyProgressingTimeout ::
  "string \<Rightarrow> Condition \<Rightarrow> Condition \<Rightarrow> int \<Rightarrow> conditionTracker \<Rightarrow> Condition \<times> Condition \<times> conditionTracker"
where
  "applyProgressingTimeout appID prog deg now t =
     (if c_Status prog \<noteq> ConditionStatusTrue
      then (prog, deg, t\<lparr>ct_progressingStart := gm_del appID (ct_progressingStart t)\<rparr>)
      else case gm_get (ct_progressingStart t) appID of
        None \<Rightarrow> (prog, deg, t\<lparr>ct_progressingStart := gm_set appID now (ct_progressingStart t)\<rparr>)
      | Some started \<Rightarrow>
          if Sub now started \<le> ct_progressingTimeout t then (prog, deg, t)
          else (prog\<lparr>c_Status := ConditionStatusFalse, c_Reason := ''DeployTimeout''\<rparr>,
                deg\<lparr>c_Status := ConditionStatusTrue, c_Reason := ''DeployTimeout''\<rparr>, t))"

fun transition_loop :: "int \<Rightarrow> Condition list \<Rightarrow> Condition gomap \<Rightarrow> Condition list \<times> Condition gomap" where
  "transition_loop now [] cur = ([], cur)"
| "transition_loop now (c # cs) cur =
     (let c' = c\<lparr>c_LastTransitionTime :=
                 (case gm_get cur (c_Type c) of
                    None \<Rightarrow> now
                  | Some prev \<Rightarrow> if c_Status prev \<noteq> c_Status c then now else c_LastTransitionTime prev)\<rparr>;
          (out, cur') = transition_loop now cs (gm_set (c_Type c) c' cur)
      in (c' # out, cur'))"

definition applyTransitionTimes ::
  "string \<Rightarrow> Condition list \<Rightarrow> int \<Rightarrow> conditionTracker \<Rightarrow> Condition list \<times> conditionTracker"
where
  "applyTransitionTimes appID conds now t =
     (let cur = (case gm_get (ct_m t) appID of None \<Rightarrow> [] | Some m \<Rightarrow> m);
          (out, cur') = transition_loop now conds cur
      in (out, t\<lparr>ct_m := gm_set appID cur' (ct_m t)\<rparr>))"

definition computeAppConditions ::
  "string \<Rightarrow> Status \<Rightarrow> int \<Rightarrow> int \<Rightarrow> int \<Rightarrow> conditionTracker \<Rightarrow> Condition list \<times> conditionTracker"
where
  "computeAppConditions appID status generation observedGeneration now t =
     (let (ready, prog, deg) = status_conditions status;
          prog1 = (if observedGeneration < generation
                   then prog\<lparr>c_Status := ConditionStatusTrue, c_Reason := ''DeployInFlight''\<rparr> else prog);
          (prog2, deg2, t1) = applyProgressingTimeout appID prog1 deg now t;
          backup = condition ''BackupReady'' ConditionStatusUnknown ''NotConfigured''
      in applyTransitionTimes appID [ready, prog2, deg2, backup] now t1)"

definition forget :: "string \<Rightarrow> conditionTracker \<Rightarrow> conditionTracker" where
  "forget appID t = t\<lparr>ct_m := gm_del appID (ct_m t), ct_progressingStart := gm_del appID (ct_progressingStart t)\<rparr>"

section \<open>The contract\<close>

text \<open>One report of an app: the status of its process, the two generations, and the time.\<close>

record obs =
  ob_status :: Status
  ob_generation :: int
  ob_observed :: int
  ob_now :: int

definition in_progress :: "obs \<Rightarrow> bool" where
  "in_progress x \<longleftrightarrow> ob_observed x < ob_generation x \<or> ob_status x = StatusStarting"

text \<open>
  The reports of an app, oldest first. \<open>since_progress\<close> is the time of the first report of the block of
  reports in progress that the history ends with.
\<close>

definition since_progress :: "obs list \<Rightarrow> int" where
  "since_progress h = ob_now (last (takeWhile in_progress (rev h)))"

definition timed_out :: "int \<Rightarrow> obs list \<Rightarrow> bool" where
  "timed_out tmo h \<longleftrightarrow> in_progress (last h) \<and> Sub (ob_now (last h)) (since_progress h) > tmo"

definition failed_status :: "Status \<Rightarrow> bool" where
  "failed_status st \<longleftrightarrow> st = StatusCrashed \<or> st = StatusCrashLooping \<or> st = StatusUnhealthy"

definition spec_status :: "int \<Rightarrow> string \<Rightarrow> obs list \<Rightarrow> ConditionStatus" where
  "spec_status tmo ty h =
     (let st = ob_status (last h);
          tri = (\<lambda>b. if b then ConditionStatusTrue else if st = StatusUnknown then ConditionStatusUnknown
                     else ConditionStatusFalse)
      in
      if ty = ''Ready'' then tri (st = StatusRunning)
      else if ty = ''Progressing''
      then (if timed_out tmo h then ConditionStatusFalse else tri (in_progress (last h)))
      else if ty = ''Degraded'' then tri (timed_out tmo h \<or> failed_status st)
      else ConditionStatusUnknown)"

text \<open>The non-empty prefixes of a history, longest first, and the time of the first report of the block of
  reports with the status the last one has.\<close>

definition past :: "obs list \<Rightarrow> obs list list" where
  "past h = rev (map (\<lambda>n. take (Suc n) h) [0..<length h])"

definition spec_time :: "int \<Rightarrow> string \<Rightarrow> obs list \<Rightarrow> int" where
  "spec_time tmo ty h =
     ob_now (last (last (takeWhile (\<lambda>g. spec_status tmo ty g = spec_status tmo ty h) (past h))))"

abbreviation condition_types :: "string list" where
  "condition_types \<equiv> [''Ready'', ''Progressing'', ''Degraded'', ''BackupReady'']"

definition spec_report :: "int \<Rightarrow> obs list \<Rightarrow> (string \<times> ConditionStatus \<times> int) list" where
  "spec_report tmo h = map (\<lambda>ty. (ty, spec_status tmo ty h, spec_time tmo ty h)) condition_types"

datatype track_op = TReport string obs | TForget string

definition report :: "string \<Rightarrow> obs \<Rightarrow> conditionTracker \<Rightarrow> Condition list \<times> conditionTracker" where
  "report i x = computeAppConditions i (ob_status x) (ob_generation x) (ob_observed x) (ob_now x)"

fun track_exec :: "track_op \<Rightarrow> conditionTracker \<Rightarrow> conditionTracker" where
  "track_exec (TReport i x) t = snd (report i x t)"
| "track_exec (TForget i) t = forget i t"

fun track_step :: "string \<Rightarrow> track_op \<Rightarrow> obs list \<Rightarrow> obs list" where
  "track_step i (TReport j x) h = (if j = i then h @ [x] else h)"
| "track_step i (TForget j) h = (if j = i then [] else h)"

text \<open>The reports of \<open>i\<close> since it was last forgotten.\<close>

definition history :: "string \<Rightarrow> track_op list \<Rightarrow> obs list" where
  "history i ops = fold (track_step i) ops []"

section \<open>Histories grow at the end\<close>

lemma since_progress_snoc:
  "in_progress x \<Longrightarrow>
   since_progress (h @ [x]) = (if h \<noteq> [] \<and> in_progress (last h) then since_progress h else ob_now x)"
  by (cases h rule: rev_cases) (auto simp: since_progress_def)

lemma past_snoc: "past (h @ [x]) = (h @ [x]) # past h"
  by (simp add: past_def)

lemma past_Nil [simp]: "past [] = []"
  by (simp add: past_def)

lemma past_hd: "h \<noteq> [] \<Longrightarrow> past h = h # past (butlast h)"
  using past_snoc [of "butlast h" "last h"] by simp

lemma spec_time_snoc:
  "spec_time tmo ty (h @ [x]) =
     (if h \<noteq> [] \<and> spec_status tmo ty h = spec_status tmo ty (h @ [x]) then spec_time tmo ty h else ob_now x)"
  by (cases "h = []") (auto simp: spec_time_def past_snoc [of h x] past_hd)

section \<open>The tracker refines the contract\<close>

definition tracks :: "int \<Rightarrow> obs list \<Rightarrow> Condition gomap \<Rightarrow> bool" where
  "tracks tmo h m \<longleftrightarrow>
     (\<forall>ty \<in> set condition_types. \<exists>c. gm_get m ty = Some c \<and> c_Status c = spec_status tmo ty h \<and>
        c_LastTransitionTime c = spec_time tmo ty h)"

definition track_inv :: "int \<Rightarrow> (string \<Rightarrow> obs list) \<Rightarrow> conditionTracker \<Rightarrow> bool" where
  "track_inv tmo H t \<longleftrightarrow> ct_progressingTimeout t = tmo \<and>
     (\<forall>i. gm_get (ct_progressingStart t) i =
            (if H i \<noteq> [] \<and> in_progress (last (H i)) then Some (since_progress (H i)) else None)) \<and>
     (\<forall>i. if H i = [] then gm_get (ct_m t) i = None
          else \<exists>m. gm_get (ct_m t) i = Some m \<and> tracks tmo (H i) m)"

lemma condition_sel [simp]:
  "c_Type (condition ty st r) = ty" "c_Status (condition ty st r) = st"
  by (simp_all add: condition_def)

text \<open>The raw conditions of a report, before the timeout.\<close>

lemma status_conditions_spec:
  assumes "status_conditions st = (rd, pg, dg)"
  shows "c_Type rd = ''Ready''" "c_Type pg = ''Progressing''" "c_Type dg = ''Degraded''"
    and "c_Status rd = (if st = StatusRunning then ConditionStatusTrue
           else if st = StatusUnknown then ConditionStatusUnknown else ConditionStatusFalse)"
    and "c_Status pg = (if st = StatusStarting then ConditionStatusTrue
           else if st = StatusUnknown then ConditionStatusUnknown else ConditionStatusFalse)"
    and "c_Status dg = (if failed_status st then ConditionStatusTrue
           else if st = StatusUnknown then ConditionStatusUnknown else ConditionStatusFalse)"
  using assms by (cases st; auto simp: failed_status_def)+

text \<open>The loop over four conditions of different types, each stamped against what was stored before.\<close>

lemma transition_loop_spec:
  assumes "distinct (map c_Type cs)" and "transition_loop now cs cur = (out, cur')"
  shows "map c_Type out = map c_Type cs \<and> map c_Status out = map c_Status cs \<and>
    (\<forall>c \<in> set out. c_LastTransitionTime c =
       (case gm_get cur (c_Type c) of
          None \<Rightarrow> now
        | Some p \<Rightarrow> if c_Status p \<noteq> c_Status c then now else c_LastTransitionTime p)) \<and>
    (\<forall>c \<in> set out. gm_get cur' (c_Type c) = Some c) \<and>
    (\<forall>ty. ty \<notin> set (map c_Type cs) \<longrightarrow> gm_get cur' ty = gm_get cur ty)"
  using assms
proof (induction now cs cur arbitrary: out cur' rule: transition_loop.induct)
  case (1 now cur)
  then show ?case by simp
next
  case (2 now c cs cur)
  define c' where "c' = c\<lparr>c_LastTransitionTime :=
    (case gm_get cur (c_Type c) of None \<Rightarrow> now
     | Some prev \<Rightarrow> if c_Status prev \<noteq> c_Status c then now else c_LastTransitionTime prev)\<rparr>"
  obtain o1 u1 where l: "transition_loop now cs (gm_set (c_Type c) c' cur) = (o1, u1)" by (metis surj_pair)
  with 2(3) have eq: "out = c' # o1" "cur' = u1" by (auto simp: c'_def)
  have d: "distinct (map c_Type cs)" "c_Type c \<notin> set (map c_Type cs)" using 2(2) by auto
  have ih: "map c_Type o1 = map c_Type cs \<and> map c_Status o1 = map c_Status cs \<and>
    (\<forall>x \<in> set o1. c_LastTransitionTime x =
       (case gm_get (gm_set (c_Type c) c' cur) (c_Type x) of None \<Rightarrow> now
        | Some p \<Rightarrow> if c_Status p \<noteq> c_Status x then now else c_LastTransitionTime p)) \<and>
    (\<forall>x \<in> set o1. gm_get u1 (c_Type x) = Some x) \<and>
    (\<forall>ty. ty \<notin> set (map c_Type cs) \<longrightarrow> gm_get u1 ty = gm_get (gm_set (c_Type c) c' cur) ty)"
    by (rule 2(1)) (use d l c'_def in auto)
  have ty': "c_Type c' = c_Type c" "c_Status c' = c_Status c" by (simp_all add: c'_def)
  have ne: "x \<in> set o1 \<Longrightarrow> c_Type x \<noteq> c_Type c" for x
    using ih d(2) by (metis image_eqI list.set_map)
  show ?case
    using ih d(2) ne ty' unfolding eq
    by (auto simp: c'_def split: option.splits)
qed

lemma since_progress_single: "in_progress x \<Longrightarrow> since_progress [x] = ob_now x"
  by (simp add: since_progress_def)

lemma Sub_same [simp]: "Sub t t = 0"
  by (simp add: Sub_def)

lemma timed_out_snoc:
  "0 \<le> tmo \<Longrightarrow> timed_out tmo (h @ [x]) \<longleftrightarrow>
     in_progress x \<and> h \<noteq> [] \<and> in_progress (last h) \<and> Sub (ob_now x) (since_progress h) > tmo"
  by (cases "h \<noteq> [] \<and> in_progress (last h)")
    (auto simp: timed_out_def since_progress_snoc [of x h] since_progress_single)

text \<open>The timeout step: the conditions get the statuses of the contract, and the anchor follows the history.\<close>

lemma timeout_step:
  assumes inv: "track_inv tmo H t" and tmo: "0 \<le> tmo"
    and st: "status_conditions (ob_status x) = (rd, pg, dg)"
    and pg1: "pg1 = (if ob_observed x < ob_generation x
                     then pg\<lparr>c_Status := ConditionStatusTrue, c_Reason := ''DeployInFlight''\<rparr> else pg)"
    and ap: "applyProgressingTimeout i pg1 dg (ob_now x) t = (pg2, dg2, t1)"
  shows "c_Type pg2 = ''Progressing'' \<and> c_Type dg2 = ''Degraded'' \<and>
    c_Status rd = spec_status tmo ''Ready'' (H i @ [x]) \<and>
    c_Status pg2 = spec_status tmo ''Progressing'' (H i @ [x]) \<and>
    c_Status dg2 = spec_status tmo ''Degraded'' (H i @ [x]) \<and>
    ct_m t1 = ct_m t \<and> ct_progressingTimeout t1 = tmo \<and>
    gm_get (ct_progressingStart t1) =
      (gm_get (ct_progressingStart t))(i := (if in_progress x then Some (since_progress (H i @ [x])) else None))"
proof -
  note raw = status_conditions_spec [OF st]
  have p1: "c_Type pg1 = ''Progressing''" "c_Status pg1 = ConditionStatusTrue \<longleftrightarrow> in_progress x"
    "\<not> in_progress x \<Longrightarrow> c_Status pg1 = (if ob_status x = StatusUnknown then ConditionStatusUnknown else ConditionStatusFalse)"
    using raw by (auto simp: pg1 in_progress_def)
  have start: "gm_get (ct_progressingStart t) i =
      (if H i \<noteq> [] \<and> in_progress (last (H i)) then Some (since_progress (H i)) else None)"
    and tm: "ct_progressingTimeout t = tmo" using inv by (simp_all add: track_inv_def)
  show ?thesis
  proof (cases "in_progress x")
    case False
    with ap p1 have "pg2 = pg1" "dg2 = dg" "t1 = t\<lparr>ct_progressingStart := gm_del i (ct_progressingStart t)\<rparr>"
      by (simp_all add: applyProgressingTimeout_def)
    with False p1 raw tm tmo show ?thesis
      by (auto simp: spec_status_def Let_def timed_out_snoc)
  next
    case True
    show ?thesis
    proof (cases "H i \<noteq> [] \<and> in_progress (last (H i))")
      case fresh: False
      with True ap p1 start have "pg2 = pg1" "dg2 = dg"
        "t1 = t\<lparr>ct_progressingStart := gm_set i (ob_now x) (ct_progressingStart t)\<rparr>"
        by (simp_all add: applyProgressingTimeout_def)
      with True fresh p1 raw tm tmo show ?thesis
        by (auto simp: spec_status_def Let_def timed_out_snoc since_progress_snoc)
    next
      case anchored: True
      with start have sm: "gm_get (ct_progressingStart t) i = Some (since_progress (H i))" by simp
      then have keep: "(gm_get (ct_progressingStart t))(i := Some (since_progress (H i))) = gm_get (ct_progressingStart t)"
        by (simp add: fun_upd_idem)
      have t1: "t1 = t" using ap p1 True sm by (auto simp: applyProgressingTimeout_def split: if_splits)
      have "if Sub (ob_now x) (since_progress (H i)) \<le> tmo then pg2 = pg1 \<and> dg2 = dg
            else pg2 = pg1\<lparr>c_Status := ConditionStatusFalse, c_Reason := ''DeployTimeout''\<rparr> \<and>
                 dg2 = dg\<lparr>c_Status := ConditionStatusTrue, c_Reason := ''DeployTimeout''\<rparr>"
        using ap p1 True sm tm by (auto simp: applyProgressingTimeout_def split: if_splits)
      with True anchored p1 raw tm tmo keep show ?thesis unfolding t1
        by (auto simp: spec_status_def Let_def timed_out_snoc since_progress_snoc split: if_splits)
    qed
  qed
qed

text \<open>
  The loop stamps conditions whose statuses are those of the contract with the times of the contract,
  when what it finds stored is the report before.
\<close>

lemma stamps_refine:
  assumes tl: "transition_loop (ob_now x) cs cur = (out, m)"
    and tys: "map c_Type cs = condition_types"
    and sts: "map c_Status cs = map (\<lambda>ty. spec_status tmo ty (h @ [x])) condition_types"
    and old: "if h = [] then cur = [] else tracks tmo h cur"
  shows "map (\<lambda>c. (c_Type c, c_Status c, c_LastTransitionTime c)) out = spec_report tmo (h @ [x])"
    and "tracks tmo (h @ [x]) m"
proof -
  have loop: "map c_Type out = condition_types" "map c_Status out = map (\<lambda>ty. spec_status tmo ty (h @ [x])) condition_types"
    "\<forall>c \<in> set out. c_LastTransitionTime c =
       (case gm_get cur (c_Type c) of None \<Rightarrow> ob_now x
        | Some p \<Rightarrow> if c_Status p \<noteq> c_Status c then ob_now x else c_LastTransitionTime p)"
    "\<forall>c \<in> set out. gm_get m (c_Type c) = Some c"
    using transition_loop_spec [OF _ tl] tys sts by simp_all
  have prev: "ty \<in> set condition_types \<Longrightarrow> (if h = [] then gm_get cur ty = None
       else \<exists>p. gm_get cur ty = Some p \<and> c_Status p = spec_status tmo ty h \<and> c_LastTransitionTime p = spec_time tmo ty h)" for ty
    using old unfolding tracks_def by (metis map_of.simps(1))
  have each: "c_Status c = spec_status tmo (c_Type c) (h @ [x]) \<and> c_LastTransitionTime c = spec_time tmo (c_Type c) (h @ [x])"
    if c: "c \<in> set out" for c
  proof -
    have ty: "c_Type c \<in> set condition_types" using c loop(1) by (metis image_eqI list.set_map)
    have "map c_Status out = map (\<lambda>c. spec_status tmo (c_Type c) (h @ [x])) out"
      using loop(1,2) by (metis (no_types, lifting) comp_apply map_eq_conv map_map)
    with c have s: "c_Status c = spec_status tmo (c_Type c) (h @ [x])" by (metis map_eq_conv)
    then show ?thesis
      using loop(3) c prev [OF ty] by (auto simp: spec_time_snoc split: if_splits)
  qed
  have "map (\<lambda>c. (c_Type c, c_Status c, c_LastTransitionTime c)) out =
        map (\<lambda>ty. (ty, spec_status tmo ty (h @ [x]), spec_time tmo ty (h @ [x]))) (map c_Type out)"
    using each by simp
  then show "map (\<lambda>c. (c_Type c, c_Status c, c_LastTransitionTime c)) out = spec_report tmo (h @ [x])"
    unfolding loop(1) spec_report_def .
  show "tracks tmo (h @ [x]) m"
    unfolding tracks_def loop(1) [symmetric] using loop(4) each by auto
qed

text \<open>A report of one app: what it says, and that the tracker follows the longer history.\<close>

lemma report_refines:
  assumes inv: "track_inv tmo H t" and tmo: "0 \<le> tmo" and rep: "report i x t = (out, t')"
  shows "map (\<lambda>c. (c_Type c, c_Status c, c_LastTransitionTime c)) out = spec_report tmo (H i @ [x])"
    and "track_inv tmo (H(i := H i @ [x])) t'"
proof -
  obtain rd pg dg where st: "status_conditions (ob_status x) = (rd, pg, dg)" by (metis surj_pair)
  define pg1 where "pg1 = (if ob_observed x < ob_generation x
    then pg\<lparr>c_Status := ConditionStatusTrue, c_Reason := ''DeployInFlight''\<rparr> else pg)"
  obtain pg2 dg2 t1 where ap: "applyProgressingTimeout i pg1 dg (ob_now x) t = (pg2, dg2, t1)" by (metis surj_pair)
  note step = timeout_step [OF inv tmo st pg1_def ap]
  define bk where "bk = condition ''BackupReady'' ConditionStatusUnknown ''NotConfigured''"
  define cur where "cur = (case gm_get (ct_m t1) i of None \<Rightarrow> [] | Some m \<Rightarrow> m)"
  obtain o1 m1 where tl: "transition_loop (ob_now x) [rd, pg2, dg2, bk] cur = (o1, m1)" by (metis surj_pair)
  have out: "out = o1" "t' = t1\<lparr>ct_m := gm_set i m1 (ct_m t1)\<rparr>"
    using rep unfolding report_def computeAppConditions_def applyTransitionTimes_def Let_def st prod.case
      ap [unfolded pg1_def] tl [unfolded cur_def bk_def] by simp_all
  have old: "if H i = [] then cur = [] else tracks tmo (H i) cur"
  proof (cases "H i = []")
    case True
    then have "gm_get (ct_m t) i = None" using inv by (simp add: track_inv_def)
    then show ?thesis using step True by (simp add: cur_def)
  next
    case False
    then obtain m where "gm_get (ct_m t) i = Some m" "tracks tmo (H i) m" using inv unfolding track_inv_def by metis
    then show ?thesis using step False by (simp add: cur_def)
  qed
  have tys: "map c_Type [rd, pg2, dg2, bk] = condition_types"
    using step status_conditions_spec(1) [OF st] by (simp add: bk_def)
  have "c_Status bk = spec_status tmo ''BackupReady'' (H i @ [x])" by (simp add: bk_def spec_status_def Let_def)
  then have sts: "map c_Status [rd, pg2, dg2, bk] = map (\<lambda>ty. spec_status tmo ty (H i @ [x])) condition_types"
    using step by simp
  note stamped = stamps_refine [OF tl tys sts old]
  show "map (\<lambda>c. (c_Type c, c_Status c, c_LastTransitionTime c)) out = spec_report tmo (H i @ [x])"
    using stamped(1) out by simp
  have "gm_get (ct_m t') = (gm_get (ct_m t))(i \<mapsto> m1)" "ct_progressingTimeout t' = tmo"
    "gm_get (ct_progressingStart t') = (gm_get (ct_progressingStart t))
       (i := (if in_progress x then Some (since_progress (H i @ [x])) else None))"
    using step by (simp_all add: out)
  with stamped(2) inv show "track_inv tmo (H(i := H i @ [x])) t'"
    unfolding track_inv_def by simp
qed

lemma forget_refines: "track_inv tmo H t \<Longrightarrow> track_inv tmo (H(i := [])) (forget i t)"
  by (simp add: track_inv_def forget_def)

lemma track_exec_refines:
  assumes "track_inv tmo H t" and "0 \<le> tmo"
  shows "track_inv tmo (\<lambda>i. track_step i op (H i)) (track_exec op t)"
proof (cases op)
  case (TReport i x)
  have "(\<lambda>j. track_step j op (H j)) = H(i := H i @ [x])" by (auto simp: TReport)
  then show ?thesis
    using report_refines(2) [OF assms, of i x] by (metis TReport surj_pair snd_conv track_exec.simps(1))
next
  case (TForget i)
  have "(\<lambda>j. track_step j op (H j)) = H(i := [])" by (auto simp: TForget)
  then show ?thesis using forget_refines [OF assms(1)] TForget by simp
qed

lemma track_run:
  assumes "track_inv tmo H t" and "0 \<le> tmo"
  shows "track_inv tmo (\<lambda>i. fold (track_step i) ops (H i)) (fold track_exec ops t)"
  using assms(1)
proof (induction ops arbitrary: H t)
  case Nil
  then show ?case by simp
next
  case (Cons op ops)
  show ?case using Cons.IH [OF track_exec_refines [OF Cons.prems assms(2)]] by simp
qed

lemma track_init: "track_inv defaultProgressingTimeout (\<lambda>_. []) newConditionTracker"
  by (simp add: track_inv_def newConditionTracker_def)

section \<open>Properties\<close>

text \<open>
  C24: After any interleaving of reports and forgets of any apps, a report of an app shows exactly what
  its own history since the last forget determines: Ready is True iff the process runs; Progressing is
  True while a start or a deploy is in flight, until it has been so for more than five minutes of
  reports, and then Degraded is True instead; and each condition carries the time of the first report
  of the current block of reports with its status.
\<close>

theorem conditions_refine_history:
  "map (\<lambda>c. (c_Type c, c_Status c, c_LastTransitionTime c))
     (fst (report i x (fold track_exec ops newConditionTracker))) =
   spec_report defaultProgressingTimeout (history i ops @ [x])"
proof -
  have "0 \<le> defaultProgressingTimeout" by (simp add: defaultProgressingTimeout_def)
  from report_refines(1) [OF track_run [OF track_init this] this] show ?thesis
    by (metis history_def surj_pair fst_conv)
qed

end
