(* ===== verification/Admin_Server.thy ===== *)
theory Admin_Server
  imports Sup_Mounts Admin_Convert Admin_Conditions
begin

text \<open>
  \<open>internal/adminapi/server.go\<close> and \<open>cas.go\<close>: the HTTP handlers, which call the supervisor, the router and
  the store one after the other, and the middlewares around them. A handler takes the outcomes of
  the calls it makes, and what the other goroutines do to the supervisor in between (\<open>env\<close>), and
  returns the response, or \<open>None\<close> when it never answers because a Stop waits forever. The body of a
  request arrives decoded, its parameters parsed (what the generated wrapper answers to a malformed
  parameter is \<open>handleParamError\<close>, outside the chain below). A request is one step here: another request
  that runs beside it is not a step of its own but part of \<open>env\<close>. The code serialises less than that:
  the middleware takes the app's lock only for the requests \<open>casApplies\<close> names and only when a store is
  configured, so a spawn, restart or reset of the same app can run beside them.
\<close>

section \<open>Requests and responses\<close>

record api_request =
  rq_Method :: string
  rq_Path :: string
  rq_Authorization :: string
  rq_IfMatch :: string
  rq_RemoteAddr :: string

datatype decode_error = BodyTooLarge | BodyBad

datatype api_body =
    BNone | BApp AppView | BApps "AppView list" | BRelease WireRelease | BVolume VolumeView
  | BVolumes "VolumeView list" | BEnvelope AppView AppMetadata "Condition list" | BHostkey string string
  | BError string

record api_response =
  rsp_Status :: int
  rsp_Body :: api_body
  rsp_ETag :: "string option"
  rsp_Warnings :: "string list"

definition writeJSON :: "int \<Rightarrow> api_body \<Rightarrow> api_response" where
  "writeJSON status body = \<lparr>rsp_Status = status, rsp_Body = body, rsp_ETag = None, rsp_Warnings = []\<rparr>"

definition writeError :: "int \<Rightarrow> string \<Rightarrow> api_response" where
  "writeError status code = writeJSON status (BError code)"

definition writeDecodeError :: "decode_error \<Rightarrow> api_response" where
  "writeDecodeError e =
     (case e of BodyTooLarge \<Rightarrow> writeError 413 ''request_too_large'' | BodyBad \<Rightarrow> writeError 400 ''bad_request'')"

definition writeStoreError :: "store_error \<Rightarrow> api_response" where
  "writeStoreError e =
     (case e of StFlush (FStorageCorrupted _ _) \<Rightarrow> writeError 503 ''storage_corrupted'' | _ \<Rightarrow> writeError 500 ''internal'')"

definition validatePort :: "int \<Rightarrow> bool" where
  "validatePort p \<longleftrightarrow> \<not> (p = 0 \<or> p < 1 \<or> p > 65535)"

section \<open>The server\<close>

text \<open>The functions of packages outside the repository: URL parsing, the text of an address, SHA-256 of
  a file and of a string, UUID parsing and the name-based UUID, and the JSON encoder of the audit log.\<close>

record api_ext =
  ex_url_ok :: "string \<Rightarrow> bool"
  ex_ip_str :: "ip \<Rightarrow> string"
  ex_sha :: "bytes \<Rightarrow> string"
  ex_shas :: "string \<Rightarrow> string"
  ex_uuid_parse :: "string \<Rightarrow> string"
  ex_uuid_name :: "string \<Rightarrow> string"
  ex_enc :: "AuditEntry \<Rightarrow> string option"

record Server =
  sv_sup :: Supervisor
  sv_volumes :: "SupVolume gomap"
  sv_router :: "Router option"
  sv_token :: string
  sv_store :: "Store option"
  sv_audit :: "AuditLogger option"
  sv_hostkey :: "(string \<times> string) option"
  sv_conditions :: conditionTracker

type_synonym handler = "Server \<Rightarrow> api_response option \<times> Server"

section \<open>Authentication\<close>

abbreviation bearer :: string where "bearer \<equiv> ''Bearer ''"

definition extractToken :: "api_request \<Rightarrow> string" where
  "extractToken r = (if HasPrefix (rq_Authorization r) bearer then drop (length bearer) (rq_Authorization r) else [])"

definition checkBearer :: "Server \<Rightarrow> api_request \<Rightarrow> bool" where
  "checkBearer s r \<longleftrightarrow>
     HasPrefix (rq_Authorization r) bearer \<and> drop (length bearer) (rq_Authorization r) = sv_token s"

definition isPublicPath :: "string \<Rightarrow> bool" where
  "isPublicPath path \<longleftrightarrow> path = ''/v1/hostkey''"

definition unauthorized :: api_response where
  "unauthorized = writeError 401 ''unauthorized''"

definition authMiddleware :: "api_request \<Rightarrow> handler \<Rightarrow> handler" where
  "authMiddleware r next s =
     (if isPublicPath (rq_Path r) then next s
      else if sv_token s \<noteq> [] \<and> \<not> checkBearer s r then (Some unauthorized, s)
      else next s)"

definition guardFunc :: "api_request \<Rightarrow> handler \<Rightarrow> handler" where
  "guardFunc r h s = (if sv_token s \<noteq> [] \<and> \<not> checkBearer s r then (Some unauthorized, s) else h s)"

section \<open>Audit\<close>

text \<open>\<open>ts\<close> and \<open>ms\<close>: the formatted start time and the duration.\<close>

definition audit_entry :: "api_ext \<Rightarrow> api_request \<Rightarrow> string \<Rightarrow> int \<Rightarrow> int \<Rightarrow> AuditEntry" where
  "audit_entry x r ts status ms = \<lparr>ae_PrevSHA256 = [], ae_Timestamp = ts, ae_Method = rq_Method r, ae_Path = rq_Path r,
     ae_AppID = extractAppID (rq_Path r), ae_Action = actionFromRequest (rq_Method r) (rq_Path r),
     ae_Actor = hashToken (ex_shas x) (extractToken r), ae_StatusCode = status, ae_DurationMS = ms,
     ae_SourceIP = rq_RemoteAddr r\<rparr>"

definition audit_log :: "api_ext \<Rightarrow> log_io \<Rightarrow> AuditEntry \<Rightarrow> Server \<Rightarrow> Server" where
  "audit_log x io e s = s\<lparr>sv_audit := map_option (Log (ex_shas x) (ex_enc x) io e) (sv_audit s)\<rparr>"

definition auditMiddleware :: "api_ext \<Rightarrow> log_io \<Rightarrow> string \<Rightarrow> int \<Rightarrow> api_request \<Rightarrow> handler \<Rightarrow> handler" where
  "auditMiddleware x io ts ms r next s =
     (if sv_audit s = None \<or> \<not> isMutating (rq_Method r) then next s
      else case next s of
        (None, s1) \<Rightarrow> (None, s1)
      | (Some rsp, s1) \<Rightarrow> (Some rsp, audit_log x io (audit_entry x r ts (rsp_Status rsp) ms) s1))"

definition emitAuditOnEarlyError :: "api_ext \<Rightarrow> log_io \<Rightarrow> string \<Rightarrow> api_request \<Rightarrow> int \<Rightarrow> Server \<Rightarrow> Server" where
  "emitAuditOnEarlyError x io ts r status s =
     (if sv_audit s = None \<or> \<not> isMutating (rq_Method r) then s
      else audit_log x io (audit_entry x r ts status 0) s)"

definition handleParamError :: "api_ext \<Rightarrow> log_io \<Rightarrow> string \<Rightarrow> api_request \<Rightarrow> handler" where
  "handleParamError x io ts r s =
     (if sv_token s \<noteq> [] \<and> \<not> checkBearer s r then (Some unauthorized, emitAuditOnEarlyError x io ts r 401 s)
      else (Some (writeError 400 ''bad_request''), emitAuditOnEarlyError x io ts r 400 s))"

section \<open>Compare and swap\<close>

definition Trim :: "char \<Rightarrow> string \<Rightarrow> string" where
  "Trim c s = rev (dropWhile (\<lambda>x. x = c) (rev (dropWhile (\<lambda>x. x = c) s)))"

definition casApplies :: "api_request \<Rightarrow> bool" where
  "casApplies r \<longleftrightarrow>
     (let path = rq_Path r; m = rq_Method r in
      if m = ''DELETE'' then HasPrefix path ''/v1/apps/'' \<and> extractAppID path \<noteq> []
      else if m = ''POST''
      then extractAppID path \<noteq> [] \<and> (HasSuffix path ''/deploy'' \<or> HasSuffix path ''/rollback'')
      else if m = ''PUT'' \<or> m = ''PATCH'' then HasPrefix path ''/v1/apps/'' \<and> extractAppID path \<noteq> []
      else False)"

definition writePreconditionFailed :: "string \<Rightarrow> api_response" where
  "writePreconditionFailed currentRV =
     (writeError 412 ''resource_version_mismatch'')\<lparr>rsp_ETag := Some (CHR 0x22 # currentRV @ [CHR 0x22])\<rparr>"

definition add_warning :: "string \<Rightarrow> api_response option \<times> Server \<Rightarrow> api_response option \<times> Server" where
  "add_warning w res = (map_option (\<lambda>rsp. rsp\<lparr>rsp_Warnings := w # rsp_Warnings rsp\<rparr>) (fst res), snd res)"

definition casMiddleware :: "api_request \<Rightarrow> handler \<Rightarrow> handler" where
  "casMiddleware r next s =
     (if \<not> casApplies r then next s
      else
        let i = extractAppID (rq_Path r); ifMatch = TrimSpace (rq_IfMatch r) in
        if i = [] then next s
        else if ifMatch = [] then add_warning ''299 - \"unconditional-write\"'' (next s)
        else case sv_store s of
          None \<Rightarrow> next s
        | Some st \<Rightarrow>
            (case Meta st i of
               None \<Rightarrow> next s
             | Some meta \<Rightarrow>
                 let currentRV = FormatUint (nat (md_ResourceVersion meta)) in
                 if Trim (CHR 0x22) ifMatch \<noteq> currentRV then (Some (writePreconditionFailed currentRV), s)
                 else next s))"

section \<open>Apps\<close>

text \<open>
  \<open>stop_call\<close> is \<open>sup.Stop\<close>: \<open>StopWithTimeout\<close> with the configured grace period. Between two calls of a
  handler the other goroutines may run (\<open>env\<close>).
\<close>

record call_io =
  ci_env :: "Supervisor \<Rightarrow> Supervisor"
  ci_deploy :: deploy_env
  ci_stop :: stop_io
  ci_stop_env :: "Supervisor \<Rightarrow> Supervisor"
  ci_flush :: flush_io
  ci_uuid :: "string option"
  ci_flush2 :: flush_io
  ci_uuid2 :: string
  ci_now :: int

definition stop_call :: "call_io \<Rightarrow> string \<Rightarrow> Supervisor \<Rightarrow> (stop_error + bool) \<times> Supervisor" where
  "stop_call io i s = StopWithTimeout (ci_stop io) i (GracefulShutdownTimeout (sp_opts s)) (ci_stop_env io) s"

definition mapSpawnError :: "spawn_error \<Rightarrow> api_response" where
  "mapSpawnError e =
     (case e of
        SpAlreadyRunning _ \<Rightarrow> writeError 409 ''already_running''
      | SpInvalidID _ \<Rightarrow> writeError 400 ''invalid_id''
      | _ \<Rightarrow> writeError 400 ''bad_request'')"

definition net_host :: "api_ext \<Rightarrow> App \<Rightarrow> string" where
  "net_host x app = (case a_NetIP app of None \<Rightarrow> [] | Some p \<Rightarrow> ex_ip_str x p)"

definition route_app ::
  "api_ext \<Rightarrow> string \<Rightarrow> App \<Rightarrow> int \<Rightarrow> Router option \<Rightarrow> dispatch_error option \<times> Router option"
where
  "route_app x i app port router =
     (case router of
        None \<Rightarrow> (None, None)
      | Some r \<Rightarrow> let (e, r') = SetAddr (ex_url_ok x) i (net_host x app) port r in (e, Some r'))"

definition unroute :: "string \<Rightarrow> Router option \<Rightarrow> Router option" where
  "unroute i router = map_option (\<lambda>r. snd (Remove i r)) router"

definition with_identity :: "App \<Rightarrow> Config \<Rightarrow> Config" where
  "with_identity app cfg = cfg\<lparr>cfg_RunAs := a_runAs app, cfg_RunAsRoot := a_runAsRoot app\<rparr>"

text \<open>\<open>undo_spawn\<close>: the \<open>_ = s.sup.Stop(req.Id)\<close> of the error paths, whose error is ignored but which may
  wait forever.\<close>

definition undo_spawn :: "call_io \<Rightarrow> string \<Rightarrow> api_response \<Rightarrow> (Server \<Rightarrow> Server) \<Rightarrow> handler" where
  "undo_spawn io i rsp k s =
     (case stop_call io i (sv_sup s) of
        (Inr False, su) \<Rightarrow> (None, s\<lparr>sv_sup := su\<rparr>)
      | (_, su) \<Rightarrow> (Some rsp, k (s\<lparr>sv_sup := su\<rparr>)))"

definition SpawnApp :: "api_ext \<Rightarrow> spawn_io \<Rightarrow> call_io \<Rightarrow> decode_error + SpawnRequest \<Rightarrow> handler" where
  "SpawnApp x sio io body s =
     (case body of
        Inl e \<Rightarrow> (Some (writeDecodeError e), s)
      | Inr req \<Rightarrow>
          if ValidateID (sr_Id req) \<noteq> None then (Some (writeError 400 ''bad_request''), s)
          else if \<not> validatePort (sr_Port req) then (Some (writeError 400 ''bad_request''), s)
          else case spawnToConfig req of
            Inl _ \<Rightarrow> (Some (writeError 400 ''bad_request''), s)
          | Inr cfg \<Rightarrow>
              (case Spawn sio cfg (sv_sup s) of
                 (Inl e, su) \<Rightarrow> (Some (mapSpawnError e), s\<lparr>sv_sup := su\<rparr>)
               | (Inr a, sup1) \<Rightarrow>
                   let app = app_at sup1 a;
                       s1 = s\<lparr>sv_sup := ci_env io sup1\<rparr>;
                       (rerr, router') = route_app x (sr_Id req) app (sr_Port req) (sv_router s)
                   in
                   if rerr \<noteq> None
                   then undo_spawn io (sr_Id req) (writeError 400 ''bad_request'') (\<lambda>t. t) s1
                   else
                     let s2 = s1\<lparr>sv_router := router'\<rparr>;
                         view = BApp (appToView (ci_now io) (ex_ip_str x) (app_at (sv_sup s1) a))
                     in
                     (case sv_store s of
                        None \<Rightarrow> (Some (writeJSON 201 view), s2)
                      | Some st \<Rightarrow>
                          (case AddApp (ex_sha x) (ci_flush io) (ci_uuid io) (with_identity app cfg) st of
                             (None, st') \<Rightarrow> (Some (writeJSON 201 view), s2\<lparr>sv_store := Some st'\<rparr>)
                           | (Some e, st') \<Rightarrow>
                               undo_spawn io (sr_Id req) (writeStoreError e)
                                 (\<lambda>t. t\<lparr>sv_router := unroute (sr_Id req) (sv_router t)\<rparr>)
                                 (s2\<lparr>sv_store := Some st'\<rparr>)))))"

definition sup_List :: "Supervisor \<Rightarrow> App list" where
  "sup_List s = map (\<lambda>(i, a). app_at s a) (sp_apps s)"

definition sup_Get :: "Supervisor \<Rightarrow> string \<Rightarrow> App option" where
  "sup_Get s i = map_option (app_at s) (gm_get (sp_apps s) i)"

definition ListApps :: "api_ext \<Rightarrow> int \<Rightarrow> handler" where
  "ListApps x now s = (Some (writeJSON 200 (BApps (map (appToView now (ex_ip_str x)) (sup_List (sv_sup s))))), s)"

definition GetHostkey :: handler where
  "GetHostkey s =
     (case sv_hostkey s of
        None \<Rightarrow> (Some (writeError 503 ''internal''), s)
      | Some (pub, fpr) \<Rightarrow> (Some (writeJSON 200 (BHostkey pub fpr)), s))"

definition ephemeralMetadata :: "api_ext \<Rightarrow> string \<Rightarrow> int \<Rightarrow> AppMetadata" where
  "ephemeralMetadata x i startedAt = \<lparr>md_UID = ex_uuid_name x (''creekd://app/'' @ i), md_Generation = 1,
     md_ObservedGeneration = 1, md_ResourceVersion = 1, md_CreationTimestamp = startedAt\<rparr>"

definition appToEnvelope ::
  "api_ext \<Rightarrow> int \<Rightarrow> App \<Rightarrow> AppMetadata \<Rightarrow> conditionTracker \<Rightarrow> api_body \<times> conditionTracker"
where
  "appToEnvelope x now app meta ct =
     (let (conds, ct') = computeAppConditions (a_ID app) (a_status app) (md_Generation meta)
            (md_ObservedGeneration meta) now ct
      in (BEnvelope (appToView now (ex_ip_str x) app) (meta\<lparr>md_UID := ex_uuid_parse x (md_UID meta)\<rparr>) conds, ct'))"

definition GetApp :: "api_ext \<Rightarrow> int \<Rightarrow> string \<Rightarrow> handler" where
  "GetApp x now i s =
     (case sup_Get (sv_sup s) i of
        None \<Rightarrow> (Some (writeError 404 ''not_found''), s)
      | Some app \<Rightarrow>
          let meta = (case sv_store s of
                        None \<Rightarrow> ephemeralMetadata x i (a_startedAt app)
                      | Some st \<Rightarrow> (case Meta st i of None \<Rightarrow> ephemeralMetadata x i (a_startedAt app) | Some m \<Rightarrow> m));
              (body, ct') = appToEnvelope x now app meta (sv_conditions s)
          in (Some (writeJSON 200 body), s\<lparr>sv_conditions := ct'\<rparr>))"

definition StopApp :: "api_ext \<Rightarrow> call_io \<Rightarrow> string \<Rightarrow> handler" where
  "StopApp x io i s =
     (case stop_call io i (sv_sup s) of
        (Inl (StopNotFound _), su) \<Rightarrow> (Some (writeError 404 ''not_found''), s\<lparr>sv_sup := su\<rparr>)
      | (Inl StopFailed, su) \<Rightarrow> (Some (writeError 500 ''internal''), s\<lparr>sv_sup := su\<rparr>)
      | (Inr False, su) \<Rightarrow> (None, s\<lparr>sv_sup := su\<rparr>)
      | (Inr True, su) \<Rightarrow>
          let s1 = s\<lparr>sv_sup := su, sv_router := unroute i (sv_router s)\<rparr>;
              (serr, store') = (case sv_store s of
                 None \<Rightarrow> (None, None)
               | Some st \<Rightarrow> let (e, st') = RemoveApp (ex_sha x) (ci_flush io) i st in (e, Some st'));
              s2 = s1\<lparr>sv_store := store'\<rparr>
          in case serr of
               Some e \<Rightarrow> (Some (writeStoreError e), s2)
             | None \<Rightarrow> (Some (writeJSON 204 BNone), s2\<lparr>sv_conditions := forget i (sv_conditions s)\<rparr>))"

section \<open>Deploy and rollback\<close>

definition deploy_response :: "deploy_error \<Rightarrow> api_response" where
  "deploy_response e =
     (case e of
        DepNotFound _ \<Rightarrow> writeError 404 ''not_found''
      | DepPortConflict _ \<Rightarrow> writeError 409 ''port_conflict''
      | DepWait WaitUnhealthy \<Rightarrow> writeError 502 ''deploy_unhealthy''
      | DepConflict \<Rightarrow> writeError 409 ''conflict''
      | _ \<Rightarrow> writeError 400 ''bad_request'')"

definition zero_ReleaseSpec :: ReleaseSpec where
  "zero_ReleaseSpec = \<lparr>rs_AppUID = [], rs_ReleaseSeq = 0, rs_GitSha = [], rs_Image = [], rs_EnvHash = [],
     rs_CreatedBy = [], rs_RolledBackFrom = 0, rs_OriginalArtifactRelease = 0, rs_ConfigSnapshot = None\<rparr>"

definition deploy_spec :: "api_ext \<Rightarrow> api_request \<Rightarrow> Config \<Rightarrow> ReleaseSpec" where
  "deploy_spec x r cfg = zero_ReleaseSpec\<lparr>rs_EnvHash := EnvHash (ex_shas x) (cfg_Env cfg),
     rs_CreatedBy := releaseActor (ex_shas x) (rq_Authorization r) (rq_RemoteAddr r), rs_ConfigSnapshot := Some cfg\<rparr>"

definition DeployApp ::
  "api_ext \<Rightarrow> deploy_io \<Rightarrow> call_io \<Rightarrow> api_request \<Rightarrow> string \<Rightarrow> decode_error + DeployRequest \<Rightarrow> handler"
where
  "DeployApp x dio io r i body s =
     (case body of
        Inl e \<Rightarrow> (Some (writeDecodeError e), s)
      | Inr req \<Rightarrow>
          if \<not> validatePort (dr_Port req) then (Some (writeError 400 ''bad_request''), s)
          else case deployToConfig i req of
            Inl _ \<Rightarrow> (Some (writeError 400 ''bad_request''), s)
          | Inr dcfg \<Rightarrow>
              (case Deploy (ex_url_ok x) (ex_ip_str x) dio dcfg (ci_deploy io) (sv_sup s) (sv_router s) of
                 (Inl e, su, router) \<Rightarrow> (Some (deploy_response e), s\<lparr>sv_sup := su, sv_router := router\<rparr>)
               | (Inr v2, su, router) \<Rightarrow>
                   let s1 = s\<lparr>sv_sup := su, sv_router := router\<rparr>;
                       cfg = with_identity (app_at su v2) (dc_Config dcfg);
                       ok = writeJSON 200 (BApp (appToView (ci_now io) (ex_ip_str x) (app_at su v2)))
                   in
                   (case sv_store s of
                      None \<Rightarrow> (Some ok, s1)
                    | Some st \<Rightarrow>
                        (case AddApp (ex_sha x) (ci_flush io) (ci_uuid io) cfg st of
                           (Some e, st1) \<Rightarrow> (Some (writeStoreError e), s1\<lparr>sv_store := Some st1\<rparr>)
                         | (None, st1) \<Rightarrow>
                             (case CreateRelease (ex_sha x) (ci_flush2 io) (ci_uuid2 io) i
                                     \<lparr>ri_Spec = deploy_spec x r cfg, ri_PriorActivePhase = []\<rparr> st1 of
                                (Inl _, st2) \<Rightarrow> (Some (writeError 500 ''internal''), s1\<lparr>sv_store := Some st2\<rparr>)
                              | (Inr _, st2) \<Rightarrow> (Some ok, s1\<lparr>sv_store := Some st2\<rparr>))))))"

definition rollback_response :: "deploy_error \<Rightarrow> api_response" where
  "rollback_response e =
     (case e of
        DepNotFound _ \<Rightarrow> writeError 404 ''not_found''
      | DepPortConflict _ \<Rightarrow> writeError 409 ''port_conflict''
      | DepWait WaitUnhealthy \<Rightarrow> writeError 502 ''deploy_unhealthy''
      | _ \<Rightarrow> writeError 500 ''internal'')"

definition rollback_spec :: "api_ext \<Rightarrow> api_request \<Rightarrow> Release \<Rightarrow> Config \<Rightarrow> ReleaseSpec" where
  "rollback_spec x r target cfg = zero_ReleaseSpec\<lparr>rs_GitSha := rs_GitSha (rel_Spec target),
     rs_Image := rs_Image (rel_Spec target), rs_EnvHash := EnvHash (ex_shas x) (cfg_Env cfg),
     rs_CreatedBy := releaseActor (ex_shas x) (rq_Authorization r) (rq_RemoteAddr r),
     rs_RolledBackFrom := rs_ReleaseSeq (rel_Spec target),
     rs_OriginalArtifactRelease := resolveOriginalArtifactRelease target, rs_ConfigSnapshot := Some cfg\<rparr>"

definition RollbackApp :: "api_ext \<Rightarrow> deploy_io \<Rightarrow> call_io \<Rightarrow> api_request \<Rightarrow> string \<Rightarrow> int \<Rightarrow> handler" where
  "RollbackApp x dio io r i to s =
     (case sv_store s of
        None \<Rightarrow> (Some (writeError 500 ''internal''), s)
      | Some st \<Rightarrow>
          if to \<le> 0 then (Some (writeError 400 ''bad_request''), s)
          else case FindRelease st i to of
            None \<Rightarrow> (Some (writeError 404 ''release_artifact_pruned''), s)
          | Some target \<Rightarrow>
              (case rs_ConfigSnapshot (rel_Spec target) of
                 None \<Rightarrow> (Some (writeError 404 ''release_artifact_pruned''), s)
               | Some snap \<Rightarrow>
                   let dcfg = \<lparr>dc_Config = snap\<lparr>cfg_ID := i\<rparr>, dc_ReadyTimeout = 0, dc_PollInterval = 0,
                               dc_GracefulV1Timeout = 0\<rparr>
                   in
                   (case Deploy (ex_url_ok x) (ex_ip_str x) dio dcfg (ci_deploy io) (sv_sup s) (sv_router s) of
                      (Inl e, su, router) \<Rightarrow> (Some (rollback_response e), s\<lparr>sv_sup := su, sv_router := router\<rparr>)
                    | (Inr v2, su, router) \<Rightarrow>
                        let s1 = s\<lparr>sv_sup := su, sv_router := router\<rparr>;
                            cfg = with_identity (app_at su v2) (dc_Config dcfg)
                        in
                        (case AddApp (ex_sha x) (ci_flush io) (ci_uuid io) cfg st of
                           (Some e, st1) \<Rightarrow> (Some (writeError 500 ''internal''), s1\<lparr>sv_store := Some st1\<rparr>)
                         | (None, st1) \<Rightarrow>
                             (case CreateRelease (ex_sha x) (ci_flush2 io) (ci_uuid2 io) i
                                     \<lparr>ri_Spec = rollback_spec x r target cfg,
                                      ri_PriorActivePhase = ReleasePhaseRolledBack\<rparr> st1 of
                                (Inl _, st2) \<Rightarrow> (Some (writeError 500 ''internal''), s1\<lparr>sv_store := Some st2\<rparr>)
                              | (Inr rel, st2) \<Rightarrow>
                                  (Some (writeJSON 200 (BRelease (releaseToWire (ex_uuid_parse x) rel))),
                                   s1\<lparr>sv_store := Some st2\<rparr>))))))"

section \<open>Operations\<close>

definition RestartApp ::
  "api_ext \<Rightarrow> bool \<Rightarrow> Supervisor list \<Rightarrow> int \<Rightarrow> string \<Rightarrow> decode_error option \<Rightarrow> handler"
where
  "RestartApp x signal_ok polls now i body s =
     (case body of
        Some e \<Rightarrow> (Some (writeDecodeError e), s)
      | None \<Rightarrow>
          (let s' = s\<lparr>sv_sup := last (sv_sup s # polls)\<rparr> in
           case Restart signal_ok polls i (sv_sup s) of
             Inl (RestartNotFound _) \<Rightarrow> (Some (writeError 404 ''not_found''), s')
           | Inl _ \<Rightarrow> (Some (writeError 500 ''internal''), s')
           | Inr a \<Rightarrow> (Some (writeJSON 200 (BApp (appToView now (ex_ip_str x) (app_at (sv_sup s') a)))), s')))"

definition ResetApp :: "api_ext \<Rightarrow> start_io \<Rightarrow> (Supervisor \<Rightarrow> Supervisor) \<Rightarrow> int \<Rightarrow> string \<Rightarrow> handler" where
  "ResetApp x sio env now i s =
     (let (err, su) = Reset sio i env (sv_sup s); s1 = s\<lparr>sv_sup := su\<rparr> in
      case err of
        Some (ResetNotFound _) \<Rightarrow> (Some (writeError 404 ''not_found''), s1)
      | Some ResetVanished \<Rightarrow> (Some (writeError 404 ''not_found''), s1)
      | Some ResetNotCrashLooping \<Rightarrow> (Some (writeError 409 ''conflict''), s1)
      | Some _ \<Rightarrow> (Some (writeError 500 ''internal''), s1)
      | None \<Rightarrow>
          (case sup_Get su i of
             Some app \<Rightarrow> (Some (writeJSON 200 (BApp (appToView now (ex_ip_str x) app))), s1)
           | None \<Rightarrow> (Some (writeJSON 204 BNone), s1)))"

section \<open>Volumes\<close>

definition persisted_volume :: "SupVolume \<Rightarrow> Volume" where
  "persisted_volume v = \<lparr>vol_ID = v_ID v, vol_BackingPath = v_BackingPath v, vol_ReadOnly = v_ReadOnly v,
     vol_FSType = v_FSType v\<rparr>"

definition api_RegisterVolume :: "api_ext \<Rightarrow> open_io \<Rightarrow> flush_io \<Rightarrow> decode_error + VolumeRequest \<Rightarrow> handler" where
  "api_RegisterVolume x oio fio body s =
     (case body of
        Inl e \<Rightarrow> (Some (writeDecodeError e), s)
      | Inr req \<Rightarrow>
          let v = \<lparr>v_ID = vr_Id req, v_BackingPath = vr_BackingPath req, v_ReadOnly = derefBool (vr_ReadOnly req),
                   v_FSType = [], v_resolvedAbsPath = [], v_devMajor = 0, v_devMinor = 0, v_inode = 0\<rparr>;
              (err, vols) = RegisterVolume (sp_opts (sv_sup s)) oio v (sv_volumes s);
              s1 = s\<lparr>sv_volumes := vols\<rparr>
          in
          case err of
            Some (VolExists _) \<Rightarrow> (Some (writeError 409 ''conflict''), s1)
          | Some _ \<Rightarrow> (Some (writeError 400 ''bad_request''), s1)
          | None \<Rightarrow>
              let stored = (case VolumeOf vols (vr_Id req) of None \<Rightarrow> v\<lparr>v_ID := [], v_BackingPath := [], v_ReadOnly := False\<rparr>
                                                           | Some w \<Rightarrow> w) in
              (case sv_store s of
                 None \<Rightarrow> (Some (writeJSON 201 (BVolume (volumeToView stored))), s1)
               | Some st \<Rightarrow>
                   (case AddVolume (ex_sha x) fio (persisted_volume stored) st of
                      (None, st') \<Rightarrow> (Some (writeJSON 201 (BVolume (volumeToView stored))), s1\<lparr>sv_store := Some st'\<rparr>)
                    | (Some e, st') \<Rightarrow>
                        (Some (writeStoreError e),
                         s1\<lparr>sv_volumes := snd (UnregisterVolume (sv_sup s) (vr_Id req) True vols),
                            sv_store := Some st'\<rparr>))))"

definition ListVolumes :: handler where
  "ListVolumes s = (Some (writeJSON 200 (BVolumes (map volumeToView (sup_Volumes (sv_volumes s))))), s)"

definition GetVolume :: "string \<Rightarrow> handler" where
  "GetVolume i s =
     (case VolumeOf (sv_volumes s) i of
        None \<Rightarrow> (Some (writeError 404 ''not_found''), s)
      | Some v \<Rightarrow> (Some (writeJSON 200 (BVolume (volumeToView v))), s))"

definition DeleteVolume :: "api_ext \<Rightarrow> flush_io \<Rightarrow> string \<Rightarrow> bool option \<Rightarrow> handler" where
  "DeleteVolume x fio i force s =
     (let (err, vols) = UnregisterVolume (sv_sup s) i (force = Some True) (sv_volumes s);
          s1 = s\<lparr>sv_volumes := vols\<rparr>
      in
      case err of
        Some (VolNotFound _) \<Rightarrow> (Some (writeError 404 ''not_found''), s1)
      | Some (VolInUse _ _) \<Rightarrow> (Some (writeError 409 ''conflict''), s1)
      | Some _ \<Rightarrow> (Some (writeError 500 ''internal''), s1)
      | None \<Rightarrow>
          (case sv_store s of
             None \<Rightarrow> (Some (writeJSON 204 BNone), s1)
           | Some st \<Rightarrow>
               (case RemoveVolume (ex_sha x) fio i st of
                  (None, st') \<Rightarrow> (Some (writeJSON 204 BNone), s1\<lparr>sv_store := Some st'\<rparr>)
                | (Some e, st') \<Rightarrow> (Some (writeStoreError e), s1\<lparr>sv_store := Some st'\<rparr>))))"

text \<open>The chain that \<open>New\<close> installs: audit around auth around cas around the handler.\<close>

definition serve :: "api_ext \<Rightarrow> log_io \<Rightarrow> string \<Rightarrow> int \<Rightarrow> api_request \<Rightarrow> handler \<Rightarrow> handler" where
  "serve x lio ts ms r h = auditMiddleware x lio ts ms r (authMiddleware r (casMiddleware r h))"

end
