(* ===== verification/Sup_Shrink.thy ===== *)
theory Sup_Shrink
  imports Sup_System
begin

text \<open>
  What the operations of the supervisor do to the set of registered apps, seen from a client that runs
  one operation at a time: \<open>shrinks s s'\<close> says that the registry of \<open>s'\<close> is well formed and a part of the
  one of \<open>s\<close>, and that apps keep id, port and user. The steps of the goroutines shrink (a restart that
  cannot start the process drops the app), so do Stop, Reset, and every Spawn and Deploy that returns an
  error; a Spawn or Deploy that succeeds adds or replaces exactly one entry.
\<close>

section \<open>Shrinking registries\<close>

definition shrinks :: "Supervisor \<Rightarrow> Supervisor \<Rightarrow> bool" where
  "shrinks s s' \<longleftrightarrow> reg_ok s' \<and> ids_kept s s' \<and> gm_get (sp_apps s') \<subseteq>\<^sub>m gm_get (sp_apps s)"

lemma shrinks_refl: "reg_ok s \<Longrightarrow> shrinks s s"
  by (simp add: shrinks_def)

lemma shrinks_trans: "shrinks s t \<Longrightarrow> shrinks t w \<Longrightarrow> shrinks s w"
  unfolding shrinks_def by (metis ids_kept_trans map_le_trans)

lemma shrinks_good: "good s s' \<Longrightarrow> reg_ok s \<Longrightarrow> gm_get (sp_apps s') \<subseteq>\<^sub>m gm_get (sp_apps s) \<Longrightarrow> shrinks s s'"
  by (simp add: good_def shrinks_def)

definition quiet :: "(Supervisor \<Rightarrow> Supervisor) \<Rightarrow> bool" where
  "quiet env \<longleftrightarrow> (\<forall>s. reg_ok s \<longrightarrow> shrinks s (env s))"

lemma quiet_good: "quiet env \<Longrightarrow> good t (env t)"
  by (simp add: quiet_def good_def shrinks_def)

lemma quiet_le: "quiet env \<Longrightarrow> reg_ok t \<Longrightarrow> gm_get (sp_apps (env t)) \<subseteq>\<^sub>m gm_get (sp_apps t)"
  by (simp add: quiet_def shrinks_def)

lemma quiet_id: "quiet (\<lambda>x. x)"
  by (simp add: quiet_def shrinks_refl)

lemma map_le_upd_None: "m(i := None) \<subseteq>\<^sub>m m"
  by (auto simp: map_le_def)

lemma map_le_del: "m \<subseteq>\<^sub>m m' \<Longrightarrow> m(i := None) \<subseteq>\<^sub>m m'"
  by (auto simp: map_le_def)

lemma map_le_fresh: "m \<subseteq>\<^sub>m m'(k \<mapsto> v) \<Longrightarrow> m(k := None) \<subseteq>\<^sub>m m'"
  by (auto simp: map_le_def dom_def split: if_splits)

lemma map_le_keep: "m \<subseteq>\<^sub>m m' \<Longrightarrow> m' i = Some v \<Longrightarrow> m(i \<mapsto> v) \<subseteq>\<^sub>m m'"
  by (auto simp: map_le_def)

section \<open>The goroutines\<close>

fun goroutine :: "sup_op \<Rightarrow> bool" where
  "goroutine (ODie _) = True"
| "goroutine (OExit _ _) = True"
| "goroutine (OWake _ _) = True"
| "goroutine (OProbe _ _ _ ops _) = list_all goroutine ops"
| "goroutine _ = False"

lemma startLocked_apps [simp]: "sp_apps (snd (startLocked io a s)) = sp_apps s"
  by (simp add: startLocked_def Let_def split: option.split)

lemma watch_exit_apps [simp]: "sp_apps (watch_exit now a s) = sp_apps s"
  by (simp add: watch_exit_def Let_def split: option.split prod.split)

lemma watch_wake_apps: "gm_get (sp_apps (watch_wake io a s)) \<subseteq>\<^sub>m gm_get (sp_apps s)"
proof -
  obtain err s1 where st: "startLocked io a s = (err, s1)" by (metis surj_pair)
  have "sp_apps s1 = sp_apps s" using startLocked_apps [of io a s] by (simp add: st)
  then show ?thesis
    by (simp add: watch_wake_def Let_def st map_le_upd_None split: option.split)
qed

lemma probe_apps:
  "sp_apps (snd (snd (probe_tick h d a env ps s))) = sp_apps s \<or> sp_apps (snd (snd (probe_tick h d a env ps s))) = sp_apps (env s)"
  by (simp add: probe_tick_def Let_def split: option.split)

lemma run_all_shrinks:
  "(\<And>f s. f \<in> set fs \<Longrightarrow> reg_ok s \<Longrightarrow> shrinks s (f s)) \<Longrightarrow> quiet (run_all fs)"
proof (induction fs)
  case Nil
  show ?case by (simp add: run_all_def quiet_def shrinks_refl)
next
  case (Cons f fs)
  show ?case unfolding quiet_def
  proof (intro allI impI)
    fix s assume s: "reg_ok s"
    have 1: "shrinks s (f s)" using Cons.prems s by simp
    then have "shrinks (f s) (run_all fs (f s))" using Cons by (simp add: quiet_def shrinks_def)
    then show "shrinks s (run_all (f # fs) s)" using shrinks_trans [OF 1] by (simp add: run_all_def)
  qed
qed

lemma goroutine_shrinks: "goroutine op \<Longrightarrow> reg_ok s \<Longrightarrow> shrinks s (sup_exec u p op s)"
proof (induction op arbitrary: s)
  case (OProbe h d a ops ps)
  have q: "quiet (run_all (map (sup_exec u p) ops))" by (rule run_all_shrinks) (use OProbe in \<open>auto simp: list_all_iff\<close>)
  have "gm_get (sp_apps (sup_exec u p (OProbe h d a ops ps) s)) \<subseteq>\<^sub>m gm_get (sp_apps s)"
    using probe_apps [of h d a "run_all (map (sup_exec u p) ops)" ps s] quiet_le [OF q OProbe.prems(2)] by auto
  then show ?case by (rule shrinks_good [OF good_exec OProbe.prems(2)])
next
  case (OWake io a)
  then show ?case by (intro shrinks_good [OF good_exec]) (auto simp: watch_wake_apps)
next
  case (ODie pid)
  then show ?case by (intro shrinks_good [OF good_exec]) auto
next
  case (OExit now a)
  then show ?case by (intro shrinks_good [OF good_exec]) auto
qed simp_all

lemma goroutines_quiet: "list_all goroutine ops \<Longrightarrow> quiet (run_all (map (sup_exec u p) ops))"
  by (rule run_all_shrinks) (auto simp: list_all_iff goroutine_shrinks)

section \<open>Stop and Reset\<close>

lemma stopApp_kill: "ti_kill io \<Longrightarrow> fst (stopApp io t a s) \<noteq> StopErr"
  by (simp add: stopApp_def stop_phases_def escalateAndWait_def)

text \<open>Shutdown: when every SIGKILL is delivered, \<open>StopAll\<close> takes all the ids it was given out of the
  registry.\<close>

lemma stop_all_apps:
  assumes "\<forall>i \<in> set ids. ti_kill (io i)"
  shows "gm_get (sp_apps (stop_all io t ids (\<lambda>x. x) s)) j = (if j \<in> set ids then None else gm_get (sp_apps s) j)"
  using assms
proof (induction ids arbitrary: s)
  case (Cons i ids)
  show ?case
  proof (cases "gm_get (sp_apps s) i")
    case None
    then show ?thesis using Cons by simp
  next
    case (Some a)
    let ?s1 = "stop_all io t ids (\<lambda>x. x) (s\<lparr>sp_apps := gm_del i (sp_apps s)\<rparr>)"
    obtain res s2 where st: "stopApp (io i) t a ?s1 = (res, s2)" by (metis surj_pair)
    have "res \<noteq> StopErr" using stopApp_kill [of "io i" t a ?s1] Cons.prems st by simp
    moreover have "sp_apps s2 = sp_apps ?s1" using stopApp_apps [of "io i" t a ?s1] st by simp
    moreover have "gm_get (sp_apps ?s1) j = (if j \<in> set ids then None else gm_get (sp_apps (s\<lparr>sp_apps := gm_del i (sp_apps s)\<rparr>)) j)"
      using Cons by (meson list.set_intros(2))
    ultimately show ?thesis using Some st by (cases res) (auto simp: StopWithTimeout_def)
  qed
qed simp

theorem StopAll_empties:
  assumes "\<forall>i \<in> set ids. ti_kill (io i)" and "dom (gm_get (sp_apps s)) \<subseteq> set ids"
  shows "gm_get (sp_apps (StopAll io remaining ids (\<lambda>x. x) s)) = Map.empty"
proof
  fix j
  show "gm_get (sp_apps (StopAll io remaining ids (\<lambda>x. x) s)) j = None"
    unfolding StopAll_def stop_all_apps [OF assms(1)] using assms(2) by (auto simp: dom_def)
qed

lemma Stop_shrinks:
  assumes "quiet env" and "reg_ok s" and "StopWithTimeout io i t env s = (res, s')"
  shows "shrinks s s'" and "res \<noteq> Inl StopFailed \<Longrightarrow> gm_get (sp_apps s') i = None"
    and "ti_kill io \<Longrightarrow> res \<noteq> Inl StopFailed" and "gm_get (sp_apps s) i = None \<longleftrightarrow> res = Inl (StopNotFound i)"
proof -
  have g: "good s s'" using good_Stop [OF quiet_good [OF assms(1)], of s io i t] assms(3) by simp
  show 4: "gm_get (sp_apps s) i = None \<longleftrightarrow> res = Inl (StopNotFound i)"
    using assms(3) by (auto simp: StopWithTimeout_def Let_def split: option.splits prod.splits stop_result.splits)
  show "shrinks s s'"
  proof (cases "gm_get (sp_apps s) i")
    case None
    then show ?thesis using assms shrinks_refl by (simp add: StopWithTimeout_def)
  next
    case (Some a)
    let ?s0 = "s\<lparr>sp_apps := gm_del i (sp_apps s)\<rparr>"
    have r0: "reg_ok ?s0" using assms(2) good_fields(3) [of s i] by (simp add: good_def)
    have le: "gm_get (sp_apps (env ?s0)) \<subseteq>\<^sub>m gm_get (sp_apps s)"
      using quiet_le [OF assms(1) r0] by (auto intro: map_le_trans [OF _ map_le_upd_None])
    have "gm_get (sp_apps s') \<subseteq>\<^sub>m gm_get (sp_apps s)"
      using assms(3) Some le stopApp_apps [of io t a "env ?s0"] map_le_keep [OF le Some]
      by (auto simp: StopWithTimeout_def Let_def split: prod.splits stop_result.splits if_splits)
    then show ?thesis using shrinks_good [OF g assms(2)] by simp
  qed
  have none: "gm_get (sp_apps (env (s\<lparr>sp_apps := gm_del i (sp_apps s)\<rparr>))) i = None"
  proof -
    have r0: "reg_ok (s\<lparr>sp_apps := gm_del i (sp_apps s)\<rparr>)" using assms(2) good_fields(3) [of s i] by (simp add: good_def)
    show ?thesis using quiet_le [OF assms(1) r0] by (simp add: map_le_def dom_def) (metis fun_upd_same not_Some_eq)
  qed
  show "gm_get (sp_apps s') i = None" if "res \<noteq> Inl StopFailed"
  proof (cases "gm_get (sp_apps s) i")
    case (Some a)
    then show ?thesis using assms(3) none that stopApp_apps [of io t a "env (s\<lparr>sp_apps := gm_del i (sp_apps s)\<rparr>)"]
      by (auto simp: StopWithTimeout_def Let_def split: prod.splits stop_result.splits)
  qed (use assms(3) in \<open>simp add: StopWithTimeout_def\<close>)
  show "res \<noteq> Inl StopFailed" if "ti_kill io"
    using assms(3) stopApp_kill [OF that]
    by (auto simp: StopWithTimeout_def Let_def split: option.splits prod.splits stop_result.splits) (metis fst_conv)+
qed

lemma Reset_shrinks:
  assumes "quiet env" and "reg_ok s"
  shows "shrinks s (snd (Reset io i env s))"
proof -
  have "sp_apps (snd (Reset io i env s)) = sp_apps s \<or> sp_apps (snd (Reset io i env s)) = sp_apps (env s)"
  proof (cases "gm_get (sp_apps s) i")
    case (Some a)
    obtain err s3 where st: "startLocked io a (upd_app a (resetDone \<circ> clearRestarts) (env s)) = (err, s3)" by (metis surj_pair)
    have "sp_apps s3 = sp_apps (env s)"
      using startLocked_apps [of io a "upd_app a (resetDone \<circ> clearRestarts) (env s)"] by (simp add: st)
    then show ?thesis by (cases err) (simp_all add: Reset_def Some st Let_def)
  qed (simp add: Reset_def)
  then have "gm_get (sp_apps (snd (Reset io i env s))) \<subseteq>\<^sub>m gm_get (sp_apps s)"
    using quiet_le [OF assms] by auto
  then show ?thesis using shrinks_good [OF good_Reset [OF quiet_good [OF assms(1)]] assms(2)] by simp
qed

section \<open>Spawn and Deploy\<close>

lemma Spawn_effect:
  assumes "reg_ok s" and "Spawn io cfg s = (res, s')"
  shows "case res of
      Inl _ \<Rightarrow> shrinks s s'
    | Inr a \<Rightarrow> reg_ok s' \<and> ids_kept s s' \<and> gm_get (sp_apps s) (cfg_ID cfg) = None \<and>
        gm_get (sp_apps s') = (gm_get (sp_apps s))(cfg_ID cfg \<mapsto> a) \<and> a_Port (app_at s' a) = cfg_Port cfg \<and>
        a < length (sp_heap s') \<and> length (sp_heap s) \<le> a"
proof -
  have g: "good s s'" using good_Spawn [of s io cfg] assms(2) by simp
  have pool: "pool_inv s" using assms(1) by (simp add: reg_ok_def)
  show ?thesis
  proof (cases res)
    case (Inl e)
    have "sp_apps s' = sp_apps s"
      using assms(2) spawn_err [OF pool, of io cfg e s'] by (auto simp: Spawn_def Inl split: option.splits)
    then show ?thesis using shrinks_good [OF g assms(1)] Inl by simp
  next
    case (Inr a)
    have "spawnUnchecked io cfg s = (Inr a, s')" using assms(2) by (auto simp: Spawn_def Inr split: option.splits)
    from spawn_ok [OF pool this] g assms(1) show ?thesis by (auto simp: Inr good_def)
  qed
qed

lemma windows_quiet_good: "windows quiet env \<Longrightarrow> windows (\<lambda>f. \<forall>t. good t (f t)) env"
  by (simp add: windows_def quiet_good)

lemma Deploy_error_shrinks:
  assumes q: "windows quiet env" and ok: "reg_ok s" and kill: "ti_kill (dio_stop_v2 io)"
    and dep: "Deploy u p io dc env s r = (Inl e, s', r')"
  shows "shrinks s s' \<and> r' = r"
proof -
  let ?i = "cfg_ID (dc_Config dc)" and ?s0 = "de_before env s"
  have g: "good s s'" using good_Deploy [OF windows_quiet_good [OF q], of s u p io dc r] dep by simp
  have w: "quiet (de_before env)" "quiet (de_polling env)" "quiet (de_swapped env)" "quiet (de_stopping env)"
    using q by (simp_all add: windows_def)
  have "gm_get (sp_apps s') \<subseteq>\<^sub>m gm_get (sp_apps s) \<and> r' = r"
  proof (cases "?i = [] \<or> gm_get (sp_apps s) ?i = None")
    case True
    then show ?thesis using dep by (auto simp: Deploy_def Let_def split: if_splits)
  next
    case False
    then obtain v1 where v1: "gm_get (sp_apps s) ?i = Some v1" and ne: "?i \<noteq> []" by auto
    let ?cfg = "inheritIdentity ((dc_Config dc)\<lparr>cfg_ID := deployTempID ?i\<rparr>) (a_runAs (app_at s v1)) (a_runAsRoot (app_at s v1))"
    obtain res s1 where sp: "spawnUnchecked (dio_spawn io) ?cfg ?s0 = (res, s1)" by (metis surj_pair)
    have ok0: "reg_ok ?s0" using quiet_good [OF w(1), of s] ok by (simp add: good_def)
    then have pool: "pool_inv ?s0" by (simp add: reg_ok_def)
    have le0: "gm_get (sp_apps ?s0) \<subseteq>\<^sub>m gm_get (sp_apps s)" by (rule quiet_le [OF w(1) ok])
    show ?thesis
    proof (cases res)
      case (Inl e')
      with spawn_err [OF pool sp [unfolded Inl]] show ?thesis
        using dep v1 ne sp le0 by (auto simp: Deploy_def Let_def split: if_splits)
    next
      case (Inr v2)
      note so = spawn_ok [OF pool sp [unfolded Inr]]
      let ?s2 = "de_polling env s1"
      have r1: "reg_ok s1" using good_spawn [of ?s0 "dio_spawn io" ?cfg] ok0 by (simp add: sp good_def)
      have re: "reg_ok ?s2" using quiet_good [OF w(2), of s1] r1 by (simp add: good_def)
      have le: "gm_get (sp_apps ?s2) \<subseteq>\<^sub>m (gm_get (sp_apps ?s0))(deployTempID ?i \<mapsto> v2)"
        using quiet_le [OF w(2) r1] so by simp
      have ab: "gm_get (sp_apps t) \<subseteq>\<^sub>m gm_get (sp_apps s)"
        if t: "t = snd (StopWithTimeout (dio_stop_v2 io) (deployTempID ?i) tm (de_stopping env) ?s2)" for t tm
      proof -
        obtain sr t' where st: "StopWithTimeout (dio_stop_v2 io) (deployTempID ?i) tm (de_stopping env) ?s2 = (sr, t')"
          by (metis surj_pair)
        note sh = Stop_shrinks [OF w(4) re st]
        have "gm_get (sp_apps t') (deployTempID ?i) = None" using sh(2,3) kill by simp
        moreover have "gm_get (sp_apps t') \<subseteq>\<^sub>m (gm_get (sp_apps ?s0))(deployTempID ?i \<mapsto> v2)"
          using sh(1) le map_le_trans by (auto simp: shrinks_def)
        ultimately have "gm_get (sp_apps t') \<subseteq>\<^sub>m gm_get (sp_apps ?s0)"
          using map_le_fresh [of "gm_get (sp_apps t')"] by (metis fun_upd_idem)
        then show ?thesis using le0 map_le_trans by (auto simp: st t)
      qed
      have sw: "gm_get (sp_apps t) \<subseteq>\<^sub>m gm_get (sp_apps s) \<and> r'' = r"
        if cur: "gm_get (sp_apps ?s2) ?i = Some v1" and run: "deploy_swap u p io env ?i tm v1 v2 ?s2 r = (Inl e, t, r'')" for t tm r''
      proof -
        let ?s3 = "rename_swap ?i v2 ?s2"
        let ?s4 = "de_swapped env ?s3"
        let ?s5 = "?s4\<lparr>sp_apps := gm_set ?i v1 (gm_del ?i (sp_apps ?s4))\<rparr>"
        have kept: "ids_kept s1 ?s2" using quiet_good [OF w(2), of s1] r1 by (simp add: good_def)
        have v2: "v2 < length (sp_heap ?s2)" "a_ID (app_at ?s2 v2) = deployTempID ?i"
          using so kept by (auto simp: ids_kept_def)
        have ok3: "reg_ok ?s3" by (rule reg_rename_swap [OF re v2 ne])
        then have sh4: "shrinks ?s3 ?s4" using w(3) by (simp add: quiet_def)
        have v1at: "v1 < length (sp_heap ?s2)" "a_ID (app_at ?s2 v1) = ?i" using reg_entry [OF re cur] by auto
        have "v1 \<noteq> v2" using v1at v2 deployTempID_neq [of ?i] by metis
        then have v13: "v1 < length (sp_heap ?s3) \<and> a_ID (app_at ?s3 v1) = ?i"
          using v1at by (simp add: rename_swap_def app_at_upd)
        have "good ?s3 ?s5"
          using good_reregister [OF good_trans [OF quiet_good [OF w(3)] good_fields(3)], of ?s3 v1 ?i ?i] v13 ne by simp
        then have ok5: "reg_ok ?s5" using ok3 by (simp add: good_def)
        have r'': "r'' = r" and t: "sp_apps t = sp_apps (de_stopping env ?s5)"
          using run by (auto simp: deploy_swap_def Let_def stopApp_apps split: prod.splits option.splits)
        have "gm_get (sp_apps ?s4) \<subseteq>\<^sub>m gm_get (sp_apps ?s3)" using sh4 by (simp add: shrinks_def)
        then have "(gm_get (sp_apps ?s4))(?i := None) \<subseteq>\<^sub>m (gm_get (sp_apps ?s2))(deployTempID ?i := None)"
          by (auto simp: rename_swap_def map_le_def dom_def split: if_splits)
        then have "(gm_get (sp_apps ?s4))(?i := None) \<subseteq>\<^sub>m gm_get (sp_apps s)"
          using map_le_fresh [OF le] le0 map_le_trans by blast
        from map_le_keep [where i = ?i and v = v1, OF this v1]
        have "gm_get (sp_apps ?s5) \<subseteq>\<^sub>m gm_get (sp_apps s)" by simp
        then show ?thesis using quiet_le [OF w(4) ok5] map_le_trans r'' by (simp only: t) blast
      qed
      show ?thesis
        using dep v1 ne sp Inr ab sw by (auto simp: Deploy_def Let_def split: if_splits option.splits)
    qed
  qed
  then show ?thesis using shrinks_good [OF g ok] by simp
qed

text \<open>After a Deploy that succeeds the registry is part of the old one with the new version under its id.\<close>

lemma Deploy_effect:
  assumes q: "windows quiet env" and ok: "reg_ok s" and i: "i = cfg_ID (dc_Config dc)"
    and dep: "Deploy u p io dc env s r = (Inr v2, s', r')"
  shows "reg_ok s' \<and> ids_kept s s' \<and> v2 < length (sp_heap s') \<and>
    gm_get (sp_apps s') \<subseteq>\<^sub>m (gm_get (sp_apps s))(i \<mapsto> v2) \<and> a_Port (app_at s' v2) = cfg_Port (dc_Config dc) \<and>
    gm_get (sp_apps s) i \<noteq> None \<and> runs_config (dc_Config dc) (app_at s' v2) \<and>
    (de_swapped env = (\<lambda>x. x) \<longrightarrow> de_stopping env = (\<lambda>x. x) \<longrightarrow> gm_get (sp_apps s') i = Some v2) \<and>
    (\<forall>r0. r = Some r0 \<longrightarrow> (\<exists>b. r' = Some (gm_set i b r0) \<and> be_Port b = cfg_Port (dc_Config dc)))"
proof -
  have w: "quiet (de_before env)" "quiet (de_polling env)" "quiet (de_swapped env)" "quiet (de_stopping env)"
    using q by (simp_all add: windows_def)
  have g: "good s s'" using good_Deploy [OF windows_quiet_good [OF q], of s u p io dc r] dep by simp
  obtain v1 s1 s3 where d: "gm_get (sp_apps s) i = Some v1"
    "sp_apps s1 = gm_set (deployTempID i) v2 (sp_apps (de_before env s))" "good s s1" "reg_ok s3"
    "sp_apps s3 = gm_set i v2 (gm_del i (gm_del (deployTempID i) (sp_apps (de_polling env s1))))"
    "sp_apps s' = sp_apps (de_stopping env (de_swapped env s3))"
    "a_Port (app_at s' v2) = cfg_Port (dc_Config dc)" "v2 < length (sp_heap s')" "runs_config (dc_Config dc) (app_at s' v2)"
    "\<forall>r0. r = Some r0 \<longrightarrow> (\<exists>b. r' = Some (gm_set i b r0) \<and> be_Port b = cfg_Port (dc_Config dc))"
    using deploy_ok [OF ok i windows_quiet_good [OF q] dep] by blast
  have ok1: "reg_ok s1" using d(3) ok by (simp add: good_def)
  from quiet_le [OF w(2) ok1]
  have "gm_get (sp_apps (de_polling env s1)) \<subseteq>\<^sub>m (gm_get (sp_apps (de_before env s)))(deployTempID i \<mapsto> v2)" by (simp add: d(2))
  from map_le_trans [OF map_le_fresh [OF this] quiet_le [OF w(1) ok]]
  have le3: "gm_get (sp_apps s3) \<subseteq>\<^sub>m (gm_get (sp_apps s))(i \<mapsto> v2)" by (simp add: d(5) map_le_def)
  have ok4: "reg_ok (de_swapped env s3)" using quiet_good [OF w(3), of s3] d(4) by (simp add: good_def)
  have "gm_get (sp_apps s') \<subseteq>\<^sub>m gm_get (sp_apps s3)"
    unfolding d(6) using quiet_le [OF w(4) ok4] quiet_le [OF w(3) d(4)] map_le_trans by blast
  then have "gm_get (sp_apps s') \<subseteq>\<^sub>m (gm_get (sp_apps s))(i \<mapsto> v2)" using le3 map_le_trans by blast
  then show ?thesis using d g ok by (auto simp: good_def)
qed

end
