(* ===== verification/Admin_Consistency.thy ===== *)
theory Admin_Consistency
  imports Admin_Server Sup_Shrink
begin

text \<open>
  The supervisor, the router and the store under the handlers of the admin API: whatever is running is
  routed to its port and persisted with the configuration that would be restored at the next boot.
  Requests are handled one at a time, with only goroutines of the supervisor running beside them.
\<close>

section \<open>What the store's mutations do to the persisted apps\<close>

lemma AddApp_apps:
  assumes "AddApp sha io u cfg st = (e, st')"
  shows "e = None \<Longrightarrow> gm_get (s_apps st') = (gm_get (s_apps st))(cfg_ID cfg \<mapsto> cfg)"
    and "e \<noteq> None \<Longrightarrow> s_apps st' = s_apps st"
  using assms
  by (auto simp: AddApp_def commit_swap_def Let_def split: if_splits option.splits sum.splits)

lemma RemoveApp_apps:
  assumes "RemoveApp sha io i st = (e, st')"
  shows "e = None \<Longrightarrow> gm_get (s_apps st') = (gm_get (s_apps st))(i := None)"
    and "e \<noteq> None \<Longrightarrow> s_apps st' = s_apps st"
  using assms
  by (auto simp: RemoveApp_def commit_swap_def Let_def fun_upd_idem split: if_splits option.splits)

lemma CreateRelease_apps: "CreateRelease sha io u i inp st = (res, st') \<Longrightarrow> s_apps st' = s_apps st"
  by (auto simp: CreateRelease_def commit_swap_def Let_def split: if_splits option.splits)

lemma Volume_apps:
  "s_apps (snd (AddVolume sha io v st)) = s_apps st" "s_apps (snd (RemoveVolume sha io j st)) = s_apps st"
  by (auto simp: AddVolume_def RemoveVolume_def commit_swap_def Let_def split: option.splits)

section \<open>Running, routed, persisted\<close>

definition backed :: "Supervisor \<Rightarrow> Store \<Rightarrow> Router \<Rightarrow> string \<Rightarrow> addr \<Rightarrow> bool" where
  "backed su st r i a \<longleftrightarrow>
     (\<exists>cfg b. gm_get (s_apps st) i = Some cfg \<and> gm_get r i = Some b \<and>
        cfg_Port cfg = a_Port (app_at su a) \<and> cfg_RunAs cfg = a_runAs (app_at su a) \<and>
        cfg_RunAsRoot cfg = a_runAsRoot (app_at su a) \<and> be_Port b = a_Port (app_at su a))"

definition runs_ok :: "Supervisor \<Rightarrow> Store \<Rightarrow> Router \<Rightarrow> bool" where
  "runs_ok su st r \<longleftrightarrow> (\<forall>i a. gm_get (sp_apps su) i = Some a \<longrightarrow> backed su st r i a)"

definition in_sync :: "Server \<Rightarrow> bool" where
  "in_sync s \<longleftrightarrow> (\<exists>st r. sv_store s = Some st \<and> sv_router s = Some r \<and> reg_ok (sv_sup s) \<and> runs_ok (sv_sup s) st r)"

lemma backed_kept:
  "ids_kept su su' \<Longrightarrow> a < length (sp_heap su) \<Longrightarrow> backed su st r i a \<Longrightarrow> backed su' st r i a"
  by (auto simp: backed_def ids_kept_def)

lemma runs_ok_shrinks:
  assumes "reg_ok su" and "shrinks su su'" and "runs_ok su st r"
  shows "runs_ok su' st r"
  unfolding runs_ok_def
proof (intro allI impI)
  fix i a assume "gm_get (sp_apps su') i = Some a"
  then have a: "gm_get (sp_apps su) i = Some a" using assms(2) by (auto simp: shrinks_def map_le_def dom_def)
  then have "backed su st r i a" "a < length (sp_heap su)" using assms(1,3) reg_entry by (auto simp: runs_ok_def)
  then show "backed su' st r i a" using backed_kept assms(2) by (auto simp: shrinks_def)
qed

text \<open>A new entry for one id, in the registry, the store and the route table.\<close>

lemma runs_ok_replace:
  assumes "reg_ok su" and "runs_ok su st r" and "ids_kept su su'"
    and "gm_get (sp_apps su') \<subseteq>\<^sub>m (gm_get (sp_apps su))(i \<mapsto> v)"
    and "gm_get (s_apps st') = (gm_get (s_apps st))(i \<mapsto> cfg)" and "gm_get r' = (gm_get r)(i \<mapsto> b)"
    and "cfg_Port cfg = a_Port (app_at su' v)" and "cfg_RunAs cfg = a_runAs (app_at su' v)"
    and "cfg_RunAsRoot cfg = a_runAsRoot (app_at su' v)" and "be_Port b = a_Port (app_at su' v)"
  shows "runs_ok su' st' r'"
  unfolding runs_ok_def
proof (intro allI impI)
  fix j a assume a: "gm_get (sp_apps su') j = Some a"
  show "backed su' st' r' j a"
  proof (cases "j = i")
    case True
    then have "a = v" using a assms(4) by (auto simp: map_le_def dom_def)
    then show ?thesis using assms True by (auto simp: backed_def)
  next
    case False
    then have "gm_get (sp_apps su) j = Some a" using a assms(4) by (auto simp: map_le_def dom_def)
    then have "backed su st r j a" "a < length (sp_heap su)" using assms(1,2) reg_entry by (auto simp: runs_ok_def)
    then have "backed su' st r j a" using backed_kept assms(3) by blast
    then show ?thesis using False assms(5,6) by (simp add: backed_def)
  qed
qed

text \<open>Taking an id out of the store or the route table is harmless once it is out of the registry.\<close>

lemma runs_ok_drop:
  assumes "runs_ok su st r" and "gm_get (sp_apps su) i = None"
    and "\<And>j. j \<noteq> i \<Longrightarrow> gm_get (s_apps st') j = gm_get (s_apps st) j" and "\<And>j. j \<noteq> i \<Longrightarrow> gm_get r' j = gm_get r j"
  shows "runs_ok su st' r'"
  using assms unfolding runs_ok_def backed_def by (metis option.distinct(1))

section \<open>Calls\<close>

datatype api_call =
    CSpawn spawn_io call_io "decode_error + SpawnRequest"
  | CStop call_io string
  | CDeploy deploy_io call_io api_request string "decode_error + DeployRequest"
  | CRollback deploy_io call_io api_request string int
  | CRestart bool "(Supervisor \<Rightarrow> Supervisor) list" int string "decode_error option"
  | CReset start_io "Supervisor \<Rightarrow> Supervisor" int string
  | CGet int string
  | CRegisterVolume open_io flush_io "decode_error + VolumeRequest"
  | CDeleteVolume flush_io string "bool option"

text \<open>The states the poll loop of a restart sees: what the goroutines do between two polls, one function each.\<close>

fun poll_states :: "(Supervisor \<Rightarrow> Supervisor) list \<Rightarrow> Supervisor \<Rightarrow> Supervisor list" where
  "poll_states [] s = []"
| "poll_states (f # fs) s = f s # poll_states fs (f s)"

fun handler_of :: "api_ext \<Rightarrow> api_call \<Rightarrow> handler" where
  "handler_of x (CSpawn sio io body) = SpawnApp x sio io body"
| "handler_of x (CStop io i) = StopApp x io i"
| "handler_of x (CDeploy dio io r i body) = DeployApp x dio io r i body"
| "handler_of x (CRollback dio io r i to) = RollbackApp x dio io r i to"
| "handler_of x (CRestart signal_ok envs now i body) = (\<lambda>s. RestartApp x signal_ok (poll_states envs (sv_sup s)) now i body s)"
| "handler_of x (CReset sio env now i) = ResetApp x sio env now i"
| "handler_of x (CGet now i) = GetApp x now i"
| "handler_of x (CRegisterVolume oio fio body) = api_RegisterVolume x oio fio body"
| "handler_of x (CDeleteVolume fio i force) = DeleteVolume x fio i force"

text \<open>
  While a handler runs, only goroutines of the supervisor run beside it, and a SIGKILL of the clean-up
  paths is delivered.
\<close>

fun call_ok :: "api_call \<Rightarrow> bool" where
  "call_ok (CSpawn sio io body) \<longleftrightarrow> quiet (ci_env io) \<and> quiet (ci_stop_env io) \<and> ti_kill (ci_stop io)"
| "call_ok (CStop io i) \<longleftrightarrow> quiet (ci_stop_env io)"
| "call_ok (CDeploy dio io r i body) \<longleftrightarrow> windows quiet (ci_deploy io) \<and> ti_kill (dio_stop_v2 dio)"
| "call_ok (CRollback dio io r i to) \<longleftrightarrow> windows quiet (ci_deploy io) \<and> ti_kill (dio_stop_v2 dio)"
| "call_ok (CRestart signal_ok envs now i body) \<longleftrightarrow> list_all quiet envs"
| "call_ok (CReset sio env now i) \<longleftrightarrow> quiet env"
| "call_ok _ \<longleftrightarrow> True"

text \<open>A Stop, Deploy or Rollback must not answer with a server error: the store failed after the processes
  were switched.\<close>

definition committed :: "api_call \<Rightarrow> api_response option \<Rightarrow> bool" where
  "committed c rsp \<longleftrightarrow>
     (case c of
        CStop _ _ \<Rightarrow> True | CDeploy _ _ _ _ _ \<Rightarrow> True | CRollback _ _ _ _ _ \<Rightarrow> True | _ \<Rightarrow> False) \<longrightarrow>
     (\<forall>q. rsp = Some q \<longrightarrow> rsp_Status q \<noteq> 500 \<and> rsp_Status q \<noteq> 503)"

lemma in_syncI: "sv_store s = Some st \<Longrightarrow> sv_router s = Some r \<Longrightarrow> reg_ok (sv_sup s) \<Longrightarrow> runs_ok (sv_sup s) st r \<Longrightarrow> in_sync s"
  by (auto simp: in_sync_def)

lemma in_sync_cong:
  "sv_store s' = sv_store s \<Longrightarrow> sv_router s' = sv_router s \<Longrightarrow> sv_sup s' = sv_sup s \<Longrightarrow> in_sync s' = in_sync s"
  by (simp add: in_sync_def)

lemma in_sync_shrinks:
  assumes "in_sync s" and "shrinks (sv_sup s) su" and "sv_store s' = sv_store s" and "sv_router s' = sv_router s"
    and "sv_sup s' = su"
  shows "in_sync s'"
  using assms runs_ok_shrinks unfolding in_sync_def shrinks_def by metis

lemma store_error_status: "rsp_Status (writeStoreError e) = 500 \<or> rsp_Status (writeStoreError e) = 503"
  by (simp add: writeStoreError_def writeError_def writeJSON_def split: store_error.split flush_error.split)

lemma write_status [simp]: "rsp_Status (writeJSON n b) = n" "rsp_Status (writeError n code) = n"
  by (simp_all add: writeJSON_def writeError_def)

lemma SetAddr_ok:
  "SetAddr url i host port r = (None, r') \<Longrightarrow> \<exists>b. r' = gm_set i b r \<and> be_Port b = port"
  by (auto simp: SetAddr_def newBackend_def Let_def split: sum.splits if_splits)

lemma route_app_ok:
  "route_app x i app port (Some r) = (None, ro) \<Longrightarrow> \<exists>b. ro = Some (gm_set i b r) \<and> be_Port b = port"
  by (auto simp: route_app_def split: prod.splits dest: SetAddr_ok)

lemma unroute_get: "unroute i (Some r) = Some (gm_del i r)"
  by (simp add: unroute_def Remove_def)

section \<open>Each handler keeps the three in step\<close>

text \<open>The tail of a failed SpawnApp: the app is stopped again.\<close>

text \<open>After a Spawn and the goroutine steps that follow it.\<close>

lemma spawn_settled:
  assumes "reg_ok su" and "Spawn sio cfg su = (Inr a, su1)" and "quiet env"
  shows "reg_ok (env su1)" and "ids_kept su (env su1)"
    and "gm_get (sp_apps (env su1)) \<subseteq>\<^sub>m (gm_get (sp_apps su))(cfg_ID cfg \<mapsto> a)"
    and "a_Port (app_at (env su1) a) = cfg_Port cfg" and "a_runAs (app_at (env su1) a) = a_runAs (app_at su1 a)"
    and "a_runAsRoot (app_at (env su1) a) = a_runAsRoot (app_at su1 a)"
proof -
  have eff: "reg_ok su1" "ids_kept su su1" "gm_get (sp_apps su1) = (gm_get (sp_apps su))(cfg_ID cfg \<mapsto> a)"
    "a_Port (app_at su1 a) = cfg_Port cfg" "a < length (sp_heap su1)"
    using Spawn_effect [OF assms(1,2)] by simp_all
  have sh: "shrinks su1 (env su1)" using assms(3) eff(1) by (simp add: quiet_def)
  then show "reg_ok (env su1)" "ids_kept su (env su1)" "gm_get (sp_apps (env su1)) \<subseteq>\<^sub>m (gm_get (sp_apps su))(cfg_ID cfg \<mapsto> a)"
    using eff(2,3) ids_kept_trans by (auto simp: shrinks_def)
  show "a_Port (app_at (env su1) a) = cfg_Port cfg" "a_runAs (app_at (env su1) a) = a_runAs (app_at su1 a)"
    "a_runAsRoot (app_at (env su1) a) = a_runAsRoot (app_at su1 a)"
    using sh eff(4,5) by (auto simp: shrinks_def ids_kept_def)
qed

lemma others_backed:
  assumes "reg_ok su" and "runs_ok su st r" and "ids_kept su su'" and "gm_get (sp_apps su') \<subseteq>\<^sub>m (gm_get (sp_apps su))(i \<mapsto> a)"
    and "j \<noteq> i" and "gm_get (sp_apps su') j = Some c" and "gm_get (s_apps st') j = gm_get (s_apps st) j" and "gm_get r' j = gm_get r j"
  shows "backed su' st' r' j c"
proof -
  have c: "gm_get (sp_apps su) j = Some c" using assms(4-6) by (auto simp: map_le_def dom_def)
  then have "backed su' st r j c" using backed_kept [OF assms(3)] reg_entry [OF assms(1) c] assms(2) by (auto simp: runs_ok_def)
  then show ?thesis using assms(7,8) by (simp add: backed_def)
qed

text \<open>A Stop that undoes a registration: what is left is as well backed as before.\<close>

lemma stop_undo_runs:
  assumes other: "\<And>j a. j \<noteq> i \<Longrightarrow> gm_get (sp_apps su) j = Some a \<Longrightarrow> backed su st r j a"
    and reg: "reg_ok su" and q: "quiet (ci_stop_env io)" and kill: "ti_kill (ci_stop io)"
    and stop: "stop_call io i su = (sr, su')" and r': "r' = r \<or> r' = gm_del i r"
  shows "reg_ok su' \<and> runs_ok su' st r'"
proof -
  note sh = Stop_shrinks [OF q reg stop [unfolded stop_call_def]]
  have gone: "gm_get (sp_apps su') i = None" using sh(2,3) kill by simp
  have "runs_ok su' st r'" unfolding runs_ok_def
  proof (intro allI impI)
    fix j a assume a: "gm_get (sp_apps su') j = Some a"
    with gone have j: "j \<noteq> i" by auto
    have a': "gm_get (sp_apps su) j = Some a" using a sh(1) by (auto simp: shrinks_def map_le_def dom_def)
    have "backed su' st r j a"
      using backed_kept [OF _ _ other [OF j a']] sh(1) reg_entry [OF reg a'] by (auto simp: shrinks_def)
    then show "backed su' st r' j a" using j r' by (auto simp: backed_def)
  qed
  then show ?thesis using sh(1) by (simp add: shrinks_def)
qed

lemma undo_spawn_sync:
  assumes other: "\<And>j a. j \<noteq> i \<Longrightarrow> gm_get (sp_apps su) j = Some a \<Longrightarrow> backed su st r j a"
    and reg: "reg_ok su" and q: "quiet (ci_stop_env io)" and kill: "ti_kill (ci_stop io)"
    and s: "sv_sup s = su" "sv_store s = Some st" "sv_router s = Some r"
    and k: "\<And>t. sv_store (k t) = sv_store t \<and> sv_sup (k t) = sv_sup t \<and> (sv_router (k t) = sv_router t \<or> sv_router (k t) = unroute i (sv_router t))"
    and run: "undo_spawn io i rsp k s = (res, s')"
  shows "in_sync s'"
proof -
  obtain sr su' where stop: "stop_call io i su = (sr, su')" by (metis surj_pair)
  have s': "s' = s\<lparr>sv_sup := su'\<rparr> \<or> s' = k (s\<lparr>sv_sup := su'\<rparr>)"
    using run by (auto simp: undo_spawn_def s(1) stop split: sum.splits bool.splits prod.splits)
  obtain r' where r': "sv_router s' = Some r'" "r' = r \<or> r' = gm_del i r"
    using s' k [of "s\<lparr>sv_sup := su'\<rparr>"] s by (auto simp: unroute_get)
  have "sv_store s' = Some st" "sv_sup s' = su'" using s' k [of "s\<lparr>sv_sup := su'\<rparr>"] s by auto
  then show ?thesis using in_syncI [OF _ r'(1)] stop_undo_runs [OF other reg q kill stop r'(2)] by simp
qed

lemma SpawnApp_started_sync:
  assumes st: "sv_store s = Some st" and r: "sv_router s = Some r" and reg: "reg_ok (sv_sup s)" and runs: "runs_ok (sv_sup s) st r"
    and q: "quiet (ci_env io)" "quiet (ci_stop_env io)" "ti_kill (ci_stop io)"
    and b: "body = Inr req" "ValidateID (sr_Id req) = None" "validatePort (sr_Port req)" "spawnToConfig req = Inr cfg"
    and sp: "Spawn sio cfg (sv_sup s) = (Inr a, su1)" and run: "SpawnApp x sio io body s = (rsp, s')"
  shows "in_sync s'"
proof -
  let ?app = "app_at su1 a" and ?su = "ci_env io su1" and ?i = "sr_Id req"
  have id: "cfg_ID cfg = ?i" "cfg_Port cfg = sr_Port req" using spawnToConfig_ID [OF b(4)] by simp_all
  note kept = spawn_settled [OF reg sp q(1), unfolded id]
  note other = others_backed [OF reg runs kept(2,3)]
  obtain rerr ro where ra: "route_app x ?i ?app (sr_Port req) (Some r) = (rerr, ro)" by (metis surj_pair)
  show ?thesis
  proof (cases rerr)
    case (Some e)
    then have "undo_spawn io ?i (writeError 400 ''bad_request'') (\<lambda>t. t) (s\<lparr>sv_sup := ?su\<rparr>) = (rsp, s')"
      using run b sp ra r by (simp add: SpawnApp_def Let_def)
    then show ?thesis
      by (rule undo_spawn_sync [OF _ kept(1) q(2,3), rotated -1]) (use other st r in auto)
  next
    case None
    then obtain bk where bk: "ro = Some (gm_set ?i bk r)" "be_Port bk = sr_Port req"
      using route_app_ok [of x ?i ?app "sr_Port req" r ro] ra by auto
    obtain e st' where add: "AddApp (ex_sha x) (ci_flush io) (ci_uuid io) (with_identity ?app cfg) st = (e, st')"
      by (metis surj_pair)
    show ?thesis
    proof (cases e)
      case (Some e')
      then have u: "undo_spawn io ?i (writeStoreError e') (\<lambda>t. t\<lparr>sv_router := unroute ?i (sv_router t)\<rparr>)
          (s\<lparr>sv_sup := ?su, sv_router := ro, sv_store := Some st'\<rparr>) = (rsp, s')"
        using run b sp ra r st None add by (simp add: SpawnApp_def Let_def)
      show ?thesis
        by (rule undo_spawn_sync [OF _ kept(1) q(2,3) _ _ _ _ u, where st = st' and r = "gm_set ?i bk r"])
          (use other AddApp_apps(2) [OF add] Some bk in auto)
    next
      case none: None
      then have s': "s' = s\<lparr>sv_sup := ?su, sv_router := ro, sv_store := Some st'\<rparr>"
        using run b sp ra r st None add by (simp add: SpawnApp_def Let_def)
      have "runs_ok ?su st' (gm_set ?i bk r)"
        by (rule runs_ok_replace [OF reg runs kept(2,3), of _ "with_identity ?app cfg" _ bk])
          (use AddApp_apps(1) [OF add none] id kept(4-6) bk in \<open>auto simp: with_identity_def\<close>)
      then show ?thesis using in_syncI [of s' st' "gm_set ?i bk r"] kept(1) by (simp add: s' bk)
    qed
  qed
qed

lemma SpawnApp_sync:
  assumes sync: "in_sync s" and ok: "call_ok (CSpawn sio io body)" and run: "SpawnApp x sio io body s = (rsp, s')"
  shows "in_sync s'"
proof -
  obtain st r where st: "sv_store s = Some st" and r: "sv_router s = Some r"
    and reg: "reg_ok (sv_sup s)" and runs: "runs_ok (sv_sup s) st r" using sync by (auto simp: in_sync_def)
  from ok have q: "quiet (ci_env io)" "quiet (ci_stop_env io)" "ti_kill (ci_stop io)" by simp_all
  show ?thesis
  proof (cases "\<exists>req cfg. body = Inr req \<and> ValidateID (sr_Id req) = None \<and> validatePort (sr_Port req) \<and> spawnToConfig req = Inr cfg")
    case False
    then have "s' = s" using run by (auto simp: SpawnApp_def split: sum.splits if_splits)
    then show ?thesis using sync by simp
  next
    case True
    then obtain req cfg where b: "body = Inr req" "ValidateID (sr_Id req) = None" "validatePort (sr_Port req)"
      "spawnToConfig req = Inr cfg" by blast
    obtain res su1 where sp: "Spawn sio cfg (sv_sup s) = (res, su1)" by (metis surj_pair)
    show ?thesis
    proof (cases res)
      case (Inl e)
      then have "s' = s\<lparr>sv_sup := su1\<rparr>" using run b sp by (simp add: SpawnApp_def)
      then show ?thesis using in_sync_shrinks [OF sync, of su1] Spawn_effect [OF reg sp] Inl by simp
    next
      case (Inr a)
      then show ?thesis using SpawnApp_started_sync [OF st r reg runs q b _ run] sp by simp
    qed
  qed
qed

lemma StopApp_sync:
  assumes sync: "in_sync s" and q: "quiet (ci_stop_env io)" and run: "StopApp x io i s = (rsp, s')"
    and com: "committed (CStop io i) rsp"
  shows "in_sync s'"
proof -
  obtain st r where st: "sv_store s = Some st" and r: "sv_router s = Some r"
    and reg: "reg_ok (sv_sup s)" and runs: "runs_ok (sv_sup s) st r" using sync by (auto simp: in_sync_def)
  obtain res su where stop: "stop_call io i (sv_sup s) = (res, su)" by (metis surj_pair)
  note sh = Stop_shrinks [OF q reg stop [unfolded stop_call_def]]
  show ?thesis
  proof (cases "res = Inr True")
    case False
    then have "s' = s\<lparr>sv_sup := su\<rparr>"
      using run stop by (auto simp: StopApp_def split: sum.splits bool.splits stop_error.splits)
    then show ?thesis using in_sync_shrinks [OF sync sh(1)] by simp
  next
    case True
    obtain e st' where rem: "RemoveApp (ex_sha x) (ci_flush io) i st = (e, st')" by (metis surj_pair)
    have "e = None"
    proof (rule ccontr)
      assume "e \<noteq> None"
      then obtain e' where "rsp = Some (writeStoreError e')" using run stop True rem st by (auto simp: StopApp_def)
      then show False using com store_error_status [of e'] by (simp add: committed_def)
    qed
    then have s': "s' = s\<lparr>sv_sup := su, sv_router := Some (gm_del i r), sv_store := Some st', sv_conditions := forget i (sv_conditions s)\<rparr>"
      using run stop True rem st r by (simp add: StopApp_def unroute_get)
    have "runs_ok su st' (gm_del i r)"
      by (rule runs_ok_drop [OF runs_ok_shrinks [OF reg sh(1) runs]])
        (use sh(2) True RemoveApp_apps(1) [OF rem \<open>e = None\<close>] in auto)
    then show ?thesis using in_syncI [of s' st' "gm_del i r"] sh(1) by (simp add: s' shrinks_def)
  qed
qed

text \<open>
  The common part of DeployApp and RollbackApp: the deploy, then the two store mutations. \<open>fin\<close> says what
  became of the store.
\<close>

lemma deploy_sync:
  assumes sync: "in_sync s" and q: "windows quiet (ci_deploy io)" and kill: "ti_kill (dio_stop_v2 dio)"
    and st: "sv_store s = Some st" and i: "i = cfg_ID (dc_Config dcfg)"
    and dep: "Deploy (ex_url_ok x) (ex_ip_str x) dio dcfg (ci_deploy io) (sv_sup s) (sv_router s) = (res, su, router)"
    and fin: "case res of
        Inl _ \<Rightarrow> s' = s\<lparr>sv_sup := su, sv_router := router\<rparr>
      | Inr v2 \<Rightarrow> \<exists>st1 st2. AddApp (ex_sha x) (ci_flush io) (ci_uuid io) (with_identity (app_at su v2) (dc_Config dcfg)) st = (None, st1) \<and>
          s_apps st2 = s_apps st1 \<and> s' = s\<lparr>sv_sup := su, sv_router := router, sv_store := Some st2\<rparr>"
  shows "in_sync s'"
proof -
  obtain r where r: "sv_router s = Some r" and reg: "reg_ok (sv_sup s)" and runs: "runs_ok (sv_sup s) st r"
    using sync st by (auto simp: in_sync_def)
  show ?thesis
  proof (cases res)
    case (Inl e)
    with Deploy_error_shrinks [OF q reg kill] dep have "shrinks (sv_sup s) su" "router = sv_router s" by blast+
    then show ?thesis using in_sync_shrinks [OF sync, of su s'] fin Inl by simp
  next
    case (Inr v2)
    from Deploy_effect [OF q reg i] dep Inr r have eff: "reg_ok su" "ids_kept (sv_sup s) su"
      "gm_get (sp_apps su) \<subseteq>\<^sub>m (gm_get (sp_apps (sv_sup s)))(i \<mapsto> v2)" "a_Port (app_at su v2) = cfg_Port (dc_Config dcfg)"
      "\<exists>b. router = Some (gm_set i b r) \<and> be_Port b = cfg_Port (dc_Config dcfg)" by blast+
    then obtain b where b: "router = Some (gm_set i b r)" "be_Port b = cfg_Port (dc_Config dcfg)" by blast
    let ?cfg = "with_identity (app_at su v2) (dc_Config dcfg)"
    obtain st1 st2 where f: "AddApp (ex_sha x) (ci_flush io) (ci_uuid io) ?cfg st = (None, st1)"
      "s_apps st2 = s_apps st1" "s' = s\<lparr>sv_sup := su, sv_router := router, sv_store := Some st2\<rparr>"
      using fin Inr by auto
    have "runs_ok su st2 (gm_set i b r)"
      by (rule runs_ok_replace [OF reg runs eff(2,3), of _ ?cfg _ b])
        (use AddApp_apps(1) [OF f(1)] f(2) i eff(4) b(2) in \<open>simp_all add: with_identity_def\<close>)
    then show ?thesis using in_syncI [of s' st2 "gm_set i b r"] eff(1) by (simp add: f(3) b(1))
  qed
qed

lemma DeployApp_sync:
  assumes sync: "in_sync s" and ok: "call_ok (CDeploy dio io r i body)" and run: "DeployApp x dio io r i body s = (rsp, s')"
    and com: "committed (CDeploy dio io r i body) rsp"
  shows "in_sync s'"
proof (cases "\<exists>req dcfg. body = Inr req \<and> validatePort (dr_Port req) \<and> deployToConfig i req = Inr dcfg")
  case False
  then have "s' = s" using run by (auto simp: DeployApp_def split: sum.splits if_splits)
  then show ?thesis using sync by simp
next
  case True
  then obtain req dcfg where b: "body = Inr req" "validatePort (dr_Port req)" "deployToConfig i req = Inr dcfg" by blast
  obtain st where st: "sv_store s = Some st" using sync by (auto simp: in_sync_def)
  obtain res su router where dep: "Deploy (ex_url_ok x) (ex_ip_str x) dio dcfg (ci_deploy io) (sv_sup s) (sv_router s) = (res, su, router)"
    by (metis surj_pair)
  note d = run [unfolded DeployApp_def b sum.case if_True not_True_eq_False if_False Let_def dep prod.case]
  have "case res of
        Inl _ \<Rightarrow> s' = s\<lparr>sv_sup := su, sv_router := router\<rparr>
      | Inr v2 \<Rightarrow> \<exists>st1 st2. AddApp (ex_sha x) (ci_flush io) (ci_uuid io) (with_identity (app_at su v2) (dc_Config dcfg)) st = (None, st1) \<and>
          s_apps st2 = s_apps st1 \<and> s' = s\<lparr>sv_sup := su, sv_router := router, sv_store := Some st2\<rparr>"
  proof (cases res)
    case (Inl e)
    then show ?thesis using d b(2) by simp
  next
    case (Inr v2)
    let ?cfg = "with_identity (app_at su v2) (dc_Config dcfg)"
    obtain e st1 where add: "AddApp (ex_sha x) (ci_flush io) (ci_uuid io) ?cfg st = (e, st1)" by (metis surj_pair)
    obtain cr st2 where rel: "CreateRelease (ex_sha x) (ci_flush2 io) (ci_uuid2 io) i
        \<lparr>ri_Spec = deploy_spec x r ?cfg, ri_PriorActivePhase = []\<rparr> st1 = (cr, st2)" by (metis surj_pair)
    note d' = d [unfolded Inr sum.case st option.case add prod.case rel]
    have "e = None" using d' b(2) com store_error_status by (cases e) (auto simp: committed_def)
    then show ?thesis using d' b(2) add CreateRelease_apps [OF rel] Inr by (cases cr) auto
  qed
  then show ?thesis
    using deploy_sync [OF sync _ _ st _ dep] ok deployToConfig_ID [OF b(3)] by simp
qed

lemma RollbackApp_sync:
  assumes sync: "in_sync s" and ok: "call_ok (CRollback dio io r i to)" and run: "RollbackApp x dio io r i to s = (rsp, s')"
    and com: "committed (CRollback dio io r i to) rsp"
  shows "in_sync s'"
proof -
  obtain st where st: "sv_store s = Some st" using sync by (auto simp: in_sync_def)
  show ?thesis
  proof (cases "to > 0 \<and> (\<exists>target snap. FindRelease st i to = Some target \<and> rs_ConfigSnapshot (rel_Spec target) = Some snap)")
    case False
    then have "s' = s" using run st by (auto simp: RollbackApp_def split: option.splits if_splits)
    then show ?thesis using sync by simp
  next
    case True
    then obtain target snap where t: "\<not> to \<le> 0" "FindRelease st i to = Some target" "rs_ConfigSnapshot (rel_Spec target) = Some snap" by auto
    define dcfg where "dcfg = \<lparr>dc_Config = snap\<lparr>cfg_ID := i\<rparr>, dc_ReadyTimeout = 0, dc_PollInterval = 0, dc_GracefulV1Timeout = 0\<rparr>"
    obtain res su router where dep: "Deploy (ex_url_ok x) (ex_ip_str x) dio dcfg (ci_deploy io) (sv_sup s) (sv_router s) = (res, su, router)"
      by (metis surj_pair)
    note d = run [unfolded RollbackApp_def st option.case t Let_def dcfg_def [symmetric] dep prod.case]
    have "case res of
          Inl _ \<Rightarrow> s' = s\<lparr>sv_sup := su, sv_router := router\<rparr>
        | Inr v2 \<Rightarrow> \<exists>st1 st2. AddApp (ex_sha x) (ci_flush io) (ci_uuid io) (with_identity (app_at su v2) (dc_Config dcfg)) st = (None, st1) \<and>
            s_apps st2 = s_apps st1 \<and> s' = s\<lparr>sv_sup := su, sv_router := router, sv_store := Some st2\<rparr>"
    proof (cases res)
      case (Inl e)
      then show ?thesis using d t(1) by simp
    next
      case (Inr v2)
      let ?cfg = "with_identity (app_at su v2) (dc_Config dcfg)"
      obtain e st1 where add: "AddApp (ex_sha x) (ci_flush io) (ci_uuid io) ?cfg st = (e, st1)" by (metis surj_pair)
      obtain cr st2 where rel: "CreateRelease (ex_sha x) (ci_flush2 io) (ci_uuid2 io) i
          \<lparr>ri_Spec = rollback_spec x r target ?cfg, ri_PriorActivePhase = ReleasePhaseRolledBack\<rparr> st1 = (cr, st2)"
        by (metis surj_pair)
      note d' = d [unfolded Inr sum.case add prod.case rel]
      have "e = None" using d' t(1) com by (cases e) (auto simp: committed_def)
      then show ?thesis using d' t(1) add CreateRelease_apps [OF rel] Inr by (cases cr) auto
    qed
    then show ?thesis using deploy_sync [OF sync _ _ st _ dep] ok by (simp add: dcfg_def)
  qed
qed

lemma poll_states_shrinks: "list_all quiet fs \<Longrightarrow> reg_ok s \<Longrightarrow> shrinks s (last (s # poll_states fs s))"
proof (induction fs arbitrary: s)
  case (Cons f fs)
  then have "shrinks s (f s)" by (simp add: quiet_def)
  with Cons have "shrinks (f s) (last (f s # poll_states fs (f s)))" by (simp add: shrinks_def)
  with \<open>shrinks s (f s)\<close> show ?case by (auto intro: shrinks_trans)
qed (simp add: shrinks_refl)

lemma RestartApp_sync:
  assumes "in_sync s" and "list_all quiet envs"
    and "RestartApp x signal_ok (poll_states envs (sv_sup s)) now i body s = (rsp, s')"
  shows "in_sync s'"
proof -
  have "s' = s \<or> s' = s\<lparr>sv_sup := last (sv_sup s # poll_states envs (sv_sup s))\<rparr>"
    using assms(3) by (auto simp: RestartApp_def Let_def split: option.splits sum.splits restart_error.splits)
  moreover have "shrinks (sv_sup s) (last (sv_sup s # poll_states envs (sv_sup s)))"
    by (rule poll_states_shrinks [OF assms(2)]) (use assms(1) in \<open>auto simp: in_sync_def\<close>)
  ultimately show ?thesis using in_sync_shrinks [OF assms(1)] assms(1) by auto
qed

lemma ResetApp_sync:
  assumes "in_sync s" and "quiet env" and "ResetApp x sio env now i s = (rsp, s')"
  shows "in_sync s'"
proof -
  have "s' = s\<lparr>sv_sup := snd (Reset sio i env (sv_sup s))\<rparr>"
    using assms(3) by (auto simp: ResetApp_def Let_def split: prod.splits option.splits reset_error.splits)
  moreover have "shrinks (sv_sup s) (snd (Reset sio i env (sv_sup s)))"
    using Reset_shrinks [OF assms(2)] assms(1) by (auto simp: in_sync_def)
  ultimately show ?thesis using in_sync_shrinks [OF assms(1)] by simp
qed

text \<open>Reads, and the volume calls, which touch only the volume map of the store.\<close>

lemma in_sync_apps:
  assumes "in_sync s" and "sv_sup s' = sv_sup s" and "sv_router s' = sv_router s"
    and "sv_store s' = sv_store s \<or> (\<exists>st st'. sv_store s = Some st \<and> sv_store s' = Some st' \<and> s_apps st' = s_apps st)"
  shows "in_sync s'"
  using assms unfolding in_sync_def runs_ok_def backed_def by auto

lemma GetApp_sync: "in_sync s \<Longrightarrow> GetApp x now i s = (rsp, s') \<Longrightarrow> in_sync s'"
  by (erule in_sync_apps) (auto simp: GetApp_def Let_def split: option.splits prod.splits)

lemma RegisterVolume_sync:
  assumes "in_sync s" and "api_RegisterVolume x oio fio body s = (rsp, s')"
  shows "in_sync s'"
proof -
  obtain st where st: "sv_store s = Some st" using assms(1) by (auto simp: in_sync_def)
  have "s_apps st' = s_apps st" if "AddVolume (ex_sha x) fio v st = (e, st')" for v e st'
    using Volume_apps(1) [of "ex_sha x" fio v st] that by simp
  then show ?thesis
    using assms(2) st
    by (intro in_sync_apps [OF assms(1)])
      (auto simp: api_RegisterVolume_def Let_def split: sum.splits prod.splits option.splits vol_error.splits)
qed

lemma DeleteVolume_sync:
  assumes "in_sync s" and "DeleteVolume x fio i force s = (rsp, s')"
  shows "in_sync s'"
proof -
  obtain st where st: "sv_store s = Some st" using assms(1) by (auto simp: in_sync_def)
  obtain e st' where rv: "RemoveVolume (ex_sha x) fio i st = (e, st')" by (metis surj_pair)
  have "s_apps st' = s_apps st" using Volume_apps(2) [of "ex_sha x" fio i st] rv by simp
  then show ?thesis
    using assms(2) st rv
    by (intro in_sync_apps [OF assms(1)])
      (auto simp: DeleteVolume_def Let_def split: prod.splits option.splits vol_error.splits)
qed

lemma handler_sync:
  "in_sync s \<Longrightarrow> call_ok c \<Longrightarrow> handler_of x c s = (rsp, s') \<Longrightarrow> committed c rsp \<Longrightarrow> in_sync s'"
  by (cases c) (auto intro: SpawnApp_sync StopApp_sync DeployApp_sync RollbackApp_sync RestartApp_sync ResetApp_sync GetApp_sync
      RegisterVolume_sync DeleteVolume_sync)

section \<open>Behind the middlewares\<close>

text \<open>The chain answers on its own and changes at most the audit log, or it runs the handler.\<close>

definition same_but_audit :: "Server \<Rightarrow> Server \<Rightarrow> bool" where
  "same_but_audit s s' \<longleftrightarrow> s'\<lparr>sv_audit := sv_audit s\<rparr> = s"

lemma same_but_audit_refl [simp]: "same_but_audit s s"
  by (simp add: same_but_audit_def)

lemma same_but_auditD:
  assumes "same_but_audit s s'"
  shows "sv_sup s' = sv_sup s" "sv_store s' = sv_store s" "sv_router s' = sv_router s" "sv_token s' = sv_token s"
    "sv_volumes s' = sv_volumes s" "sv_conditions s' = sv_conditions s"
  using assms unfolding same_but_audit_def by (cases s, cases s', simp)+

lemma audit_log_same [simp]: "same_but_audit s (audit_log x io e s)"
  by (simp add: same_but_audit_def audit_log_def)

lemma auditMiddleware_cases:
  assumes "auditMiddleware x lio ts ms r h s = (rsp, s')"
  shows "\<exists>s1. h s = (rsp, s1) \<and> same_but_audit s1 s'"
  using assms by (auto simp: auditMiddleware_def split: if_splits prod.splits option.splits)

lemma casMiddleware_cases:
  "casMiddleware r h s = h s \<or> (\<exists>w. casMiddleware r h s = add_warning w (h s)) \<or>
   (\<exists>v. casMiddleware r h s = (Some (writePreconditionFailed v), s))"
  by (auto simp: casMiddleware_def Let_def split: option.split)

lemma authMiddleware_cases: "authMiddleware r h s = h s \<or> authMiddleware r h s = (Some unauthorized, s)"
  by (simp add: authMiddleware_def)

lemma serve_cases:
  assumes "serve x lio ts ms r h s = (rsp, s')"
  shows "(\<exists>q. rsp = Some q \<and> (rsp_Status q = 401 \<or> rsp_Status q = 412) \<and> same_but_audit s s') \<or>
    (\<exists>rsp1 s1. h s = (rsp1, s1) \<and> same_but_audit s1 s' \<and> map_option rsp_Status rsp = map_option rsp_Status rsp1)"
proof -
  obtain s1 where c: "authMiddleware r (casMiddleware r h) s = (rsp, s1)" "same_but_audit s1 s'"
    using auditMiddleware_cases assms by (metis serve_def)
  consider (auth) "rsp = Some unauthorized" "s1 = s" | (cas) "casMiddleware r h s = (rsp, s1)"
    using c(1) authMiddleware_cases [of r "casMiddleware r h" s] by (metis Pair_inject)
  then show ?thesis
  proof cases
    case auth
    then show ?thesis using c(2) by (simp add: unauthorized_def)
  next
    case cas
    obtain rsp1 s2 where h: "h s = (rsp1, s2)" by (metis surj_pair)
    show ?thesis using casMiddleware_cases [of r h s]
    proof (elim disjE exE)
      fix w assume "casMiddleware r h s = add_warning w (h s)"
      then have w: "(rsp, s1) = add_warning w (rsp1, s2)" unfolding cas h .
      then have "map_option rsp_Status rsp = map_option rsp_Status rsp1" "s1 = s2"
        by (cases rsp1, simp_all add: add_warning_def)+
      then show ?thesis using c(2) h by blast
    next
      fix v assume "casMiddleware r h s = (Some (writePreconditionFailed v), s)"
      then show ?thesis using cas c(2) by (simp add: writePreconditionFailed_def)
    qed (use cas c(2) in metis)
  qed
qed

lemma committed_cong:
  "map_option rsp_Status rsp = map_option rsp_Status rsp1 \<Longrightarrow> committed c rsp = committed c rsp1"
  by (cases rsp; cases rsp1) (auto simp: committed_def)

lemma serve_sync:
  assumes "in_sync s" and "call_ok c" and "serve x lio ts ms r (handler_of x c) s = (rsp, s')" and "committed c rsp"
  shows "in_sync s'"
proof -
  consider (own) "same_but_audit s s'"
    | (run) rsp1 s1 where "handler_of x c s = (rsp1, s1)" "same_but_audit s1 s'"
        "map_option rsp_Status rsp = map_option rsp_Status rsp1"
    using serve_cases [OF assms(3)] by blast
  then show ?thesis
  proof cases
    case own
    then show ?thesis using assms(1) in_sync_cong [of s' s] by (simp add: same_but_auditD)
  next
    case run
    then have "in_sync s1" using handler_sync [OF assms(1,2)] assms(4) committed_cong by blast
    then show ?thesis using run(2) in_sync_cong [of s' s1] by (simp add: same_but_auditD)
  qed
qed

section \<open>Executions\<close>

inductive api_step :: "api_ext \<Rightarrow> Server \<Rightarrow> Server \<Rightarrow> bool" for x where
  request: "call_ok c \<Longrightarrow> serve x lio ts ms r (handler_of x c) s = (rsp, s') \<Longrightarrow> committed c rsp \<Longrightarrow> api_step x s s'"
| goroutine_step: "goroutine op \<Longrightarrow> api_step x s (s\<lparr>sv_sup := sup_exec u p op (sv_sup s)\<rparr>)"

lemma api_step_sync:
  assumes "api_step x s s'" and "in_sync s"
  shows "in_sync s'"
  using assms
proof (cases rule: api_step.cases)
  case (request c lio ts ms r rsp)
  then show ?thesis using serve_sync assms(2) by blast
next
  case (goroutine_step op u p)
  have "reg_ok (sv_sup s)" using assms(2) by (auto simp: in_sync_def)
  with goroutine_step have "shrinks (sv_sup s) (sup_exec u p op (sv_sup s))" by (simp add: goroutine_shrinks)
  then show ?thesis using in_sync_shrinks [OF assms(2)] goroutine_step by simp
qed

text \<open>A server whose supervisor has no app yet, with a store and a router.\<close>

definition fresh_server :: "Server \<Rightarrow> bool" where
  "fresh_server s \<longleftrightarrow> sp_apps (sv_sup s) = [] \<and> reg_ok (sv_sup s) \<and> sv_store s \<noteq> None \<and> sv_router s \<noteq> None"

lemma fresh_in_sync: "fresh_server s \<Longrightarrow> in_sync s"
  by (auto simp: fresh_server_def in_sync_def runs_ok_def)

lemma api_run_sync: "(api_step x)\<^sup>*\<^sup>* s s' \<Longrightarrow> in_sync s \<Longrightarrow> in_sync s'"
  by (induction rule: rtranclp_induct) (auto intro: api_step_sync)

section \<open>Properties\<close>

text \<open>
  Supervisor, router and store stay in step. After any sequence of API requests (behind audit, auth
  and compare-and-swap) and steps of the supervisor's goroutines, in which no Stop, Deploy or Rollback
  ended in a store failure, every registered app is dispatched to its own port and is persisted with
  that port and with the user it runs as; failed spawns and deploys leave nothing behind.
\<close>

theorem running_is_routed_and_persisted:
  assumes "fresh_server s0" and "(api_step x)\<^sup>*\<^sup>* s0 s" and "gm_get (sp_apps (sv_sup s)) i = Some a"
  shows "\<exists>st r cfg b. sv_store s = Some st \<and> sv_router s = Some r \<and> gm_get (s_apps st) i = Some cfg \<and> Get r i = Some b \<and>
    be_Port b = a_Port (app_at (sv_sup s) a) \<and> cfg_Port cfg = a_Port (app_at (sv_sup s) a) \<and>
    cfg_RunAs cfg = a_runAs (app_at (sv_sup s) a) \<and> cfg_RunAsRoot cfg = a_runAsRoot (app_at (sv_sup s) a)"
  using api_run_sync [OF assms(2) fresh_in_sync [OF assms(1)]] assms(3)
  unfolding in_sync_def runs_ok_def backed_def Get_def by blast

definition demo_ext :: api_ext where
  "demo_ext = \<lparr>ex_url_ok = \<lambda>_. True, ex_ip_str = \<lambda>_. [], ex_sha = \<lambda>_. ''h'', ex_shas = \<lambda>_. ''h'', ex_uuid_parse = \<lambda>u. u,
     ex_uuid_name = \<lambda>u. u, ex_enc = \<lambda>_. None\<rparr>"

definition demo_server :: Server where
  "demo_server = \<lparr>sv_sup = boot_sup slice_opts plain_host \<lparr>uidHWM = 0, uidFile = None\<rparr> None, sv_volumes = [],
     sv_router = Some NewRouter, sv_token = [], sv_store = Some (empty_Store empty_disk), sv_audit = None,
     sv_hostkey = None, sv_conditions = newConditionTracker\<rparr>"

definition demo_call :: call_io where
  "demo_call = \<lparr>ci_env = \<lambda>x. x, ci_deploy = alone, ci_stop = \<lparr>ti_graceful = True, ti_kill = True, ti_late = False, ti_held = False\<rparr>, ci_stop_env = \<lambda>x. x,
     ci_flush = State_Store.ok_io ''t'' 1, ci_uuid = Some ''u'', ci_flush2 = State_Store.ok_io ''t2'' 2, ci_uuid2 = ''u2'', ci_now = 9\<rparr>"

definition demo_spawn_request :: SpawnRequest where
  "demo_spawn_request = \<lparr>sr_Args = None, sr_Command = Some ''/bin/web'', sr_Entry = None, sr_Env = None,
     sr_HealthCheckPath = None, sr_Id = ''web'', sr_Limits = None, sr_NetIsolation = None, sr_Port = 3000,
     sr_RunAs = None, sr_RunAsRoot = None, sr_Runtime = None, sr_Sandbox = None, sr_VolumeMounts = None\<rparr>"

definition demo_rq :: "string \<Rightarrow> string \<Rightarrow> string \<Rightarrow> api_request" where
  "demo_rq m path ifm = \<lparr>rq_Method = m, rq_Path = path, rq_Authorization = [], rq_IfMatch = ifm, rq_RemoteAddr = ''local''\<rparr>"

definition demo_log :: log_io where
  "demo_log = \<lparr>lio_fail = None, lio_rotate = \<lparr>rt_close = True, rt_shift = \<lambda>_. True, rt_promote = True, rt_cursor = True, rt_open = True\<rparr>\<rparr>"

lemmas convert_eval = spawnToConfig_def parseRuntimePtr_def derefStr_def derefStrSlice_def derefBool_def limitsToInternal_def
  sandboxToInternal_def runAsToInternal_def volumeMountsToInternal_def

definition demo_spawned :: "api_response option \<times> Server" where
  "demo_spawned = serve demo_ext demo_log [] 0 (demo_rq ''POST'' ''/v1/apps'' [])
     (handler_of demo_ext (CSpawn demo_spawn_io demo_call (Inr demo_spawn_request))) demo_server"

lemma demo_spawn_serve: "demo_spawned = SpawnApp demo_ext demo_spawn_io demo_call (Inr demo_spawn_request) demo_server"
proof -
  have "\<not> casApplies (demo_rq ''POST'' ''/v1/apps'' [])"
    by (simp add: casApplies_def demo_rq_def extractAppID_def TrimPrefix_def CutPrefix_def HasPrefix_def)
  then show ?thesis
    by (simp add: demo_spawned_def serve_def auditMiddleware_def authMiddleware_def casMiddleware_def demo_server_def)
qed

lemma demo_spawned_registered: "gm_get (sp_apps (sv_sup (snd demo_spawned))) ''web'' = Some 0"
  unfolding demo_spawn_serve
  by (simp add: demo_server_def SpawnApp_def demo_spawn_request_def convert_eval validatePort_def ValidateID_def demo_call_def demo_ext_def
      spawn_eval applyDefaultSandbox_def canApplyDefaultSandbox_def plain_host_def route_app_def net_host_def
      SetAddr_def newBackend_def AddApp_def newAppMetadata_def flush_eval with_identity_def)

lemma demo_fresh: "fresh_server demo_server"
  by (auto simp: fresh_server_def demo_server_def boot_sup_def reg_ok_def pool_inv_def)

lemma demo_step: "api_step demo_ext demo_server (snd demo_spawned)"
proof -
  let ?c = "CSpawn demo_spawn_io demo_call (Inr demo_spawn_request)"
  have ok: "call_ok ?c" by (simp add: demo_call_def quiet_id)
  obtain rsp s' where "demo_spawned = (rsp, s')" by (metis surj_pair)
  then have "serve demo_ext demo_log [] 0 (demo_rq ''POST'' ''/v1/apps'' []) (handler_of demo_ext ?c) demo_server = (rsp, snd demo_spawned)"
    by (simp add: demo_spawned_def)
  from api_step.request [OF ok this] show ?thesis by (simp add: committed_def)
qed

theorem running_is_routed_and_persisted_witness:
  "\<exists>s st cfg. (api_step demo_ext)\<^sup>*\<^sup>* demo_server s \<and> gm_get (sp_apps (sv_sup s)) ''web'' = Some 0 \<and>
     sv_store s = Some st \<and> gm_get (s_apps st) ''web'' = Some cfg \<and> cfg_Port cfg = a_Port (app_at (sv_sup s) 0)"
proof -
  have "(api_step demo_ext)\<^sup>*\<^sup>* demo_server (snd demo_spawned)" using demo_step by blast
  from running_is_routed_and_persisted [OF demo_fresh this demo_spawned_registered] this demo_spawned_registered
  show ?thesis by blast
qed

end
