(* ===== verification/Admin_Guarantees.thy ===== *)
theory Admin_Guarantees
  imports Admin_Consistency
begin

text \<open>
  What a client of the admin API can rely on: no effect without authentication, no lost update under
  \<open>If-Match\<close>, what a rollback restores and records, and the request that cannot be repeated when the
  store fails in the middle of a Stop.
\<close>

section \<open>The successful path of a deploy and a rollback\<close>

lemma deploy_response_status: "rsp_Status (deploy_response e) \<noteq> 200" "rsp_Status (rollback_response e) \<noteq> 200"
  by (simp_all add: deploy_response_def rollback_response_def split: deploy_error.split wait_error.split)

lemma decode_status: "rsp_Status (writeDecodeError e) \<noteq> 200"
  by (simp add: writeDecodeError_def split: decode_error.split)

lemma store_error_200: "rsp_Status (writeStoreError e) \<noteq> 200"
  using store_error_status [of e] by auto

lemma DeployApp_200:
  assumes run: "DeployApp x dio io r i body s = (Some q, s')" and ok: "rsp_Status q = 200" and st: "sv_store s = Some st"
  obtains dcfg v2 su router st1 rel st2 where "cfg_ID (dc_Config dcfg) = i"
    "Deploy (ex_url_ok x) (ex_ip_str x) dio dcfg (ci_deploy io) (sv_sup s) (sv_router s) = (Inr v2, su, router)"
    "AddApp (ex_sha x) (ci_flush io) (ci_uuid io) (with_identity (app_at su v2) (dc_Config dcfg)) st = (None, st1)"
    "CreateRelease (ex_sha x) (ci_flush2 io) (ci_uuid2 io) i
       \<lparr>ri_Spec = deploy_spec x r (with_identity (app_at su v2) (dc_Config dcfg)), ri_PriorActivePhase = []\<rparr> st1 = (Inr rel, st2)"
    "s' = s\<lparr>sv_sup := su, sv_router := router, sv_store := Some st2\<rparr>"
proof -
  obtain req where b: "body = Inr req" using run ok decode_status by (cases body) (auto simp: DeployApp_def)
  have p: "validatePort (dr_Port req)" using run ok by (auto simp: DeployApp_def b split: if_splits)
  obtain dcfg where d: "deployToConfig i req = Inr dcfg"
    using run ok p by (cases "deployToConfig i req") (auto simp: DeployApp_def b)
  obtain res su router where dep: "Deploy (ex_url_ok x) (ex_ip_str x) dio dcfg (ci_deploy io) (sv_sup s) (sv_router s) = (res, su, router)"
    by (metis surj_pair)
  note run' = run [unfolded DeployApp_def b sum.case d Let_def dep prod.case st option.case]
  obtain v2 where v2: "res = Inr v2" using run' p ok deploy_response_status(1) by (cases res) auto
  let ?cfg = "with_identity (app_at su v2) (dc_Config dcfg)"
  obtain e st1 where add: "AddApp (ex_sha x) (ci_flush io) (ci_uuid io) ?cfg st = (e, st1)" by (metis surj_pair)
  obtain cr st2 where cr: "CreateRelease (ex_sha x) (ci_flush2 io) (ci_uuid2 io) i
      \<lparr>ri_Spec = deploy_spec x r ?cfg, ri_PriorActivePhase = []\<rparr> st1 = (cr, st2)" by (metis surj_pair)
  note run'' = run' [unfolded v2 sum.case add prod.case cr]
  have e: "e = None" using run'' p ok store_error_200 by (cases e) auto
  obtain rel where "cr = Inr rel" using run'' p ok e by (cases cr) auto
  then show thesis
    using that [OF _ dep [unfolded v2] add [unfolded e] cr [unfolded \<open>cr = Inr rel\<close>]] run'' p e deployToConfig_ID [OF d] by simp
qed

lemma RollbackApp_200:
  assumes run: "RollbackApp x dio io r i to s = (Some q, s')" and ok: "rsp_Status q = 200" and st: "sv_store s = Some st"
  obtains target snap dcfg v2 su router st1 rel st2 where "to > 0" "FindRelease st i to = Some target"
    "rs_ConfigSnapshot (rel_Spec target) = Some snap" "dc_Config dcfg = snap\<lparr>cfg_ID := i\<rparr>"
    "Deploy (ex_url_ok x) (ex_ip_str x) dio dcfg (ci_deploy io) (sv_sup s) (sv_router s) = (Inr v2, su, router)"
    "AddApp (ex_sha x) (ci_flush io) (ci_uuid io) (with_identity (app_at su v2) (dc_Config dcfg)) st = (None, st1)"
    "CreateRelease (ex_sha x) (ci_flush2 io) (ci_uuid2 io) i
       \<lparr>ri_Spec = rollback_spec x r target (with_identity (app_at su v2) (dc_Config dcfg)), ri_PriorActivePhase = ReleasePhaseRolledBack\<rparr> st1 = (Inr rel, st2)"
    "s' = s\<lparr>sv_sup := su, sv_router := router, sv_store := Some st2\<rparr>"
proof -
  have to: "\<not> to \<le> 0" using run ok st by (auto simp: RollbackApp_def split: if_splits)
  obtain target where t: "FindRelease st i to = Some target"
    using run ok st to by (cases "FindRelease st i to") (auto simp: RollbackApp_def)
  obtain snap where sn: "rs_ConfigSnapshot (rel_Spec target) = Some snap"
    using run ok st to t by (cases "rs_ConfigSnapshot (rel_Spec target)") (auto simp: RollbackApp_def)
  define dcfg where "dcfg = \<lparr>dc_Config = snap\<lparr>cfg_ID := i\<rparr>, dc_ReadyTimeout = 0, dc_PollInterval = 0, dc_GracefulV1Timeout = 0\<rparr>"
  obtain res su router where dep: "Deploy (ex_url_ok x) (ex_ip_str x) dio dcfg (ci_deploy io) (sv_sup s) (sv_router s) = (res, su, router)"
    by (metis surj_pair)
  note run' = run [unfolded RollbackApp_def st option.case t sn Let_def dcfg_def [symmetric] dep prod.case]
  obtain v2 where v2: "res = Inr v2" using run' to ok deploy_response_status(2) by (cases res) auto
  let ?cfg = "with_identity (app_at su v2) (dc_Config dcfg)"
  obtain e st1 where add: "AddApp (ex_sha x) (ci_flush io) (ci_uuid io) ?cfg st = (e, st1)" by (metis surj_pair)
  obtain cr st2 where cr: "CreateRelease (ex_sha x) (ci_flush2 io) (ci_uuid2 io) i
      \<lparr>ri_Spec = rollback_spec x r target ?cfg, ri_PriorActivePhase = ReleasePhaseRolledBack\<rparr> st1 = (cr, st2)" by (metis surj_pair)
  note run'' = run' [unfolded v2 sum.case add prod.case cr]
  have e: "e = None" using run'' to ok by (cases e) auto
  obtain rel where "cr = Inr rel" using run'' to ok e by (cases cr) auto
  then show thesis
    using that [OF _ t sn _ dep [unfolded v2] add [unfolded e] cr [unfolded \<open>cr = Inr rel\<close>]] run'' to e by (simp add: dcfg_def)
qed

section \<open>Resource versions\<close>

lemma AddApp_None:
  assumes "AddApp sha io u cfg st = (None, st')" and "gm_get (s_metadata st) (cfg_ID cfg) = Some m"
  shows "gm_get (s_metadata st') (cfg_ID cfg) = Some (bump_spec m)" and "s_releases st' = s_releases st"
  using assms by (auto simp: AddApp_def commit_swap_def Let_def split: if_splits option.splits)

lemma uwrap64_two: "0 \<le> v \<Longrightarrow> v < 2 ^ 64 \<Longrightarrow> uwrap64 (uwrap64 (v + 1) + 1) \<noteq> v"
proof -
  assume v: "0 \<le> v" "v < 2 ^ 64"
  have "uwrap64 (uwrap64 (v + 1) + 1) = (v + 2) mod 2 ^ 64"
    using mod_add_left_eq [of "v + 1" "2 ^ 64" 1] by (simp add: add.assoc uwrap64_def)
  moreover have "(v + 2) mod 2 ^ 64 = (if v + 2 < 2 ^ 64 then v + 2 else v + 2 - 2 ^ 64)"
    using v mod_pos_geq [of "2 ^ 64" "v + 2"] by auto
  ultimately show ?thesis by simp
qed

definition uint64_ok :: "int \<Rightarrow> bool" where
  "uint64_ok v \<longleftrightarrow> 0 \<le> v \<and> v < 2 ^ 64"

text \<open>A deploy or rollback that answers 200 has moved the resource version of the app.\<close>

lemma version_moves:
  assumes add: "AddApp sha io u cfg st = (None, st1)" and cr: "CreateRelease sha io2 u2 i inp st1 = (Inr rel, st2)"
    and i: "cfg_ID cfg = i" and m: "Meta st i = Some m" and v: "uint64_ok (md_ResourceVersion m)"
  shows "\<exists>m2. Meta st2 i = Some m2 \<and> md_ResourceVersion m2 \<noteq> md_ResourceVersion m \<and> uint64_ok (md_ResourceVersion m2)"
proof -
  have m1: "gm_get (s_metadata st1) i = Some (bump_spec m)" using AddApp_None [OF add] m i by (simp add: Meta_def)
  obtain meta where "gm_get (s_metadata st1) i = Some meta"
    "s_metadata st2 = gm_set i (meta\<lparr>md_ResourceVersion := uwrap64 (md_ResourceVersion meta + 1)\<rparr>) (s_metadata st1)"
    by (rule CreateRelease_Inr [OF cr])
  moreover have "md_ResourceVersion (bump_spec m) = uwrap64 (md_ResourceVersion m + 1)" by (simp add: bump_spec_def)
  ultimately have "Meta st2 i = Some ((bump_spec m)\<lparr>md_ResourceVersion := uwrap64 (uwrap64 (md_ResourceVersion m + 1) + 1)\<rparr>)"
    using m1 by (simp add: Meta_def)
  then show ?thesis using uwrap64_two v uwrap64_range by (auto simp: uint64_ok_def)
qed

lemma FormatUint_nat_inject: "uint64_ok v \<Longrightarrow> uint64_ok w \<Longrightarrow> FormatUint (nat v) = FormatUint (nat w) \<longleftrightarrow> v = w"
  by (auto simp: FormatUint_inject uint64_ok_def)

lemma Trim_Nil [simp]: "Trim c [] = []"
  by (simp add: Trim_def)

text \<open>What the middleware does with a stale version.\<close>

lemma stale_version_412:
  assumes cas: "casApplies r" and i: "extractAppID (rq_Path r) = i" and auth: "sv_token s = [] \<or> checkBearer s r"
    and st: "sv_store s = Some st" and m: "Meta st i = Some m"
    and old: "Trim (CHR 0x22) (TrimSpace (rq_IfMatch r)) = FormatUint (nat v)"
    and ne: "FormatUint (nat v) \<noteq> FormatUint (nat (md_ResourceVersion m))"
  shows "\<exists>s'. serve x lio ts ms r h s = (Some (writePreconditionFailed (FormatUint (nat (md_ResourceVersion m)))), s') \<and>
    same_but_audit s s'"
proof -
  have "i \<noteq> []" using cas i by (auto simp: casApplies_def Let_def split: if_splits)
  moreover have "TrimSpace (rq_IfMatch r) \<noteq> []" using old FormatUint_neq_Nil [of "nat v"] by (metis Trim_Nil)
  ultimately have "casMiddleware r h s = (Some (writePreconditionFailed (FormatUint (nat (md_ResourceVersion m)))), s)"
    using cas i st m old ne by (simp add: casMiddleware_def)
  then have "authMiddleware r (casMiddleware r h) s = (Some (writePreconditionFailed (FormatUint (nat (md_ResourceVersion m)))), s)"
    using auth by (auto simp: authMiddleware_def)
  then show ?thesis by (auto simp: serve_def auditMiddleware_def)
qed

section \<open>Properties\<close>

text \<open>
  C21: No lost update. When a deploy or rollback of an app answers 200, the next request of the kinds the
  middleware guards (\<open>casApplies\<close>: a DELETE, PUT or PATCH under the app's path, a deploy or a rollback) for
  the same app that passes authentication and carries in \<open>If-Match\<close> (quoted or not) the resource version
  from before is answered 412 with the current version in the ETag, whatever its handler would do, and
  changes nothing but the audit log. Restart and reset requests are not guarded.
\<close>

theorem no_lost_update:
  assumes "sv_store s = Some st" and "Meta st i = Some m" and "uint64_ok (md_ResourceVersion m)"
    and "h1 = DeployApp x dio io r1 i body \<or> h1 = RollbackApp x dio io r1 i to"
    and "serve x lio ts ms r1 h1 s = (Some q, s1)" and "rsp_Status q = 200"
    and "casApplies r2" and "extractAppID (rq_Path r2) = i" and "sv_token s1 = [] \<or> checkBearer s1 r2"
    and "Trim (CHR 0x22) (TrimSpace (rq_IfMatch r2)) = FormatUint (nat (md_ResourceVersion m))"
  shows "\<exists>st1 m1 s2. sv_store s1 = Some st1 \<and> Meta st1 i = Some m1 \<and>
    serve x lio' ts' ms' r2 h2 s1 = (Some (writePreconditionFailed (FormatUint (nat (md_ResourceVersion m1)))), s2) \<and>
    same_but_audit s1 s2"
proof -
  obtain q1 t1 where h: "h1 s = (Some q1, t1)" "same_but_audit t1 s1" "rsp_Status q1 = 200"
    using serve_cases [OF assms(5)] assms(6) by (auto simp: map_option_case split: option.splits)
  have "\<exists>st2 m2. sv_store t1 = Some st2 \<and> Meta st2 i = Some m2 \<and> md_ResourceVersion m2 \<noteq> md_ResourceVersion m \<and>
      uint64_ok (md_ResourceVersion m2)"
    using assms(4)
  proof
    assume "h1 = DeployApp x dio io r1 i body"
    then have "DeployApp x dio io r1 i body s = (Some q1, t1)" using h(1) by simp
    then show ?thesis
      by (rule DeployApp_200 [OF _ h(3) assms(1)])
        (use version_moves [OF _ _ _ assms(2,3)] in \<open>fastforce simp: with_identity_def\<close>)
  next
    assume "h1 = RollbackApp x dio io r1 i to"
    then have "RollbackApp x dio io r1 i to s = (Some q1, t1)" using h(1) by simp
    then show ?thesis
      by (rule RollbackApp_200 [OF _ h(3) assms(1)])
        (use version_moves [OF _ _ _ assms(2,3)] in \<open>fastforce simp: with_identity_def\<close>)
  qed
  then obtain st2 m2 where m2: "sv_store s1 = Some st2" "Meta st2 i = Some m2"
    "FormatUint (nat (md_ResourceVersion m)) \<noteq> FormatUint (nat (md_ResourceVersion m2))"
    using FormatUint_nat_inject assms(3) h(2) by (metis same_but_auditD(2))
  then show ?thesis using stale_version_412 [OF assms(7-9) m2(1,2) assms(10)] by blast
qed

text \<open>A server with a store in which the demo app runs, and a deploy of it that succeeds.\<close>

definition demo_web :: Server where
  "demo_web = demo_server\<lparr>sv_sup := demo_state, sv_store := Some web_store\<rparr>"

definition demo_web_call :: call_io where
  "demo_web_call = demo_call"

definition demo_deploy_request :: DeployRequest where
  "demo_deploy_request = \<lparr>dr_Args = None, dr_Command = Some ''/bin/web'', dr_Entry = None, dr_Env = None, dr_GracefulV1Ms = None,
     dr_HealthCheckPath = None, dr_Limits = None, dr_NetIsolation = None, dr_PollIntervalMs = None, dr_Port = 3001,
     dr_ReadyTimeoutMs = None, dr_RunAs = None, dr_RunAsRoot = None, dr_Runtime = None, dr_Sandbox = None, dr_VolumeMounts = None\<rparr>"

lemma demo_ext_sel: "ex_url_ok demo_ext = (\<lambda>_. True)" "ex_ip_str demo_ext = (\<lambda>_. [])" "ex_sha demo_ext = (\<lambda>_. ''h'')"
  by (simp_all add: demo_ext_def)

lemma demo_web_call_sel:
  "ci_deploy demo_web_call = alone" "ci_flush demo_web_call = State_Store.ok_io ''t'' 1"
  "ci_uuid demo_web_call = Some ''u''" "ci_flush2 demo_web_call = State_Store.ok_io ''t2'' 2" "ci_uuid2 demo_web_call = ''u2''"
  by (simp_all add: demo_web_call_def demo_call_def)

lemma ok_flush: "fl_err (flushFullWithReleases (\<lambda>_. ''h'') (State_Store.ok_io t n) a m r v d) = None"
  by (simp add: flush_eval)

lemma ok_AddApp:
  assumes "cfg_ID cfg \<noteq> []" and "gm_get (s_metadata st) (cfg_ID cfg) = Some m"
  shows "\<exists>st'. AddApp (\<lambda>_. ''h'') (State_Store.ok_io t n) u cfg st = (None, st') \<and>
    gm_get (s_apps st') (cfg_ID cfg) \<noteq> None \<and> gm_get (s_metadata st') (cfg_ID cfg) = Some (bump_spec m) \<and> s_releases st' = s_releases st"
  using assms by (simp add: AddApp_def flushFull_def ok_flush commit_swap_def Let_def)

lemma ok_CreateRelease:
  assumes "i \<noteq> []" and "gm_get (s_metadata st) i \<noteq> None" and "gm_get (s_apps st) i \<noteq> None"
    and "ri_PriorActivePhase inp = [] \<or> ri_PriorActivePhase inp = ReleasePhaseRolledBack"
  shows "\<exists>rel st'. CreateRelease (\<lambda>_. ''h'') (State_Store.ok_io t n) u i inp st = (Inr rel, st')"
  using assms by (auto simp: CreateRelease_def Let_def ok_flush commit_swap_def)

lemma demo_deploy_200:
  "\<exists>q s'. DeployApp demo_ext demo_deploy_io demo_web_call r ''web'' (Inr demo_deploy_request) demo_web = (Some q, s') \<and> rsp_Status q = 200"
proof -
  have cfg: "deployToConfig ''web'' demo_deploy_request = Inr demo_dc"
    by (simp add: deployToConfig_def demo_deploy_request_def convert_eval msOrDuration_def demo_dc_def demo_cfg_def zero_Config_def)
  obtain v2 su router where dep: "Deploy (\<lambda>_. True) (\<lambda>_. []) demo_deploy_io demo_dc alone
      demo_state (Some NewRouter) = (Inr v2, su, router)" using demo_deploy by (metis prod.collapse)
  let ?cfg = "with_identity (app_at su v2) (dc_Config demo_dc)"
  have id: "cfg_ID ?cfg = ''web''" unfolding with_identity_def demo_dc_def demo_cfg_def by simp
  have meta: "gm_get (s_metadata web_store) (cfg_ID ?cfg) = Some web_meta" by (simp add: id web_store_def)
  obtain st1 where add: "AddApp (\<lambda>_. ''h'') (State_Store.ok_io ''t'' 1) (Some ''u'') ?cfg web_store = (None, st1)"
    "gm_get (s_apps st1) ''web'' \<noteq> None" "gm_get (s_metadata st1) ''web'' = Some (bump_spec web_meta)"
    using ok_AddApp [OF _ meta] id by (metis list.distinct(1))
  obtain rel st2 where cr: "CreateRelease (\<lambda>_. ''h'') (State_Store.ok_io ''t2'' 2) ''u2'' ''web''
      \<lparr>ri_Spec = deploy_spec demo_ext r ?cfg, ri_PriorActivePhase = []\<rparr> st1 = (Inr rel, st2)"
    using ok_CreateRelease [of "''web''" st1] add(2,3) by fastforce
  have sv: "sv_sup demo_web = demo_state" "sv_router demo_web = Some NewRouter" "sv_store demo_web = Some web_store"
    by (simp_all add: demo_web_def demo_server_def)
  have port: "validatePort (dr_Port demo_deploy_request)" by (simp add: demo_deploy_request_def validatePort_def)
  show ?thesis
    unfolding DeployApp_def sum.case cfg Let_def demo_ext_sel demo_web_call_sel sv dep prod.case option.case add(1) cr using port by simp
qed

lemma demo_web_cas:
  "casApplies (demo_rq ''POST'' ''/v1/apps/web/deploy'' v)" "extractAppID (rq_Path (demo_rq m ''/v1/apps/web/deploy'' v)) = ''web''"
  by (simp_all add: casApplies_def demo_rq_def extractAppID_def TrimPrefix_def CutPrefix_def HasPrefix_def HasSuffix_def)

lemma demo_web_open: "sv_audit demo_web = None" "sv_token demo_web = []" "sv_store demo_web = Some web_store"
  by (simp_all add: demo_web_def demo_server_def)

lemma demo_serve_deploy:
  obtains q s' where "serve demo_ext demo_log [] 0 (demo_rq ''POST'' ''/v1/apps/web/deploy'' [])
     (DeployApp demo_ext demo_deploy_io demo_web_call r ''web'' (Inr demo_deploy_request)) demo_web = (Some q, s')"
    "rsp_Status q = 200" "sv_token s' = []"
proof -
  let ?h = "DeployApp demo_ext demo_deploy_io demo_web_call r ''web'' (Inr demo_deploy_request)"
  let ?r = "demo_rq ''POST'' ''/v1/apps/web/deploy'' []"
  obtain q s' where d: "?h demo_web = (Some q, s')" "rsp_Status q = 200" using demo_deploy_200 by blast
  have "sv_token s' = []" by (rule DeployApp_200 [OF d demo_web_open(3)]) (simp add: demo_web_open)
  moreover have "casMiddleware ?r ?h demo_web = add_warning ''299 - \"unconditional-write\"'' (?h demo_web)"
    using demo_web_cas by (simp add: casMiddleware_def demo_rq_def TrimSpace_def Let_def)
  then have "serve demo_ext demo_log [] 0 ?r ?h demo_web = add_warning ''299 - \"unconditional-write\"'' (Some q, s')"
    by (simp add: serve_def auditMiddleware_def authMiddleware_def demo_web_open d)
  ultimately show thesis using that d(2) by (simp add: add_warning_def)
qed

theorem no_lost_update_witness:
  "\<exists>s1 m1 s2. serve demo_ext demo_log [] 0 (demo_rq ''POST'' ''/v1/apps/web/deploy'' ''1'')
     (DeployApp demo_ext demo_deploy_io demo_web_call (demo_rq ''POST'' ''/v1/apps/web/deploy'' ''1'') ''web'' (Inr demo_deploy_request)) s1 =
     (Some (writePreconditionFailed m1), s2) \<and> same_but_audit s1 s2"
proof -
  obtain q s1 where d: "serve demo_ext demo_log [] 0 (demo_rq ''POST'' ''/v1/apps/web/deploy'' [])
      (DeployApp demo_ext demo_deploy_io demo_web_call (demo_rq ''POST'' ''/v1/apps/web/deploy'' []) ''web'' (Inr demo_deploy_request)) demo_web = (Some q, s1)"
    "rsp_Status q = 200" "sv_token s1 = []" by (rule demo_serve_deploy)
  have m: "Meta web_store ''web'' = Some web_meta" "md_ResourceVersion web_meta = 1" by (simp_all add: Meta_def web_store_def web_meta_def)
  have v: "Trim (CHR 0x22) (TrimSpace (rq_IfMatch (demo_rq ''POST'' ''/v1/apps/web/deploy'' ''1''))) = FormatUint (nat (md_ResourceVersion web_meta))"
    unfolding m(2) demo_rq_def by code_simp
  have rv: "uint64_ok (md_ResourceVersion web_meta)" by (simp add: m(2) uint64_ok_def)
  from no_lost_update [OF demo_web_open(3) m(1) rv disjI1 [OF refl] d(1,2) demo_web_cas(1,2) disjI1 [OF d(3)] v]
  show ?thesis by blast
qed

section \<open>What a rollback records\<close>

text \<open>
  Provenance of a ledger: a release made by a rollback names in \<open>OriginalArtifactRelease\<close> a release of the
  ledger that is not itself a rollback, so chains of rollbacks are flattened; other releases name none.
\<close>

definition prov_ok :: "Release list \<Rightarrow> bool" where
  "prov_ok rs \<longleftrightarrow> (\<forall>r \<in> set rs.
     if rs_RolledBackFrom (rel_Spec r) = 0 then rs_OriginalArtifactRelease (rel_Spec r) = 0
     else rs_OriginalArtifactRelease (rel_Spec r) \<noteq> 0 \<and>
       (\<exists>o' \<in> set rs. rs_ReleaseSeq (rel_Spec o') = rs_OriginalArtifactRelease (rel_Spec r) \<and> rs_RolledBackFrom (rel_Spec o') = 0))"

lemma AddApp_releases: "AddApp sha io u cfg st = (None, st') \<Longrightarrow> s_releases st' = s_releases st"
  by (auto simp: AddApp_def commit_swap_def Let_def split: if_splits option.splits sum.splits)

lemma CreateRelease_ledger:
  assumes "CreateRelease sha io u i inp s = (Inr rel, s')"
  shows "Releases s' i = map (demote (prior_phase inp)) (Releases s i) @ [rel]" "s_apps s' = s_apps s"
    "\<exists>meta. rel = release_of io u meta inp (Releases s i)"
  by (rule CreateRelease_Inr [OF assms], auto simp: Releases_def rels_of_def)+

lemma prov_ok_snoc:
  assumes "prov_ok rs" and "if rs_RolledBackFrom (rel_Spec r) = 0 then rs_OriginalArtifactRelease (rel_Spec r) = 0
     else rs_OriginalArtifactRelease (rel_Spec r) \<noteq> 0 \<and>
       (\<exists>o' \<in> set rs. rs_ReleaseSeq (rel_Spec o') = rs_OriginalArtifactRelease (rel_Spec r) \<and> rs_RolledBackFrom (rel_Spec o') = 0)"
  shows "prov_ok (map (demote p) rs @ [r])"
  using assms unfolding prov_ok_def by (auto 4 4 split: if_splits)

lemma resolve_provenance:
  assumes "prov_ok rs" and "t \<in> set rs" and "rs_ReleaseSeq (rel_Spec t) > 0"
  shows "resolveOriginalArtifactRelease t \<noteq> 0 \<and>
    (\<exists>o' \<in> set rs. rs_ReleaseSeq (rel_Spec o') = resolveOriginalArtifactRelease t \<and> rs_RolledBackFrom (rel_Spec o') = 0)"
  using assms by (cases "rs_RolledBackFrom (rel_Spec t) = 0") (fastforce simp: prov_ok_def resolveOriginalArtifactRelease_def)+

text \<open>
  C22: What a rollback does. On a well-formed registry, and a ledger in which every rollback names a release
  that is not one (\<open>prov_ok\<close>), when a rollback of an app to release \<open>to\<close> answers 200, with only goroutines
  of the supervisor running beside it up to the swap and nothing after, the app registered under the id
  executes the command, arguments, runtime and environment the snapshot of that release resolves to, with
  its port and health path; the store holds the snapshot (with the identity the process runs under) as
  the app's configuration; the ledger has one more release, the only Active one, which names \<open>to\<close> and
  carries the configuration; the release that was active is RolledBack, every other one is unchanged, and
  the ledger keeps its provenance.
\<close>

theorem rollback_restores:
  assumes "RollbackApp x dio io r i to s = (Some q, s')" and "rsp_Status q = 200" and "sv_store s = Some st"
    and "windows quiet (ci_deploy io)" and "de_swapped (ci_deploy io) = (\<lambda>x. x)" and "de_stopping (ci_deploy io) = (\<lambda>x. x)"
    and "reg_ok (sv_sup s)" and "prov_ok (Releases st i)"
  shows "\<exists>target snap cfg v2 st' rel. FindRelease st i to = Some target \<and> rs_ConfigSnapshot (rel_Spec target) = Some snap \<and>
    gm_get (sp_apps (sv_sup s')) i = Some v2 \<and> runs_config snap (app_at (sv_sup s') v2) \<and>
    cfg = with_identity (app_at (sv_sup s') v2) (snap\<lparr>cfg_ID := i\<rparr>) \<and>
    sv_store s' = Some st' \<and> gm_get (s_apps st') i = Some cfg \<and>
    Releases st' i = map (demote ReleasePhaseRolledBack) (Releases st i) @ [rel] \<and>
    ActiveRelease st' i = Some rel \<and> rs_RolledBackFrom (rel_Spec rel) = to \<and> rs_ConfigSnapshot (rel_Spec rel) = Some cfg \<and>
    prov_ok (Releases st' i)"
proof -
  obtain target snap dcfg v2 su router st1 rel st2 where to: "to > 0" and t: "FindRelease st i to = Some target"
    "rs_ConfigSnapshot (rel_Spec target) = Some snap" and dc: "dc_Config dcfg = snap\<lparr>cfg_ID := i\<rparr>"
    and dep: "Deploy (ex_url_ok x) (ex_ip_str x) dio dcfg (ci_deploy io) (sv_sup s) (sv_router s) = (Inr v2, su, router)"
    and add: "AddApp (ex_sha x) (ci_flush io) (ci_uuid io) (with_identity (app_at su v2) (dc_Config dcfg)) st = (None, st1)"
    and cr: "CreateRelease (ex_sha x) (ci_flush2 io) (ci_uuid2 io) i
       \<lparr>ri_Spec = rollback_spec x r target (with_identity (app_at su v2) (dc_Config dcfg)), ri_PriorActivePhase = ReleasePhaseRolledBack\<rparr> st1 = (Inr rel, st2)"
    and s': "s' = s\<lparr>sv_sup := su, sv_router := router, sv_store := Some st2\<rparr>"
    using assms(1-3) by (rule RollbackApp_200)
  let ?cfg = "with_identity (app_at su v2) (snap\<lparr>cfg_ID := i\<rparr>)" and ?rs = "Releases st i"
  have rs1: "Releases st1 i = ?rs" using AddApp_releases [OF add] by (simp add: Releases_def)
  have led: "Releases st2 i = map (demote ReleasePhaseRolledBack) ?rs @ [rel]" and apps: "s_apps st2 = s_apps st1"
    using CreateRelease_ledger(1,2) [OF cr] by (simp_all add: rs1 prior_phase_def)
  obtain meta where rel: "rel = release_of (ci_flush2 io) (ci_uuid2 io) meta
      \<lparr>ri_Spec = rollback_spec x r target ?cfg, ri_PriorActivePhase = ReleasePhaseRolledBack\<rparr> ?rs"
    using CreateRelease_ledger(3) [OF cr] unfolding rs1 dc by blast
  have target: "target \<in> set ?rs" "rs_ReleaseSeq (rel_Spec target) = to"
    using t(1) by (auto simp: FindRelease_def Releases_def find_Some_iff)
  have spec: "rs_RolledBackFrom (rel_Spec rel) = to" "rs_ConfigSnapshot (rel_Spec rel) = Some ?cfg"
    "rs_OriginalArtifactRelease (rel_Spec rel) = resolveOriginalArtifactRelease target" "rel_Phase rel = ReleasePhaseActive"
    using target by (simp_all add: rel release_of_def rollback_spec_def)
  have "prov_ok (Releases st2 i)"
    unfolding led by (rule prov_ok_snoc [OF assms(8)]) (use resolve_provenance [OF assms(8) target(1)] target(2) to spec in simp)
  moreover have "ActiveRelease st2 i = Some rel"
    using led spec(4) demote_phase [of ReleasePhaseRolledBack] by (auto simp: ActiveRelease_def Releases_def intro!: find_snoc)
  moreover have "gm_get (s_apps st2) i = Some ?cfg" using AddApp_apps(1) [OF add] by (simp add: apps dc with_identity_def)
  moreover have "gm_get (sp_apps su) i = Some v2" "runs_config snap (app_at su v2)"
    using Deploy_effect [OF assms(4,7) _ dep, of i] assms(5,6) dc by (simp_all add: runs_config_def)
  ultimately show ?thesis using led t spec s' by auto
qed

definition web_ledger :: "Release list" where
  "web_ledger = [\<lparr>rel_UID = ''r1'', rel_Phase = ReleasePhaseActive, rel_CreationTimestamp = 1,
     rel_Spec = zero_ReleaseSpec\<lparr>rs_ReleaseSeq := 1, rs_ConfigSnapshot := Some (dc_Config demo_dc)\<rparr>\<rparr>]"

definition demo_ledger_web :: Server where
  "demo_ledger_web = demo_web\<lparr>sv_store := Some (web_store\<lparr>s_releases := [(''web'', web_ledger)]\<rparr>)\<rparr>"

lemma demo_rollback_200:
  "\<exists>q s'. RollbackApp demo_ext demo_deploy_io demo_web_call r ''web'' 1 demo_ledger_web = (Some q, s') \<and> rsp_Status q = 200"
proof -
  let ?st = "web_store\<lparr>s_releases := [(''web'', web_ledger)]\<rparr>"
  have t: "FindRelease ?st ''web'' 1 = Some (hd web_ledger)" by (simp add: FindRelease_def rels_of_def web_ledger_def)
  have sn: "rs_ConfigSnapshot (rel_Spec (hd web_ledger)) = Some (dc_Config demo_dc)" by (simp add: web_ledger_def)
  have dc: "\<lparr>dc_Config = (dc_Config demo_dc)\<lparr>cfg_ID := ''web''\<rparr>, dc_ReadyTimeout = 0, dc_PollInterval = 0, dc_GracefulV1Timeout = 0\<rparr> = demo_dc"
    by (simp add: demo_dc_def demo_cfg_def zero_Config_def)
  obtain v2 su router where dep: "Deploy (\<lambda>_. True) (\<lambda>_. []) demo_deploy_io demo_dc alone
      demo_state (Some NewRouter) = (Inr v2, su, router)" using demo_deploy by (metis prod.collapse)
  let ?cfg = "with_identity (app_at su v2) (dc_Config demo_dc)"
  have id: "cfg_ID ?cfg = ''web''" unfolding with_identity_def demo_dc_def demo_cfg_def by simp
  have meta: "gm_get (s_metadata ?st) (cfg_ID ?cfg) = Some web_meta" by (simp add: id web_store_def)
  obtain st1 where add: "AddApp (\<lambda>_. ''h'') (State_Store.ok_io ''t'' 1) (Some ''u'') ?cfg ?st = (None, st1)"
    "gm_get (s_apps st1) ''web'' \<noteq> None" "gm_get (s_metadata st1) ''web'' = Some (bump_spec web_meta)"
    using ok_AddApp [OF _ meta] id by (metis list.distinct(1))
  obtain rel st2 where cr: "CreateRelease (\<lambda>_. ''h'') (State_Store.ok_io ''t2'' 2) ''u2'' ''web''
      \<lparr>ri_Spec = rollback_spec demo_ext r (hd web_ledger) ?cfg, ri_PriorActivePhase = ReleasePhaseRolledBack\<rparr> st1 = (Inr rel, st2)"
    using ok_CreateRelease [of "''web''" st1] add(2,3) by fastforce
  have sv: "sv_sup demo_ledger_web = demo_state" "sv_router demo_ledger_web = Some NewRouter" "sv_store demo_ledger_web = Some ?st"
    by (simp_all add: demo_ledger_web_def demo_web_def demo_server_def)
  show ?thesis
    unfolding RollbackApp_def Let_def demo_ext_sel demo_web_call_sel sv option.case t sn dc dep sum.case prod.case add(1) cr by simp
qed

theorem rollback_restores_witness:
  "\<exists>q s' rel st'. RollbackApp demo_ext demo_deploy_io demo_web_call (demo_rq ''POST'' ''/v1/apps/web/rollback'' []) ''web'' 1 demo_ledger_web = (Some q, s') \<and>
     sv_store s' = Some st' \<and> ActiveRelease st' ''web'' = Some rel \<and> rs_RolledBackFrom (rel_Spec rel) = 1 \<and>
     (\<exists>v2. gm_get (sp_apps (sv_sup s')) ''web'' = Some v2 \<and> a_Command (app_at (sv_sup s') v2) = ''/bin/web'')"
proof -
  obtain q s' where run: "RollbackApp demo_ext demo_deploy_io demo_web_call (demo_rq ''POST'' ''/v1/apps/web/rollback'' []) ''web'' 1 demo_ledger_web = (Some q, s')"
    "rsp_Status q = 200" using demo_rollback_200 by blast
  let ?st = "web_store\<lparr>s_releases := [(''web'', web_ledger)]\<rparr>"
  have st: "sv_store demo_ledger_web = Some ?st" "reg_ok (sv_sup demo_ledger_web)"
    using demo_state_ok by (simp_all add: demo_ledger_web_def demo_web_def)
  have q: "windows quiet (ci_deploy demo_web_call)" "de_swapped (ci_deploy demo_web_call) = (\<lambda>x. x)"
    "de_stopping (ci_deploy demo_web_call) = (\<lambda>x. x)"
    using quiet_id by (simp_all add: demo_web_call_sel windows_def)
  have prov: "prov_ok (Releases ?st ''web'')"
    by (simp add: prov_ok_def Releases_def rels_of_def web_ledger_def zero_ReleaseSpec_def)
  obtain target snap cfg v2 st' rel where out: "FindRelease ?st ''web'' 1 = Some target" "rs_ConfigSnapshot (rel_Spec target) = Some snap"
    "gm_get (sp_apps (sv_sup s')) ''web'' = Some v2" "runs_config snap (app_at (sv_sup s') v2)" "sv_store s' = Some st'"
    "ActiveRelease st' ''web'' = Some rel" "rs_RolledBackFrom (rel_Spec rel) = 1"
    using rollback_restores [OF run st(1) q st(2) prov] by blast
  have "snap = dc_Config demo_dc" using out(1,2) by (auto simp: FindRelease_def rels_of_def web_ledger_def)
  then have "a_Command (app_at (sv_sup s') v2) = ''/bin/web''"
    using out(4) by (simp add: runs_config_def resolveExec_def demo_dc_def demo_cfg_def)
  then show ?thesis using run(1) out by blast
qed

text \<open>
  C23: No effect without the token. On a server with a token, a request to any path but the public one
  that does not carry it is answered 401 before any precondition is checked, and neither the supervisor
  nor the router nor the store nor the conditions change, whatever the handler; the attempt is
  recorded in the audit log when the method mutates.
\<close>

theorem unauthorized_no_effect:
  assumes "sv_token s \<noteq> []" and "\<not> checkBearer s r" and "\<not> isPublicPath (rq_Path r)"
  shows "\<exists>s'. serve x lio ts ms r h s = (Some unauthorized, s') \<and> same_but_audit s s' \<and>
    (isMutating (rq_Method r) \<longrightarrow>
       sv_audit s' = map_option (Log (ex_shas x) (ex_enc x) lio (audit_entry x r ts 401 ms)) (sv_audit s))"
proof -
  have a: "authMiddleware r (casMiddleware r h) s = (Some unauthorized, s)"
    using assms by (simp add: authMiddleware_def)
  have "rsp_Status unauthorized = 401" by (simp add: unauthorized_def)
  then show ?thesis
    by (cases "sv_audit s = None \<or> \<not> isMutating (rq_Method r)")
      (auto simp: serve_def auditMiddleware_def a audit_log_def same_but_audit_def)
qed

theorem unauthorized_no_effect_witness:
  "\<exists>s'. serve demo_ext demo_log [] 0 (demo_rq ''DELETE'' ''/v1/apps/web'' []) (StopApp demo_ext demo_call ''web'') (demo_web\<lparr>sv_token := ''t''\<rparr>) =
     (Some unauthorized, s') \<and> sv_sup s' = demo_state"
proof -
  let ?s = "demo_web\<lparr>sv_token := ''t''\<rparr>" and ?r = "demo_rq ''DELETE'' ''/v1/apps/web'' []"
  have "sv_token ?s \<noteq> []" "\<not> checkBearer ?s ?r" "\<not> isPublicPath (rq_Path ?r)"
    by (simp_all add: checkBearer_def HasPrefix_def isPublicPath_def demo_rq_def)
  from unauthorized_no_effect [OF this] obtain s' where
    "serve demo_ext demo_log [] 0 ?r (StopApp demo_ext demo_call ''web'') ?s = (Some unauthorized, s')" "same_but_audit ?s s'" by blast
  moreover have "sv_sup ?s = demo_state" by (simp add: demo_web_def)
  ultimately show ?thesis using same_but_auditD(1) by metis
qed

text \<open>
  A Stop whose store mutation fails cannot be repeated. The handler stops the process and removes the
  route first; when \<open>RemoveApp\<close> then fails, the app stays in the store (and is brought back at the
  next boot), while every later DELETE of the id is answered 404 and changes nothing.
\<close>

theorem failed_unpersist_not_retryable:
  assumes "quiet (ci_stop_env io)" and "reg_ok (sv_sup s)" and "sv_store s = Some st" and "gm_get (s_apps st) i = Some cfg"
    and "stop_call io i (sv_sup s) = (Inr True, su)" and "RemoveApp (ex_sha x) (ci_flush io) i st = (Some e, st')"
    and "StopApp x io i s = (rsp, s1)"
  shows "rsp = Some (writeStoreError e) \<and> gm_get (sp_apps (sv_sup s1)) i = None \<and>
    (\<exists>st1. sv_store s1 = Some st1 \<and> gm_get (s_apps st1) i = Some cfg) \<and>
    StopApp x io2 i s1 = (Some (writeError 404 ''not_found''), s1)"
proof -
  have s1: "rsp = Some (writeStoreError e)" "s1 = s\<lparr>sv_sup := su, sv_router := unroute i (sv_router s), sv_store := Some st'\<rparr>"
    using assms(3,5,6,7) by (auto simp: StopApp_def)
  have gone: "gm_get (sp_apps su) i = None" using Stop_shrinks(2) [OF assms(1,2) assms(5) [unfolded stop_call_def]] by simp
  then have "stop_call io2 i su = (Inl (StopNotFound i), su)" by (simp add: stop_call_def StopWithTimeout_def)
  then show ?thesis using s1 gone RemoveApp_apps(2) [OF assms(6)] assms(4) by (simp add: StopApp_def)
qed


lemma demo_state_watched: "all_watched demo_state"
  unfolding demo_state_def by (rule watch_sys.inv_run [OF boot_watched]) simp

definition demo_full_disk :: call_io where
  "demo_full_disk = demo_call\<lparr>ci_flush := (State_Store.ok_io ''t'' 1)\<lparr>io_mkdir := False\<rparr>\<rparr>"

theorem failed_unpersist_not_retryable_witness:
  "\<exists>s1. StopApp demo_ext demo_call ''web'' s1 = (Some (writeError 404 ''not_found''), s1)"
proof -
  have io: "ci_stop_env demo_full_disk = (\<lambda>x. x)" "ti_kill (ci_stop demo_full_disk)" "\<not> ti_held (ci_stop demo_full_disk)" by (simp_all add: demo_full_disk_def demo_call_def)
  obtain su where st: "stop_call demo_full_disk ''web'' demo_state = (Inr True, su)"
    using watched_Stop_returns [OF demo_state_ok demo_state_watched demo_registered io(2,3)] by (auto simp: stop_call_def io)
  obtain e st' where rm: "RemoveApp (ex_sha demo_ext) (ci_flush demo_full_disk) ''web'' web_store = (Some e, st')"
    by (simp add: RemoveApp_def demo_full_disk_def flush_eval)
  obtain cfg where cfg: "gm_get (s_apps web_store) ''web'' = Some cfg" by (simp add: web_store_def)
  obtain rsp s1 where run: "StopApp demo_ext demo_full_disk ''web'' demo_web = (rsp, s1)" by (metis surj_pair)
  have sv: "sv_sup demo_web = demo_state" by (simp add: demo_web_def)
  have "quiet (ci_stop_env demo_full_disk)" by (simp add: io quiet_id)
  from failed_unpersist_not_retryable [OF this _ demo_web_open(3) cfg _ rm run] st demo_state_ok show ?thesis
    by (auto simp: sv)
qed

end
