(* ===== verification/Daemon_Config.thy ===== *)
theory Daemon_Config
  imports Sup_Config
begin

text \<open>
  The configuration of the daemon (cmd/creekd/main.go): the \<open>CREEKD_*\<close> environment, byte sizes, lists, and
  the rule for an admin listener without a token. \<open>Getenv\<close> is a function from names to values, empty for an
  unset name. \<open>loopback_ip\<close> stands for \<open>net.ParseIP\<close> followed by \<open>IsLoopback\<close>: \<open>None\<close> when the host is not
  an address.
\<close>

section \<open>Library functions the configuration uses\<close>

text \<open>\<open>strings.ToUpper\<close> on ASCII.\<close>

definition upper :: "char \<Rightarrow> char" where
  "upper c = (let n = of_char c :: nat in if 97 \<le> n \<and> n \<le> 122 then char_of (n - 32) else c)"

definition ToUpper :: "string \<Rightarrow> string" where
  "ToUpper s = map upper s"

text \<open>\<open>strconv.ParseBool\<close>.\<close>

definition ParseBool :: "string \<Rightarrow> bool option" where
  "ParseBool s =
     (if s \<in> set [''1'', ''t'', ''T'', ''true'', ''TRUE'', ''True''] then Some True
      else if s \<in> set [''0'', ''f'', ''F'', ''false'', ''FALSE'', ''False''] then Some False
      else None)"

text \<open>The last colon of an address: what is before it and what is after it.\<close>

fun split_last :: "char \<Rightarrow> string \<Rightarrow> (string \<times> string) option" where
  "split_last c [] = None"
| "split_last c (x # xs) =
     (case split_last c xs of
        Some (a, b) \<Rightarrow> Some (x # a, b)
      | None \<Rightarrow> if x = c then Some ([], xs) else None)"

text \<open>
  \<open>net.SplitHostPort\<close>, its host: without brackets the host is what precedes the only colon; with brackets it
  is what they enclose, and the last colon follows the closing one. No bracket may occur anywhere else.
\<close>

definition SplitHostPort :: "string \<Rightarrow> string option" where
  "SplitHostPort s =
     (case split_last (CHR '':'') s of
        None \<Rightarrow> None
      | Some (a, port) \<Rightarrow>
          if HasPrefix s ''['' then
            let inner = takeWhile (\<lambda>c. c \<noteq> CHR '']'') (tl s) in
            if a = CHR ''['' # inner @ '']'' \<and> CHR ''['' \<notin> set (inner @ port) \<and> CHR '']'' \<notin> set port then Some inner else None
          else if CHR '':'' \<in> set a \<or> CHR ''['' \<in> set s \<or> CHR '']'' \<in> set s then None
          else Some a)"

section \<open>main.go\<close>

definition handleVersionFlag :: "string list \<Rightarrow> bool" where
  "handleVersionFlag args =
     (if length args < 2 then False else args ! 1 \<in> set [''--version'', ''-v'', ''version''])"

definition subcommand :: "string list \<Rightarrow> string" where
  "subcommand args = (if length args > 1 \<and> \<not> HasPrefix (args ! 1) ''-'' then args ! 1 else [])"

definition splitColonList :: "string \<Rightarrow> string list" where
  "splitColonList s = filter (\<lambda>part. part \<noteq> []) (split_on (CHR '':'') s)"

datatype size_error = SizeSyntax string | SizeNegative int

definition size_unit :: "string \<Rightarrow> int \<times> string" where
  "size_unit s =
     (if HasSuffix s ''K'' then (1024, take (length s - 1) s)
      else if HasSuffix s ''M'' then (1024 * 1024, take (length s - 1) s)
      else if HasSuffix s ''G'' then (1024 * 1024 * 1024, take (length s - 1) s)
      else if HasSuffix s ''T'' then (1024 * 1024 * 1024 * 1024, take (length s - 1) s)
      else (1, s))"

definition parseSize :: "string \<Rightarrow> size_error + int" where
  "parseSize s0 =
     (let s1 = TrimSpace s0 in
      if s1 = [] then Inr 0
      else
        let (unit', s) = size_unit (TrimSuffix (TrimSuffix (ToUpper s1) ''B'') ''I'') in
        case ParseInt s of
          None \<Rightarrow> Inl (SizeSyntax s)
        | Some n \<Rightarrow> if n < 0 then Inl (SizeNegative n) else Inr (wrap64 (n * unit')))"

definition envOr :: "(string \<Rightarrow> string) \<Rightarrow> string \<Rightarrow> string \<Rightarrow> string" where
  "envOr env key fallback = (if env key \<noteq> [] then env key else fallback)"

datatype env_error = EnvDelegated string | EnvMemoryHigh size_error | EnvMemoryMax size_error | EnvUIDBase string

text \<open>One knob: an unset variable leaves the options alone.\<close>

definition knob :: "string \<Rightarrow> (string \<Rightarrow> sup_opts \<Rightarrow> env_error + sup_opts) \<Rightarrow> env_error + sup_opts \<Rightarrow> env_error + sup_opts" where
  "knob v f r = (case r of Inl e \<Rightarrow> Inl e | Inr o' \<Rightarrow> if v = [] then Inr o' else f v o')"

definition configureSupervisorFromEnv :: "(string \<Rightarrow> string) \<Rightarrow> sup_opts \<Rightarrow> env_error + sup_opts" where
  "configureSupervisorFromEnv env sup0 =
     knob (env ''CREEKD_ALLOWED_TARGET_PREFIXES'') (\<lambda>v s. Inr (s\<lparr>AllowedTargetPrefixes := splitColonList v\<rparr>)) (
     knob (env ''CREEKD_VOLUME_ROOT'') (\<lambda>v s. Inr (s\<lparr>VolumeRoot := v\<rparr>)) (
     knob (env ''CREEKD_NET_BRIDGE_NAME'') (\<lambda>v s. Inr (s\<lparr>NetBridgeName := v\<rparr>)) (
     knob (env ''CREEKD_NET_SUBNET'') (\<lambda>v s. Inr (s\<lparr>NetSubnet := v\<rparr>)) (
     knob (env ''CREEKD_APP_UID_BASE'') (\<lambda>v s. case ParseInt v of
          None \<Rightarrow> Inl (EnvUIDBase v)
        | Some n \<Rightarrow> if n < 0 then Inl (EnvUIDBase v) else Inr (s\<lparr>AppUIDBase := n\<rparr>)) (
     knob (env ''CREEKD_DEFAULT_MEMORY_MAX'') (\<lambda>v s. case parseSize v of
          Inl e \<Rightarrow> Inl (EnvMemoryMax e) | Inr n \<Rightarrow> Inr (s\<lparr>DefaultMemoryMax := n\<rparr>)) (
     knob (env ''CREEKD_DEFAULT_MEMORY_HIGH'') (\<lambda>v s. case parseSize v of
          Inl e \<Rightarrow> Inl (EnvMemoryHigh e) | Inr n \<Rightarrow> Inr (s\<lparr>DefaultMemoryHigh := n\<rparr>)) (
     knob (env ''CREEKD_CGROUP_DELEGATED'') (\<lambda>v s. case ParseBool v of
          None \<Rightarrow> Inl (EnvDelegated v) | Some b \<Rightarrow> Inr (s\<lparr>CgroupDelegated := b\<rparr>)) (
     knob (env ''CREEKD_CGROUP_PARENT'') (\<lambda>v s. Inr (s\<lparr>CgroupParent := v\<rparr>)) (
     knob (env ''CREEKD_LOG_DIR'') (\<lambda>v s. Inr (s\<lparr>LogDir := v\<rparr>)) (Inr sup0))))))))))"

definition isLoopback :: "(string \<Rightarrow> bool option) \<Rightarrow> string \<Rightarrow> bool" where
  "isLoopback loopback_ip addr =
     (if HasPrefix addr ''unix://'' \<or> HasPrefix addr ''/'' then True
      else case SplitHostPort addr of
        None \<Rightarrow> False
      | Some host \<Rightarrow>
          if host = [] then False
          else case loopback_ip host of
            None \<Rightarrow> host = ''localhost''
          | Some b \<Rightarrow> b)"

datatype listen_error = ListenErr | ListenChmod

datatype listener = UnixListener string | TCPListener string

definition listenAdminAddr :: "bool \<Rightarrow> bool \<Rightarrow> string \<Rightarrow> listen_error + listener" where
  "listenAdminAddr listen_ok chmod_ok addr =
     (if HasPrefix addr ''unix://'' then
        let sockPath = TrimPrefix addr ''unix://'' in
        if \<not> listen_ok then Inl ListenErr
        else if \<not> chmod_ok then Inl ListenChmod
        else Inr (UnixListener sockPath)
      else if \<not> listen_ok then Inl ListenErr
      else Inr (TCPListener addr))"

section \<open>Sizes\<close>

text \<open>The suffixes of a size: a unit letter in either case, then one of the optional tails.\<close>

definition size_letters :: "(string \<times> int) list" where
  "size_letters = [([], 1), (''K'', 2 ^ 10), (''M'', 2 ^ 20), (''G'', 2 ^ 30), (''T'', 2 ^ 40),
     (''k'', 2 ^ 10), (''m'', 2 ^ 20), (''g'', 2 ^ 30), (''t'', 2 ^ 40)]"

definition size_tails :: "string list" where
  "size_tails = [[], ''i'', ''I'', ''b'', ''B'', ''ib'', ''iB'', ''Ib'', ''IB'']"

lemma HasSuffix_char: "HasSuffix s [c] \<longleftrightarrow> s \<noteq> [] \<and> last s = c"
  by (cases s rule: rev_cases) (auto simp: HasSuffix_iff)

lemma TrimSuffix_char: "TrimSuffix s [c] = (if s \<noteq> [] \<and> last s = c then butlast s else s)"
  by (simp add: TrimSuffix_def HasSuffix_char butlast_conv_take)

lemma size_unit_butlast:
  "size_unit s =
     (if s = [] then (1, s)
      else if last s = CHR ''K'' then (2 ^ 10, butlast s) else if last s = CHR ''M'' then (2 ^ 20, butlast s)
      else if last s = CHR ''G'' then (2 ^ 30, butlast s) else if last s = CHR ''T'' then (2 ^ 40, butlast s)
      else (1, s))"
  by (auto simp: size_unit_def HasSuffix_char butlast_conv_take)

lemma last_digit:
  obtains ds e where "FormatUint n = ds @ [e]" "48 \<le> (of_char e :: nat)" "(of_char e :: nat) \<le> 57"
proof -
  obtain ds e where *: "FormatUint n = ds @ [e]" by (cases "FormatUint n" rule: rev_cases) auto
  then show thesis using that FormatUint_digits [of e n] by simp
qed

lemma upper_digit: "(of_char c :: nat) \<le> 57 \<Longrightarrow> upper c = c"
  by (simp add: upper_def)

lemma upper_FormatUint: "ToUpper (FormatUint n) = FormatUint n"
  unfolding ToUpper_def by (rule map_idI) (use FormatUint_digits upper_digit in blast)

lemma digit_no_letter: "(of_char e :: nat) \<le> 57 \<Longrightarrow> e \<noteq> CHR ''B'' \<and> e \<noteq> CHR ''I'' \<and> e \<noteq> CHR ''K'' \<and> e \<noteq> CHR ''M'' \<and> e \<noteq> CHR ''G'' \<and> e \<noteq> CHR ''T''"
  by auto

lemma ToUpper_append: "ToUpper (a @ b) = ToUpper a @ ToUpper b"
  by (simp add: ToUpper_def)

lemma upper_letters:
  "(\<lambda>(u, k). (ToUpper u, k)) ` set size_letters = {([], 1), (''K'', 2 ^ 10), (''M'', 2 ^ 20), (''G'', 2 ^ 30), (''T'', 2 ^ 40)}"
  by code_simp

lemma upper_tails: "ToUpper ` set size_tails = {[], ''I'', ''B'', ''IB''}"
  by code_simp

lemma strip_tail:
  assumes "t \<in> {[], ''I'', ''B'', ''IB''}" and "x \<noteq> []" and "last x \<noteq> CHR ''B''" and "last x \<noteq> CHR ''I''"
  shows "TrimSuffix (TrimSuffix (x @ t) ''B'') ''I'' = x"
  using assms by (auto simp: TrimSuffix_char butlast_append)

lemma strip_unit:
  assumes "(u, k) \<in> {([], 1), (''K'', 2 ^ 10), (''M'', 2 ^ 20), (''G'', 2 ^ 30), (''T'', 2 ^ 40)}"
    and "e \<noteq> CHR ''K''" "e \<noteq> CHR ''M''" "e \<noteq> CHR ''G''" "e \<noteq> CHR ''T''"
  shows "size_unit ((ds @ [e]) @ u) = (k, ds @ [e])"
  using assms by (auto simp: size_unit_butlast butlast_append)

lemma last_unit:
  assumes "(u, k) \<in> {([], 1), (''K'', 2 ^ 10), (''M'', 2 ^ 20), (''G'', 2 ^ 30), (''T'', 2 ^ 40)}"
    and "e \<noteq> CHR ''B''" "e \<noteq> CHR ''I''"
  shows "last ((ds @ [e]) @ u) \<noteq> CHR ''B'' \<and> last ((ds @ [e]) @ u) \<noteq> CHR ''I''"
  using assms by auto

lemma size_suffix:
  assumes "(u, k) \<in> set size_letters" and "t \<in> set size_tails"
  shows "size_unit (TrimSuffix (TrimSuffix (FormatUint n @ ToUpper u @ ToUpper t) ''B'') ''I'') = (k, FormatUint n)"
proof -
  obtain ds e where e: "FormatUint n = ds @ [e]" "(of_char e :: nat) \<le> 57" using last_digit by metis
  have up: "(ToUpper u, k) \<in> {([], 1), (''K'', 2 ^ 10), (''M'', 2 ^ 20), (''G'', 2 ^ 30), (''T'', 2 ^ 40)}"
    using imageI [OF assms(1), of "\<lambda>(u, k). (ToUpper u, k)"] unfolding upper_letters prod.case .
  have tl: "ToUpper t \<in> {[], ''I'', ''B'', ''IB''}" using assms(2) upper_tails by (metis image_eqI)
  have "last ((ds @ [e]) @ ToUpper u) \<noteq> CHR ''B''" "last ((ds @ [e]) @ ToUpper u) \<noteq> CHR ''I''"
    using last_unit [OF up, of e ds] digit_no_letter [OF e(2)] by simp_all
  then have "TrimSuffix (TrimSuffix (((ds @ [e]) @ ToUpper u) @ ToUpper t) ''B'') ''I'' = (ds @ [e]) @ ToUpper u"
    by (intro strip_tail [OF tl]) auto
  then show ?thesis using strip_unit [OF up] digit_no_letter [OF e(2)] unfolding e(1) by (metis append_assoc)
qed

lemma not_space: "(of_char c :: nat) > 32 \<Longrightarrow> \<not> is_space c"
  by (auto simp: is_space_def)

lemma TrimSpace_padded:
  assumes "\<And>c. c \<in> set s \<Longrightarrow> \<not> is_space c" and "s \<noteq> []" and "\<forall>c \<in> set (l @ r). is_space c"
  shows "TrimSpace (l @ s @ r) = s"
proof -
  have "dropWhile is_space (l @ s @ r) = s @ r" using assms by (cases s) (auto simp: dropWhile_append2)
  moreover have "dropWhile is_space (rev r @ rev s) = rev s"
  proof (cases "rev s")
    case (Cons c cs)
    then have "c \<in> set s" by (metis list.set_intros(1) set_rev)
    then have c: "\<not> is_space c" using assms(1) by blast
    have "dropWhile is_space (rev r @ c # cs) = dropWhile is_space (c # cs)" by (rule dropWhile_append2) (use assms(3) in auto)
    then show ?thesis using c Cons by simp
  qed (use assms in simp)
  ultimately show ?thesis by (simp add: TrimSpace_def)
qed

section \<open>Properties\<close>

text \<open>
  C20: Byte sizes and their bound. For a decimal number, every spelling of a unit (either case, with or
  without the \<open>i\<close>, \<open>B\<close> and \<open>iB\<close> tails) and any surrounding blanks, \<open>parseSize\<close> returns an error when the
  number itself is \<open>2^63\<close> or more, and otherwise the product modulo \<open>2^64\<close> as a signed number: the exact
  product when that is below \<open>2^63\<close>, and a wrong value (possibly zero or negative, which disables the
  limit), not an error, when only the product is too large.
\<close>

theorem parseSize_value:
  assumes "(u, k) \<in> set size_letters" and "t \<in> set size_tails" and "\<forall>c \<in> set (l @ r). is_space c"
  shows "parseSize (l @ FormatUint n @ u @ t @ r) =
      (if n < 2 ^ 63 then Inr (wrap64 (int n * k)) else Inl (SizeSyntax (FormatUint n))) \<and>
    (int n * k < 2 ^ 63 \<longrightarrow> parseSize (l @ FormatUint n @ u @ t @ r) = Inr (int n * k)) \<and>
    (int n * k \<ge> 2 ^ 63 \<longrightarrow> wrap64 (int n * k) \<noteq> int n * k)"
proof -
  let ?s = "FormatUint n @ u @ t"
  have "\<not> is_space c" if "c \<in> set ?s" for c
    using that assms(1,2) FormatUint_digits [of c n]
    by (auto simp: size_letters_def size_tails_def intro!: not_space)
  then have tr: "TrimSpace (l @ ?s @ r) = ?s"
    by (rule TrimSpace_padded) (use assms(3) in auto)
  have k: "k \<ge> 1" using assms(1) by (auto simp: size_letters_def)
  then have ok: "int n * k < 2 ^ 63 \<Longrightarrow> wrap64 (int n * k) = int n * k" by (intro wrap64_id) (auto simp: int64_ok_def intro: order_trans [of _ 0])
  have "parseSize (l @ ?s @ r) = (if n < 2 ^ 63 then Inr (wrap64 (int n * k)) else Inl (SizeSyntax (FormatUint n)))"
    using size_suffix [OF assms(1,2), of n] ParseInt_FormatUint [of n] upper_FormatUint
    by (simp add: parseSize_def tr [simplified] ToUpper_append Let_def)
  moreover have "n < 2 ^ 63" if "int n * k < 2 ^ 63"
  proof -
    have "int n \<le> int n * k" using k by (simp add: mult_le_cancel_left1)
    with that have "int n < int (2 ^ 63)" by simp
    then show ?thesis by (simp only: of_nat_less_iff)
  qed
  moreover have "wrap64 (int n * k) \<noteq> int n * k" if "int n * k \<ge> 2 ^ 63"
    using that wrap64_range [of "int n * k"] by (auto simp: int64_ok_def)
  ultimately show ?thesis using ok by auto
qed

theorem parseSize_value_witness:
  "parseSize '' 256MiB'' = Inr 268435456 \<and> parseSize ''16777216T'' = Inr 0 \<and>
   parseSize ''9223372036854775808'' = Inl (SizeSyntax ''9223372036854775808'')"
proof -
  have "FormatUint 256 = ''256''" "FormatUint 16777216 = ''16777216''" "FormatUint 9223372036854775808 = ''9223372036854775808''"
    by (simp_all add: FormatUint.simps digit_char_def char_of_def bit_Suc_0_iff)
  moreover have "(''M'', 2 ^ 20) \<in> set size_letters" "(''T'', 2 ^ 40) \<in> set size_letters" "([], 1) \<in> set size_letters"
    "''iB'' \<in> set size_tails" "[] \<in> set size_tails"
    by (simp_all add: size_letters_def size_tails_def)
  moreover have "wrap64 (int 256 * 2 ^ 20) = 268435456" "wrap64 (int 16777216 * 2 ^ 40) = 0" by (simp_all add: wrap64_def)
  ultimately show ?thesis
    using parseSize_value [of "''M''" "2 ^ 20" "''iB''" "'' ''" "[]" 256] parseSize_value [of "''T''" "2 ^ 40" "[]" "[]" "[]" 16777216]
      parseSize_value [of "[]" 1 "[]" "[]" "[]" 9223372036854775808]
    by (simp add: is_space_def)
qed

end
