(* ===== verification/State_Boot.thy ===== *)
theory State_Boot
  imports State_Release
begin

text \<open>
  \<open>internal/state/store.go\<close>: opening a store (\<open>NewStore\<close>, \<open>load\<close>, \<open>loadV1\<close>, \<open>loadV2OrV3\<close>,
  \<open>replayWAL\<close>), and what a boot recovers after a flush succeeded, failed or was cut by a crash.

  The UUIDs a boot draws are a stream \<open>uuid\<close> (\<open>None\<close> when \<open>uuid.NewV7\<close> fails); a counter is threaded
  through the loops. The outcomes of the boot's own writes are in \<open>boot_io\<close>, one per flush: the repair of
  metadata, the migration, and the repair after a replay.
\<close>

section \<open>Opening a store\<close>

record boot_io =
  bt_fs_ok :: bool
  bt_read_ok :: bool
  bt_wal_open :: bool
  bt_now :: time
  bt_uuid :: "nat \<Rightarrow> string option"
  bt_flush :: flush_io
  bt_flush_migrate :: flush_io
  bt_flush_replay :: flush_io
  bt_tmp :: tmp_io
  bt_remove :: bool
  bt_sync_pre :: bool
  bt_rename :: bool
  bt_sync_post :: bool
  bt_commit :: append_io

datatype boot_error =
    BUnsupportedFilesystem | BRead | BDecodeHeader | BDecodeV1 | BDecode | BVersion int | BUuid
  | BMigrate flush_error | BRepair flush_error | BScan wal_error | BPayload wal_error
  | BReplayWrite | BReplaySyncPre | BReplayRename | BReplaySyncPost | BReplayDecode boot_error
  | BReplayCommit

fun head_Version :: "bytes \<Rightarrow> int option" where
  "head_Version (JSON st) = Some (st_Version st)"
| "head_Version (JSONHead v _) = Some v"
| "head_Version (Bytes _) = None"

fun load_volumes :: "Volume list \<Rightarrow> Store \<Rightarrow> Store" where
  "load_volumes [] s = s"
| "load_volumes (v # vs) s =
     load_volumes vs (if vol_ID v = [] then s else s\<lparr>s_volumes := gm_set (vol_ID v) v (s_volumes s)\<rparr>)"

fun load_appsV1 ::
  "boot_io \<Rightarrow> nat \<Rightarrow> PersistedApp list \<Rightarrow> Store \<Rightarrow> (boot_error + nat) \<times> Store"
where
  "load_appsV1 io n [] s = (Inr n, s)"
| "load_appsV1 io n (a # as) s =
     (if cfg_ID (pa_Config a) = [] then load_appsV1 io n as s
      else
        let s1 = s\<lparr>s_apps := gm_set (cfg_ID (pa_Config a)) (pa_Config a) (s_apps s)\<rparr> in
        case newAppMetadata (bt_uuid io n) (bt_now io) of
          Inl _ \<Rightarrow> (Inl BUuid, s1)
        | Inr meta \<Rightarrow>
            load_appsV1 io (Suc n) as
              (s1\<lparr>s_metadata := gm_set (cfg_ID (pa_Config a)) meta (s_metadata s1)\<rparr>))"

definition loadV1 :: "boot_io \<Rightarrow> nat \<Rightarrow> bytes \<Rightarrow> Store \<Rightarrow> (boot_error + nat) \<times> Store" where
  "loadV1 io n data s =
     (case Unmarshal data of
        None \<Rightarrow> (Inl BDecodeV1, s)
      | Some st \<Rightarrow> load_appsV1 io n (st_Apps st) (load_volumes (st_Volumes st) s))"

fun load_appsV2 ::
  "boot_io \<Rightarrow> nat \<Rightarrow> bool \<Rightarrow> PersistedApp list \<Rightarrow> Store \<Rightarrow> (boot_error + nat \<times> bool) \<times> Store"
where
  "load_appsV2 io n repaired [] s = (Inr (n, repaired), s)"
| "load_appsV2 io n repaired (a # as) s =
     (let i = cfg_ID (pa_Config a) in
      if i = [] then load_appsV2 io n repaired as s
      else
        let s1 = s\<lparr>s_apps := gm_set i (pa_Config a) (s_apps s)\<rparr>;
            addrel = (\<lambda>s. if pa_Releases a \<noteq> []
                          then s\<lparr>s_releases := gm_set i (pa_Releases a) (s_releases s)\<rparr> else s)
        in
        if md_UID (pa_Metadata a) = []
        then case newAppMetadata (bt_uuid io n) (bt_now io) of
               Inl _ \<Rightarrow> (Inl BUuid, s1)
             | Inr meta \<Rightarrow>
                 load_appsV2 io (Suc n) True as
                   (addrel (s1\<lparr>s_metadata := gm_set i meta (s_metadata s1)\<rparr>))
        else load_appsV2 io n repaired as
               (addrel (s1\<lparr>s_metadata := gm_set i (pa_Metadata a) (s_metadata s1)\<rparr>)))"

definition loadV2OrV3 ::
  "(bytes \<Rightarrow> string) \<Rightarrow> flush_io \<Rightarrow> boot_io \<Rightarrow> nat \<Rightarrow> bytes \<Rightarrow> Store \<Rightarrow> (boot_error + nat) \<times> Store"
where
  "loadV2OrV3 sha fio io n data s =
     (case Unmarshal data of
        None \<Rightarrow> (Inl BDecode, s)
      | Some st \<Rightarrow>
          (case load_appsV2 io n False (st_Apps st) (load_volumes (st_Volumes st) s) of
             (Inl e, s1) \<Rightarrow> (Inl e, s1)
           | (Inr (m, repaired), s1) \<Rightarrow>
               if repaired
               then let r = flushBoth sha fio (s_apps s1) (s_volumes s1) s1;
                        s2 = s1\<lparr>s_disk := fl_disk r\<rparr>
                    in case fl_err r of Some e \<Rightarrow> (Inl (BRepair e), s2) | None \<Rightarrow> (Inr m, s2)
               else (Inr m, s1)))"

definition migrate ::
  "(bytes \<Rightarrow> string) \<Rightarrow> boot_io \<Rightarrow> (boot_error + nat) \<times> Store \<Rightarrow> (boot_error + nat) \<times> Store"
where
  "migrate sha io res =
     (case res of
        (Inl e, s) \<Rightarrow> (Inl e, s)
      | (Inr n, s) \<Rightarrow>
          let r = flushBoth sha (bt_flush_migrate io) (s_apps s) (s_volumes s) s;
              s2 = s\<lparr>s_disk := fl_disk r\<rparr>
          in case fl_err r of Some e \<Rightarrow> (Inl (BMigrate e), s2) | None \<Rightarrow> (Inr n, s2))"

definition load ::
  "(bytes \<Rightarrow> string) \<Rightarrow> boot_io \<Rightarrow> Store \<Rightarrow> (boot_error + nat) \<times> Store"
where
  "load sha io s =
     (case d_state (s_disk s) of
        None \<Rightarrow> (Inr 0, s)
      | Some data \<Rightarrow>
          if \<not> bt_read_ok io then (Inl BRead, s)
          else if data = Bytes [] then (Inr 0, s)
          else case head_Version data of
            None \<Rightarrow> (Inl BDecodeHeader, s)
          | Some v \<Rightarrow>
              if v = 1 then migrate sha io (loadV1 io 0 data s)
              else if v = 2 then migrate sha io (loadV2OrV3 sha (bt_flush io) io 0 data s)
              else if v = FormatVersion then loadV2OrV3 sha (bt_flush io) io 0 data s
              else (Inl (BVersion v), s))"

definition replayWAL ::
  "(bytes \<Rightarrow> string) \<Rightarrow> boot_io \<Rightarrow> nat \<Rightarrow> Store \<Rightarrow> (boot_error + nat) \<times> Store"
where
  "replayWAL sha io n s =
     (if \<not> bt_wal_open io \<and> d_wal (s_disk s) \<noteq> None then (Inl (BScan WalScanOpen), s)
      else case scanOrphanPending (d_wal (s_disk s)) of
        Inl e \<Rightarrow> (Inl (BScan e), s)
      | Inr orphans \<Rightarrow>
          if orphans = [] then (Inr n, s)
          else
            let latest = last orphans in
            case decodePendingPayload sha latest of
              Inl e \<Rightarrow> (Inl (BPayload e), s)
            | Inr payload \<Rightarrow>
                let (okt, d1) = writeFileAndFsync (bt_tmp io) payload (s_disk s);
                    drop_tmp = (\<lambda>d. s\<lparr>s_disk := remove_tmp (bt_remove io) d\<rparr>)
                in
                if \<not> okt then (Inl BReplayWrite, drop_tmp d1)
                else if \<not> bt_sync_pre io then (Inl BReplaySyncPre, drop_tmp d1)
                else if \<not> bt_rename io then (Inl BReplayRename, drop_tmp d1)
                else
                  let d2 = rename_tmp d1 in
                  if \<not> bt_sync_post io then (Inl BReplaySyncPost, s\<lparr>s_disk := d2\<rparr>)
                  else
                    case loadV2OrV3 sha (bt_flush_replay io) io n payload (empty_Store d2) of
                      (Inl e, s1) \<Rightarrow> (Inl (BReplayDecode e), s1)
                    | (Inr m, s1) \<Rightarrow>
                        let (okc, w) = appendCommit (bt_commit io) (bt_now io) (w_Token latest)
                              (d_wal (s_disk s1));
                            s2 = s1\<lparr>s_disk := (s_disk s1)\<lparr>d_wal := w\<rparr>\<rparr>
                        in if okc then (Inr m, s2) else (Inl BReplayCommit, s2))"

definition NewStore :: "(bytes \<Rightarrow> string) \<Rightarrow> boot_io \<Rightarrow> disk \<Rightarrow> (boot_error + Store) \<times> disk" where
  "NewStore sha io d =
     (if \<not> bt_fs_ok io then (Inl BUnsupportedFilesystem, d)
      else case load sha io (empty_Store d) of
        (Inl e, s) \<Rightarrow> (Inl e, s_disk s)
      | (Inr n, s) \<Rightarrow>
          (case replayWAL sha io n s of
             (Inl e, s1) \<Rightarrow> (Inl e, s_disk s1)
           | (Inr m, s1) \<Rightarrow> (Inr s1, s_disk s1)))"

section \<open>Loading what the flush wrote\<close>

definition boot_ok :: "boot_io \<Rightarrow> bool" where
  "boot_ok io \<longleftrightarrow> bt_fs_ok io \<and> bt_read_ok io \<and> bt_wal_open io \<and> bt_tmp io = TmpOk \<and>
     bt_sync_pre io \<and> bt_rename io \<and> bt_sync_post io \<and> bt_commit io = AOk"

text \<open>Two stores that answer every lookup alike.\<close>

definition same_maps :: "Store \<Rightarrow> Store \<Rightarrow> bool" where
  "same_maps s s' \<longleftrightarrow> gm_get (s_apps s) = gm_get (s_apps s') \<and>
     gm_get (s_metadata s) = gm_get (s_metadata s') \<and>
     gm_get (s_releases s) = gm_get (s_releases s') \<and>
     gm_get (s_volumes s) = gm_get (s_volumes s')"

definition maps_rep :: "Store \<Rightarrow> bool" where
  "maps_rep s \<longleftrightarrow> gm_ok (s_apps s) \<and> gm_ok (s_metadata s) \<and> gm_ok (s_releases s) \<and> gm_ok (s_volumes s)"

text \<open>\<open>reads s' s\<close>: the store \<open>s'\<close> is a faithful copy of \<open>s\<close>, up to the order of its maps.\<close>

definition reads :: "Store \<Rightarrow> Store \<Rightarrow> bool" where
  "reads s' s \<longleftrightarrow> same_maps s' s \<and> maps_rep s'"

definition state_of :: "Store \<Rightarrow> State" where
  "state_of s = build_state (s_apps s) (s_metadata s) (s_releases s) (s_volumes s)"

lemma load_volumes_fold:
  "list_all (\<lambda>v. vol_ID v \<noteq> []) vs \<Longrightarrow>
   load_volumes vs s = s\<lparr>s_volumes := fold (\<lambda>v. gm_set (vol_ID v) v) vs (s_volumes s)\<rparr>"
  by (induction vs s rule: load_volumes.induct) auto

lemma load_appsV2_fold:
  "list_all (\<lambda>a. cfg_ID (pa_Config a) \<noteq> [] \<and> md_UID (pa_Metadata a) \<noteq> []) as \<Longrightarrow>
   load_appsV2 io n b as s = (Inr (n, b), s\<lparr>
     s_apps := fold (\<lambda>a. gm_set (cfg_ID (pa_Config a)) (pa_Config a)) as (s_apps s),
     s_metadata := fold (\<lambda>a. gm_set (cfg_ID (pa_Config a)) (pa_Metadata a)) as (s_metadata s),
     s_releases := fold (\<lambda>a. gm_set (cfg_ID (pa_Config a)) (pa_Releases a))
       (filter (\<lambda>a. pa_Releases a \<noteq> []) as) (s_releases s)\<rparr>)"
  by (induction as arbitrary: n b s) (auto simp: Let_def)

lemma gm_get_fold_map:
  assumes "distinct ids" and "\<And>i. i \<in> set ids \<Longrightarrow> k (f i) = i"
  shows "gm_get (fold (\<lambda>x. gm_set (k x) (v x)) (map f ids) []) i =
    (if i \<in> set ids then Some (v (f i)) else None)"
proof (cases "i \<in> set ids")
  case True
  have "distinct (map k (map f ids))" using assms by (simp add: distinct_map inj_on_def)
  from gm_get_fold_set [OF this, of "f i" v "[]"] True assms(2) show ?thesis by simp
next
  case False
  then have "i \<notin> k ` set (map f ids)" using assms(2) by auto
  from gm_get_fold_set_notin [OF this, of v "[]"] False show ?thesis by simp
qed

lemma distinct_sortStrings [simp]: "distinct (sortStrings xs) = distinct xs"
  by (simp add: sortStrings_def insertion_sort_eq_sort)

lemma set_sortStrings [simp]: "set (sortStrings xs) = set xs"
  by (simp add: sortStrings_def)

lemma apps_ok_key: "apps_ok m \<Longrightarrow> i \<in> fst ` set m \<Longrightarrow> i \<noteq> [] \<and> cfg_ID (the (gm_get m i)) = i"
  using gm_key_Some [of i m] by (auto simp: apps_ok_def dest: gm_all_get)

lemma volumes_ok_key: "volumes_ok m \<Longrightarrow> i \<in> fst ` set m \<Longrightarrow> i \<noteq> [] \<and> vol_ID (the (gm_get m i)) = i"
  using gm_key_Some [of i m] by (auto simp: volumes_ok_def dest: gm_all_get)

lemma get_if_key: "(if i \<in> fst ` set m then Some (the (gm_get m i)) else None) = gm_get m i"
  using gm_get_None [of m i] by auto

lemma volumes_reload:
  assumes "volumes_ok m"
  shows "gm_get (fold (\<lambda>v. gm_set (vol_ID v) v) (map (\<lambda>i. the (gm_get m i)) (sortStrings (gm_keys m))) [])
    = gm_get m"
proof
  fix i
  show "gm_get (fold (\<lambda>v. gm_set (vol_ID v) v) (map (\<lambda>i. the (gm_get m i)) (sortStrings (gm_keys m))) []) i
    = gm_get m i"
    using assms volumes_ok_key [OF assms] get_if_key [of i m]
    by (subst gm_get_fold_map) (auto simp: volumes_ok_def gm_ok_def)
qed

text \<open>The apps a flush writes, and what loading them gives back.\<close>

definition written_app :: "Store \<Rightarrow> string \<Rightarrow> PersistedApp" where
  "written_app s i = \<lparr>pa_Config = the (gm_get (s_apps s) i), pa_Metadata = meta_of (s_metadata s) i,
     pa_Releases = rels_of (s_releases s) i\<rparr>"

lemma written_fold:
  assumes "store_ok s" and "ids = filter P (sortStrings (gm_keys (s_apps s)))"
  shows "gm_get (fold (\<lambda>a. gm_set (cfg_ID (pa_Config a)) (v a)) (map (written_app s) ids) []) i =
    (if i \<in> fst ` set (s_apps s) \<and> P i then Some (v (written_app s i)) else None)"
  using assms apps_ok_key [of "s_apps s"]
  by (subst gm_get_fold_map) (auto simp: store_ok_def apps_ok_def gm_ok_def written_app_def)

lemma meta_of_get:
  "store_ok s \<Longrightarrow> i \<in> fst ` set (s_apps s) \<Longrightarrow> gm_get (s_metadata s) i = Some (meta_of (s_metadata s) i)"
  using gm_key_Some [of i "s_metadata s"] by (auto simp: store_ok_def meta_of_def)

lemma rels_of_get:
  "store_ok s \<Longrightarrow> gm_get (s_releases s) i =
     (if i \<in> fst ` set (s_apps s) \<and> rels_of (s_releases s) i \<noteq> []
      then Some (rels_of (s_releases s) i) else None)"
  using gm_get_Some_key [of "s_releases s" i] releases_ok_get [of "s_releases s" i]
  by (cases "gm_get (s_releases s) i") (auto simp: store_ok_def rels_of_def ledger_ok_def)

lemma written_ok:
  assumes "store_ok s" and "i \<in> fst ` set (s_apps s)"
  shows "cfg_ID (pa_Config (written_app s i)) \<noteq> [] \<and> md_UID (pa_Metadata (written_app s i)) \<noteq> []"
  using assms apps_ok_key [of "s_apps s" i] metadata_ok_get [of "s_metadata s" i] meta_of_get [OF assms]
  by (auto simp: written_app_def store_ok_def)

lemma state_of_apps:
  "st_Apps (state_of s) = map (written_app s) (sortStrings (gm_keys (s_apps s)))"
  by (simp add: state_of_def build_state_def written_app_def)

lemma filter_map_rels:
  "filter (\<lambda>a. pa_Releases a \<noteq> []) (map (written_app s) ids) =
   map (written_app s) (filter (\<lambda>i. rels_of (s_releases s) i \<noteq> []) ids)"
  by (simp add: filter_map comp_def written_app_def)

lemma loadV2OrV3_state_of:
  assumes "store_ok s"
  obtains s' where "loadV2OrV3 sha fio io n (JSON (state_of s)) (empty_Store d) = (Inr n, s')"
    and "reads s' s" and "s_disk s' = d"
proof -
  let ?ids = "sortStrings (gm_keys (s_apps s))"
  let ?vs = "map (\<lambda>i. the (gm_get (s_volumes s) i)) (sortStrings (gm_keys (s_volumes s)))"
  have v: "st_Volumes (state_of s) = ?vs" by (simp add: state_of_def build_state_def)
  have vok: "list_all (\<lambda>v. vol_ID v \<noteq> []) ?vs"
    using assms volumes_ok_key [of "s_volumes s"] by (auto simp: store_ok_def list_all_iff)
  have aok: "list_all (\<lambda>a. cfg_ID (pa_Config a) \<noteq> [] \<and> md_UID (pa_Metadata a) \<noteq> [])
      (map (written_app s) ?ids)"
    using written_ok [OF assms] by (auto simp: list_all_iff)
  define s' where "s' = \<lparr>s_apps = fold (\<lambda>a. gm_set (cfg_ID (pa_Config a)) (pa_Config a)) (map (written_app s) ?ids) [],
    s_metadata = fold (\<lambda>a. gm_set (cfg_ID (pa_Config a)) (pa_Metadata a)) (map (written_app s) ?ids) [],
    s_releases = fold (\<lambda>a. gm_set (cfg_ID (pa_Config a)) (pa_Releases a))
      (map (written_app s) (filter (\<lambda>i. rels_of (s_releases s) i \<noteq> []) ?ids)) [],
    s_volumes = fold (\<lambda>v. gm_set (vol_ID v) v) ?vs [], s_disk = d\<rparr>"
  have "loadV2OrV3 sha fio io n (JSON (state_of s)) (empty_Store d) = (Inr n, s')"
    unfolding loadV2OrV3_def Unmarshal.simps state_of_apps v option.case
      load_volumes_fold [OF vok] load_appsV2_fold [OF aok] filter_map_rels
    by (simp add: s'_def empty_Store_def)
  moreover have "maps_rep s'"
    by (simp add: maps_rep_def s'_def gm_ok_fold_set)
  moreover have "same_maps s' s"
  proof -
    have ids: "?ids = filter (\<lambda>_. True) ?ids" by simp
    have "gm_get (s_apps s') i = gm_get (s_apps s) i" for i
      unfolding s'_def Store.simps written_fold [OF assms ids]
      using gm_get_None [of "s_apps s" i] by (auto simp: written_app_def)
    moreover have "gm_get (s_metadata s') i = gm_get (s_metadata s) i" for i
      unfolding s'_def Store.simps written_fold [OF assms ids]
      using meta_of_get [OF assms] gm_get_None [of "s_metadata s" i] assms
      by (auto simp: written_app_def store_ok_def)
    moreover have "gm_get (s_releases s') i = gm_get (s_releases s) i" for i
      unfolding s'_def Store.simps written_fold [OF assms refl] rels_of_get [OF assms, of i]
      by (simp add: written_app_def)
    moreover have "gm_get (s_volumes s') = gm_get (s_volumes s)"
      using volumes_reload [of "s_volumes s"] assms by (simp add: s'_def store_ok_def)
    ultimately show ?thesis by (simp add: same_maps_def fun_eq_iff)
  qed
  ultimately show thesis using that by (simp add: s'_def reads_def)
qed

section \<open>What a boot recovers\<close>

lemma same_maps_trans: "same_maps a b \<Longrightarrow> same_maps b c \<Longrightarrow> same_maps a c"
  by (simp add: same_maps_def)

lemma state_of_version [simp]: "st_Version (state_of s) = FormatVersion"
  by (simp add: state_of_def build_state_def)

text \<open>\<open>holds old d\<close>: the state file is what a flush of the store \<open>old\<close> wrote, or is missing and
  \<open>old\<close> is empty.\<close>

definition holds :: "Store \<Rightarrow> disk \<Rightarrow> bool" where
  "holds s d \<longleftrightarrow> d_state d = Some (JSON (state_of s)) \<or>
     (d_state d = None \<and> same_maps (empty_Store d) s)"

definition settled :: "disk \<Rightarrow> bool" where
  "settled d \<longleftrightarrow> wal_clean (d_wal d) \<and> open_pendings (wal_recs (d_wal d)) = []"

lemma load_holds:
  assumes "store_ok s" and "holds s d" and "boot_ok io"
  obtains n s' where "load sha io (empty_Store d) = (Inr n, s')" and "reads s' s" and "s_disk s' = d"
proof (cases "d_state d")
  case None
  with assms have "reads (empty_Store d) s"
    by (auto simp: holds_def reads_def maps_rep_def empty_Store_def)
  moreover have "load sha io (empty_Store d) = (Inr 0, empty_Store d)"
    using None by (simp add: load_def empty_Store_def)
  ultimately show thesis using that by (simp add: empty_Store_def)
next
  case (Some b)
  with assms have b: "d_state d = Some (JSON (state_of s))" by (auto simp: holds_def)
  obtain s' where s': "loadV2OrV3 sha (bt_flush io) io 0 (JSON (state_of s)) (empty_Store d) = (Inr 0, s')"
    "reads s' s" "s_disk s' = d"
    by (rule loadV2OrV3_state_of [OF assms(1)])
  have "load sha io (empty_Store d) = (Inr 0, s')"
    using b s'(1) assms(3)
    by (simp add: load_def boot_ok_def FormatVersion_def [symmetric])
      (simp add: empty_Store_def FormatVersion_def)
  then show thesis using s' that by blast
qed

lemma boot_settled:
  assumes "store_ok s" and "holds s d" and "boot_ok io" and "settled d"
  obtains s' where "NewStore sha io d = (Inr s', d)" and "reads s' s" and "s_disk s' = d"
proof -
  obtain n s' where l: "load sha io (empty_Store d) = (Inr n, s')" "reads s' s" "s_disk s' = d"
    by (rule load_holds [OF assms(1-3)])
  have "scanOrphanPending (d_wal d) = Inr []"
    using assms(4) scan_clean [of "d_wal d"] by (simp add: settled_def)
  then have "replayWAL sha io n s' = (Inr n, s')"
    using l(3) assms(3) by (simp add: replayWAL_def boot_ok_def)
  then show thesis
    using l assms(3) that by (simp add: NewStore_def boot_ok_def)
qed

lemma replay_pending:
  assumes "store_ok new" and "boot_ok io" and "wal_clean (d_wal (s_disk s))"
    and "open_pendings (wal_recs (d_wal (s_disk s))) = ps @ [pending_rec sha now t (JSON (state_of new))]"
  obtains m s' where "replayWAL sha io n s = (Inr m, s')" and "reads s' new"
    and "d_state (s_disk s') = Some (JSON (state_of new))"
    and "wal_clean (d_wal (s_disk s'))"
    and "wal_recs (d_wal (s_disk s')) = wal_recs (d_wal (s_disk s)) @ [close_rec walTypeCommit (bt_now io) t]"
proof -
  let ?p = "pending_rec sha now t (JSON (state_of new))"
  let ?d = "s_disk s"
  define d2 where "d2 = rename_tmp (?d\<lparr>d_tmp := Some (JSON (state_of new))\<rparr>)"
  obtain s1 where s1: "loadV2OrV3 sha (bt_flush_replay io) io n (JSON (state_of new)) (empty_Store d2) = (Inr n, s1)"
    "reads s1 new" "s_disk s1 = d2"
    by (rule loadV2OrV3_state_of [OF assms(1)])
  define w where "w = Some (put_line (Some (close_rec walTypeCommit (bt_now io) t)) True (wal_lines (d_wal ?d)))"
  define s2 where "s2 = s1\<lparr>s_disk := d2\<lparr>d_wal := w\<rparr>\<rparr>"
  have tok: "w_Token ?p = t" by (simp add: pending_rec_def)
  have dw: "d_wal d2 = d_wal ?d" by (simp add: d2_def rename_tmp_def)
  have scan: "scanOrphanPending (d_wal ?d) = Inr (ps @ [?p])"
    using scan_clean [OF assms(3)] assms(4) by simp
  have "replayWAL sha io n s = (Inr n, s2)"
    using assms(2) scan s1 decode_pending_rec [of "JSON (state_of new)" sha now t]
    by (simp add: replayWAL_def boot_ok_def writeFileAndFsync_def d2_def [symmetric] tok dw
        appendCommit_def w_def s2_def)
  moreover have "reads s2 new" using s1(2) by (simp add: s2_def reads_def same_maps_def maps_rep_def)
  moreover have "wal_clean w" "wal_recs w = wal_recs (d_wal ?d) @ [close_rec walTypeCommit (bt_now io) t]"
    using wal_append_clean [OF assms(3) w_def] by simp_all
  moreover have "s_disk s2 = d2\<lparr>d_wal := w\<rparr>" and "d_state d2 = Some (JSON (state_of new))"
    by (simp_all add: s2_def d2_def rename_tmp_def)
  ultimately show thesis using that [of n s2] by simp
qed

lemma boot_pending:
  assumes "store_ok new" and "store_ok old" and "holds old d" and "boot_ok io" and "wal_clean (d_wal d)"
    and "open_pendings (wal_recs (d_wal d)) = ps @ [pending_rec sha now t (JSON (state_of new))]"
  obtains s' d' where "NewStore sha io d = (Inr s', d')" and "reads s' new"
    and "d_state d' = Some (JSON (state_of new))" and "wal_clean (d_wal d')"
    and "wal_recs (d_wal d') = wal_recs (d_wal d) @ [close_rec walTypeCommit (bt_now io) t]"
proof -
  obtain n s0 where l: "load sha io (empty_Store d) = (Inr n, s0)" "s_disk s0 = d"
    by (rule load_holds [OF assms(2,3,4)]) blast
  obtain m s' where "replayWAL sha io n s0 = (Inr m, s')" "reads s' new"
    "d_state (s_disk s') = Some (JSON (state_of new))" "wal_clean (d_wal (s_disk s'))"
    "wal_recs (d_wal (s_disk s')) = wal_recs (d_wal (s_disk s0)) @ [close_rec walTypeCommit (bt_now io) t]"
    using replay_pending [of new io s0 ps sha now t n] assms l(2) by metis
  then show thesis
    using l assms(4) that by (simp add: NewStore_def boot_ok_def)
qed

section \<open>The disks of a flush\<close>

text \<open>An append that is not torn lands nothing or the whole line.\<close>

definition whole :: "append_io \<Rightarrow> bool" where
  "whole io \<longleftrightarrow> io \<noteq> AWriteMid \<and> io \<noteq> AWriteNoNL"

lemma appendWAL_True:
  "appendWAL io r f = (True, f') \<Longrightarrow> f' = Some (put_line (Some r) True (wal_lines f))"
  by (cases io) auto

lemma wal_recs_lines: "wal_lines f = wal_lines g \<Longrightarrow> wal_recs f = wal_recs g \<and> wal_clean f = wal_clean g"
  by (simp add: wal_recs_def wal_clean_def)

lemma appendWAL_cases:
  "whole io \<Longrightarrow> appendWAL io r f = (ok, f') \<Longrightarrow>
   f' = Some (put_line (Some r) True (wal_lines f)) \<or> \<not> ok \<and> wal_lines f' = wal_lines f"
  by (cases io) (auto simp: whole_def wal_lines_Some)

lemma appendWAL_whole:
  assumes "whole io" and "wal_clean f" and "appendWAL io r f = (ok, f')"
  shows "wal_clean f' \<and> (wal_recs f' = wal_recs f \<and> \<not> ok \<or> wal_recs f' = wal_recs f @ [r])"
  using appendWAL_cases [OF assms(1,3)]
proof
  assume "f' = Some (put_line (Some r) True (wal_lines f))"
  from wal_append_clean [OF assms(2) this] show ?thesis by simp
next
  assume "\<not> ok \<and> wal_lines f' = wal_lines f"
  then show ?thesis using assms(2) wal_recs_lines [of f' f] by simp
qed

lemma open_pendings_close:
  assumes "ty = walTypeCommit \<or> ty = walTypeRollback"
  shows "open_pendings (rs @ [close_rec ty now t]) = filter (\<lambda>x. w_Token x \<noteq> t) (open_pendings rs)"
proof -
  have "touches (close_rec ty now t)" and "w_Type (close_rec ty now t) \<noteq> walTypePending"
    using assms by (auto simp: close_rec_def touches_def)
  then show ?thesis
    by (simp add: open_pendings_snoc) (simp add: close_rec_def eq_commute)
qed

text \<open>
  \<open>recoverable\<close>: the log is intact, the state file is the old or the new one, and the log's open
  pending, if there is one, carries the new state.
\<close>

definition recoverable :: "(bytes \<Rightarrow> string) \<Rightarrow> string \<Rightarrow> bytes option \<Rightarrow> bytes \<Rightarrow> disk \<Rightarrow> bool" where
  "recoverable sha t old new d \<longleftrightarrow> wal_clean (d_wal d) \<and> (d_state d = old \<or> d_state d = Some new) \<and>
     (open_pendings (wal_recs (d_wal d)) = [] \<or>
      (\<exists>now. open_pendings (wal_recs (d_wal d)) = [pending_rec sha now t new]))"

lemma recoverable_tmp [simp]: "recoverable sha t old new (d\<lparr>d_tmp := x\<rparr>) = recoverable sha t old new d"
  by (simp add: recoverable_def)

lemma recoverable_remove [simp]: "recoverable sha t old new (remove_tmp b d) = recoverable sha t old new d"
  by (simp add: remove_tmp_def)

lemma recoverable_rename:
  "recoverable sha t old new d \<Longrightarrow> d_tmp d = Some new \<Longrightarrow> recoverable sha t old new (rename_tmp d)"
  by (simp add: recoverable_def rename_tmp_def)

lemma recoverable_close:
  assumes "recoverable sha t old new d" and "whole io" and "ty = walTypeCommit \<or> ty = walTypeRollback"
  shows "recoverable sha t old new (d\<lparr>d_wal := snd (appendWAL io (close_rec ty now t) (d_wal d))\<rparr>)"
proof -
  obtain ok w where w: "appendWAL io (close_rec ty now t) (d_wal d) = (ok, w)" by force
  then have "wal_clean w \<and> (wal_recs w = wal_recs (d_wal d) \<or>
      wal_recs w = wal_recs (d_wal d) @ [close_rec ty now t])"
    using appendWAL_whole [OF assms(2) _ w] assms(1) by (auto simp: recoverable_def)
  then show ?thesis
    using assms(1) w open_pendings_close [OF assms(3)]
    by (auto simp: recoverable_def pending_rec_def)
qed

lemma recoverable_pending:
  assumes "settled d" and "d_state d = old" and "whole io" and "t \<notin> wal_tokens (d_wal d)"
  shows "recoverable sha t old new (d\<lparr>d_wal := snd (appendWAL io (pending_rec sha now t new) (d_wal d))\<rparr>)"
proof -
  obtain ok w where w: "appendWAL io (pending_rec sha now t new) (d_wal d) = (ok, w)" by force
  then have "wal_clean w \<and> (wal_recs w = wal_recs (d_wal d) \<or>
      wal_recs w = wal_recs (d_wal d) @ [pending_rec sha now t new])"
    using appendWAL_whole [OF assms(3) _ w] assms(1) by (auto simp: settled_def)
  moreover have "open_pendings (wal_recs (d_wal d) @ [pending_rec sha now t new]) =
      [pending_rec sha now t new]"
    using open_after_pending [of sha now t new "wal_recs (d_wal d)"] assms(1,4)
    by (simp add: wal_tokens_def pending_rec_def settled_def)
  ultimately show ?thesis
    using assms(1,2) w by (auto simp: recoverable_def settled_def)
qed

lemma recoverable_fail:
  assumes "\<forall>d \<in> set h. recoverable sha (io_token io) old new d" and "h \<noteq> []" and "whole (io_rollback io)"
  shows "\<forall>d \<in> set (fl_hist (fail_rollback io e h)). recoverable sha (io_token io) old new d"
  using assms recoverable_close [of sha "io_token io" old new "last h" "io_rollback io" walTypeRollback]
  by (auto simp: fail_rollback_def appendRollback_def Let_def)

definition untorn :: "flush_io \<Rightarrow> bool" where
  "untorn io \<longleftrightarrow> whole (io_pending io) \<and> whole (io_commit io) \<and> whole (io_rollback io) \<and>
     (io_readback io = RbFail \<or> io_readback io = RbSame)"

lemma flush_recoverable:
  assumes "settled d" and "untorn io" and "io_token io \<notin> wal_tokens (d_wal d)"
  shows "\<forall>x \<in> set (fl_hist (flushFullWithReleases sha io apps meta rels vols d)).
    recoverable sha (io_token io) (d_state d) (JSON (build_state apps meta rels vols)) x"
proof -
  define new where "new = JSON (build_state apps meta rels vols)"
  let ?R = "recoverable sha (io_token io) (d_state d) new"
  obtain ok w where w: "appendPending sha (io_pending io) (io_now io) (io_token io) new (d_wal d) = (ok, w)"
    by force
  define d1 where "d1 = d\<lparr>d_wal := w\<rparr>"
  have R0: "?R d" using assms(1) by (simp add: recoverable_def settled_def)
  have R1: "?R d1"
    using recoverable_pending [OF assms(1) refl _ assms(3), of "io_pending io" sha new "io_now io"] assms(2) w
    by (simp add: d1_def appendPending_def untorn_def)
  obtain okt d2 where d2: "writeFileAndFsync (io_tmp io) new d1 = (okt, d2)" by force
  have R2: "?R d2" and tmp: "okt \<Longrightarrow> d_tmp d2 = Some new"
    using R1 d2 by (auto simp: writeFileAndFsync_def split: tmp_io.splits)
  have rb: "read_back (io_readback io) x = x" for x
    using assms(2) by (auto simp: read_back_def untorn_def)
  have R3: "okt \<Longrightarrow> ?R (rename_tmp d2)" using R2 tmp by (simp add: recoverable_rename)
  obtain okc w5 where w5: "appendCommit (io_commit io) (io_now io) (io_token io) (d_wal (rename_tmp d2)) = (okc, w5)"
    by force
  have R5: "okt \<Longrightarrow> ?R ((rename_tmp d2)\<lparr>d_wal := w5\<rparr>)"
    using recoverable_close [OF R3, of "io_commit io" walTypeCommit "io_now io"] assms(2) w5
    by (simp add: appendCommit_def untorn_def)
  define H where "H r = list_all ?R (fl_hist r)" for r :: flush_result
  have fail: "H (fail_rollback io e h)" if "h \<noteq> []" and "list_all ?R h" for e h
    using recoverable_fail [of h sha io "d_state d" new] that assms(2)
    by (simp add: untorn_def H_def list_all_iff)
  have lit: "H \<lparr>fl_err = e, fl_hist = h\<rparr> = list_all ?R h" for e h
    by (simp add: H_def)
  have "H (flushFullWithReleases sha io apps meta rels vols d)"
    unfolding flushFullWithReleases_def new_def [symmetric] Let_def w d2 prod.case rb d1_def [symmetric] w5
    using R0 R1 R2 R3 R5
    by (cases okt; simp add: fail lit split: option.split)
  then show ?thesis by (simp add: H_def list_all_iff new_def)
qed

section \<open>Copies of a store\<close>

lemma state_of_reads:
  assumes "reads s' s" and "maps_rep s"
  shows "state_of s' = state_of s"
proof -
  have k: "sortStrings (gm_keys (s_apps s')) = sortStrings (gm_keys (s_apps s))"
    "sortStrings (gm_keys (s_volumes s')) = sortStrings (gm_keys (s_volumes s))"
    using assms unfolding sortStrings_def insertion_sort_eq_sort
    by (auto intro!: gm_eq_sorted_keys simp: reads_def maps_rep_def same_maps_def)
  show ?thesis
    unfolding state_of_def build_state_def k
    using assms(1) by (simp add: reads_def same_maps_def meta_of_def rels_of_def)
qed

lemma store_ok_rep: "store_ok s \<Longrightarrow> maps_rep s"
  by (simp add: store_ok_def maps_rep_def apps_ok_def volumes_ok_def metadata_ok_def releases_ok_def)

lemma store_ok_reads:
  assumes "store_ok s" and "reads s' s"
  shows "store_ok s'"
proof -
  have r: "maps_rep s" "maps_rep s'" and g: "gm_get (s_apps s') = gm_get (s_apps s)"
    "gm_get (s_metadata s') = gm_get (s_metadata s)" "gm_get (s_releases s') = gm_get (s_releases s)"
    "gm_get (s_volumes s') = gm_get (s_volumes s)"
    using assms store_ok_rep by (auto simp: reads_def same_maps_def)
  have all: "gm_all P (s_apps s') = gm_all P (s_apps s)" "gm_all Q (s_metadata s') = gm_all Q (s_metadata s)"
    "gm_all R (s_releases s') = gm_all R (s_releases s)" "gm_all V (s_volumes s') = gm_all V (s_volumes s)"
    for P Q R V
    using r by (simp_all add: gm_all_iff maps_rep_def g)
  show ?thesis
    using assms(1) r g [THEN gm_eq_keys] all
    by (simp add: store_ok_def apps_ok_def volumes_ok_def metadata_ok_def releases_ok_def maps_rep_def)
qed

lemma reads_refl: "store_ok s \<Longrightarrow> reads s s"
  by (simp add: reads_def same_maps_def store_ok_rep)

section \<open>Successful and clean outcomes of a flush\<close>

text \<open>The read-back detects a lost page unless the bytes found there collide with the written ones.\<close>

definition no_collision :: "(bytes \<Rightarrow> string) \<Rightarrow> flush_io \<Rightarrow> bytes \<Rightarrow> bool" where
  "no_collision sha io new \<longleftrightarrow>
     (case io_readback io of RbLost b \<Rightarrow> sha b = sha new \<longrightarrow> b = new | _ \<Rightarrow> True)"

lemma flush_success:
  assumes "fl_err (flushFullWithReleases sha io apps meta rels vols d) = None"
    and "wal_clean (d_wal d)" and "no_collision sha io (JSON (build_state apps meta rels vols))"
  shows "d_state (fl_disk (flushFullWithReleases sha io apps meta rels vols d)) =
      Some (JSON (build_state apps meta rels vols)) \<and>
    wal_clean (d_wal (fl_disk (flushFullWithReleases sha io apps meta rels vols d))) \<and>
    wal_recs (d_wal (fl_disk (flushFullWithReleases sha io apps meta rels vols d))) =
      wal_recs (d_wal d) @ [pending_rec sha (io_now io) (io_token io) (JSON (build_state apps meta rels vols)),
        close_rec walTypeCommit (io_now io) (io_token io)]"
proof -
  define new where "new = JSON (build_state apps meta rels vols)"
  obtain okp w1 where w1: "appendPending sha (io_pending io) (io_now io) (io_token io) new (d_wal d) = (okp, w1)"
    by force
  obtain okt d2 where d2: "writeFileAndFsync (io_tmp io) new (d\<lparr>d_wal := w1\<rparr>) = (okt, d2)" by force
  define d4 where "d4 = read_back (io_readback io) (rename_tmp d2)"
  obtain okc w5 where w5: "appendCommit (io_commit io) (io_now io) (io_token io) (d_wal d4) = (okc, w5)"
    by force
  define r where "r = flushFullWithReleases sha io apps meta rels vols d"
  have ne: "fl_err (fail_rollback io e h) \<noteq> None" for e h by (simp add: fail_rollback_def Let_def)
  have "fl_err r = None \<Longrightarrow> okp \<and> okt \<and> okc \<and> (\<exists>g. d_state d4 = Some g \<and> sha g = sha new) \<and>
      fl_disk r = d4\<lparr>d_wal := w5\<rparr>"
    unfolding r_def flushFullWithReleases_def new_def [symmetric] Let_def w1 d2 prod.case d4_def [symmetric] w5
    by (simp add: ne split: if_splits option.splits) auto
  then have ok: okp okt okc "\<exists>g. d_state d4 = Some g \<and> sha g = sha new" and dsk: "fl_disk r = d4\<lparr>d_wal := w5\<rparr>"
    using assms(1) by (simp_all add: r_def)
  have "okt \<Longrightarrow> d_tmp d2 = Some new"
    using d2 by (auto simp: writeFileAndFsync_def split: tmp_io.splits)
  then have g: "d_state d4 = Some new"
    using ok(2,4) assms(3) by (auto simp: no_collision_def new_def d4_def read_back_def rename_tmp_def
        split: readback_io.splits)
  have w4: "d_wal d4 = w1"
    using d2 by (auto simp: d4_def read_back_def rename_tmp_def writeFileAndFsync_def
        split: readback_io.splits tmp_io.splits)
  have "appendWAL (io_pending io) (pending_rec sha (io_now io) (io_token io) new) (d_wal d) = (True, w1)"
    using w1 ok(1) by (simp add: appendPending_def)
  from wal_append_clean [OF assms(2) appendWAL_True [OF this]]
  have 1: "wal_clean w1" "wal_recs w1 = wal_recs (d_wal d) @ [pending_rec sha (io_now io) (io_token io) new]"
    by simp_all
  have "appendWAL (io_commit io) (close_rec walTypeCommit (io_now io) (io_token io)) w1 = (True, w5)"
    using w5 ok(3) w4 by (simp add: appendCommit_def)
  from wal_append_clean [OF 1(1) appendWAL_True [OF this]] 1(2) g dsk show ?thesis
    by (simp add: r_def [symmetric] new_def [symmetric])
qed

definition soft :: "flush_error \<Rightarrow> bool" where
  "soft e \<longleftrightarrow> e = FMkdir \<or> e = FTmpWrite \<or> e = FSyncPre \<or> e = FRename"

lemma flush_soft:
  assumes "fl_err (flushFullWithReleases sha io apps meta rels vols d) = Some e" and "soft e"
    and "wal_clean (d_wal d)" and "io_rollback io = AOk"
  defines "d' \<equiv> fl_disk (flushFullWithReleases sha io apps meta rels vols d)"
  shows "d_state d' = d_state d \<and> wal_clean (d_wal d') \<and>
    (wal_recs (d_wal d') = wal_recs (d_wal d) \<or>
     wal_recs (d_wal d') = wal_recs (d_wal d) @
       [pending_rec sha (io_now io) (io_token io) (JSON (build_state apps meta rels vols)),
        close_rec walTypeRollback (io_now io) (io_token io)])"
proof -
  define new where "new = JSON (build_state apps meta rels vols)"
  obtain okp w1 where w1: "appendPending sha (io_pending io) (io_now io) (io_token io) new (d_wal d) = (okp, w1)"
    by force
  obtain okt d2 where d2: "writeFileAndFsync (io_tmp io) new (d\<lparr>d_wal := w1\<rparr>) = (okt, d2)" by force
  define wr where "wr = Some (put_line (Some (close_rec walTypeRollback (io_now io) (io_token io))) True (wal_lines w1))"
  have keep: "d_state d2 = d_state d" "d_wal d2 = w1"
    using d2 by (auto simp: writeFileAndFsync_def split: tmp_io.splits)
  have fd: "fl_disk (fail_rollback io f h) =
      (last h)\<lparr>d_wal := snd (appendRollback (io_rollback io) (io_now io) (io_token io) (d_wal (last h)))\<rparr>" for f h
    by (simp add: fail_rollback_def Let_def)
  have fe: "fl_err (fail_rollback io f h) = Some f" for f h by (simp add: fail_rollback_def Let_def)
  have "d' = d \<or> okp \<and> d_state d' = d_state d \<and> d_wal d' = wr"
    using assms(1,2,4) keep
    unfolding d'_def flushFullWithReleases_def new_def [symmetric] Let_def w1 d2 prod.case
    by (auto simp: fd fe soft_def appendRollback_def wr_def remove_tmp_def split: if_splits option.splits prod.splits)
  then show ?thesis
  proof
    assume o: "okp \<and> d_state d' = d_state d \<and> d_wal d' = wr"
    have "appendWAL (io_pending io) (pending_rec sha (io_now io) (io_token io) new) (d_wal d) = (True, w1)"
      using w1 o by (simp add: appendPending_def)
    from wal_append_clean [OF assms(3) appendWAL_True [OF this]] wal_append_clean [of w1 wr, OF _ wr_def]
    show ?thesis using o by (simp add: new_def)
  qed (use assms(3) in simp)
qed

section \<open>The durable store as a state machine\<close>

abbreviation flush_of :: "(bytes \<Rightarrow> string) \<Rightarrow> flush_io \<Rightarrow> Store \<Rightarrow> disk \<Rightarrow> flush_result" where
  "flush_of sha io s d \<equiv>
     flushFullWithReleases sha io (s_apps s) (s_metadata s) (s_releases s) (s_volumes s) d"

text \<open>
  Every mutation either leaves the store alone or is one flush of candidate maps: on success they
  are the new store's, on failure the maps stay and the disk is what the flush left.
\<close>

definition flushes ::
  "(bytes \<Rightarrow> string) \<Rightarrow> flush_io \<Rightarrow> Store \<Rightarrow> store_error option \<Rightarrow> Store \<Rightarrow> bool"
where
  "flushes sha io s e s' \<longleftrightarrow> s' = s \<and> (\<forall>f. e \<noteq> Some (StFlush f)) \<or>
    (\<exists>c. (e = None \<and> fl_err (flush_of sha io c (s_disk s)) = None \<and> mem s' = mem c \<or>
      (\<exists>f. e = Some (StFlush f) \<and> fl_err (flush_of sha io c (s_disk s)) = Some f \<and> mem s' = mem s)) \<and>
      s_disk s' = fl_disk (flush_of sha io c (s_disk s)))"

lemma flushes_stay [intro]: "(\<And>f. e \<noteq> Some (StFlush f)) \<Longrightarrow> flushes sha io s e s"
  by (simp add: flushes_def)

lemma flushes_commit:
  assumes "r = flush_of sha io (swap s) (s_disk s)"
    and "\<And>d. swap (s\<lparr>s_disk := d\<rparr>) = (swap s)\<lparr>s_disk := d\<rparr>"
  shows "flushes sha io s (fst (commit_swap r swap s)) (snd (commit_swap r swap s))"
  unfolding flushes_def
  by (intro disjI2 exI [of _ "swap s"]) (auto simp: commit_swap_def assms split: option.split)

lemma AddApp_flushes: "flushes sha io s (fst (AddApp sha io u cfg s)) (snd (AddApp sha io u cfg s))"
  by (auto simp: AddApp_def Let_def newAppMetadata_def flushFull_def
      intro!: flushes_commit split: option.split sum.split)

lemma RemoveApp_flushes: "flushes sha io s (fst (RemoveApp sha io i s)) (snd (RemoveApp sha io i s))"
  by (auto simp: RemoveApp_def Let_def intro!: flushes_commit)

lemma AddVolume_flushes: "flushes sha io s (fst (AddVolume sha io v s)) (snd (AddVolume sha io v s))"
  by (auto simp: AddVolume_def Let_def flushBoth_def flushFull_def intro!: flushes_commit)

lemma RemoveVolume_flushes: "flushes sha io s (fst (RemoveVolume sha io i s)) (snd (RemoveVolume sha io i s))"
  by (auto simp: RemoveVolume_def Let_def flushBoth_def flushFull_def intro!: flushes_commit)

lemma SetObservedGeneration_flushes:
  "flushes sha io s (fst (SetObservedGeneration sha io i g s)) (snd (SetObservedGeneration sha io i g s))"
  by (auto simp: SetObservedGeneration_def Let_def flushFull_def intro!: flushes_commit split: option.split)

lemma CreateRelease_flushes:
  "flushes sha io s (fst (exec_op sha io (OpCreateRelease u i inp) s))
     (snd (exec_op sha io (OpCreateRelease u i inp) s))"
proof -
  have post: "(case (case x of (err, s') \<Rightarrow> case err of None \<Rightarrow> (Inr rel, s') | Some e \<Rightarrow> (Inl e, s')) of
      (Inl e, s') \<Rightarrow> (Some e, s') | (Inr _, s') \<Rightarrow> (None, s')) = x"
    for x :: "store_error option \<times> Store" and rel :: Release
    by (auto split: prod.split option.split)
  show ?thesis
    by (auto simp: CreateRelease_def Let_def post intro!: flushes_commit split: option.split)
qed

lemma exec_op_flushes: "flushes sha io s (fst (exec_op sha io op s)) (snd (exec_op sha io op s))"
proof (cases op)
  case (OpCreateRelease u i inp)
  then show ?thesis by (simp only: CreateRelease_flushes)
qed (simp_all add: AddApp_flushes RemoveApp_flushes AddVolume_flushes RemoveVolume_flushes
    SetObservedGeneration_flushes)

definition synced :: "Store \<Rightarrow> bool" where
  "synced s \<longleftrightarrow> store_ok s \<and> settled (s_disk s) \<and> holds s (s_disk s)"

fun clean_outcome :: "flush_io \<Rightarrow> store_error option \<Rightarrow> bool" where
  "clean_outcome io (Some (StFlush f)) \<longleftrightarrow> soft f \<and> io_rollback io = AOk"
| "clean_outcome io _ \<longleftrightarrow> True"

lemma holds_mem: "mem s = mem c \<Longrightarrow> d_state d = d_state d' \<Longrightarrow> holds s d = holds c d'"
  by (simp add: mem_def holds_def state_of_def same_maps_def empty_Store_def)

lemma settled_close:
  assumes "settled d" and "wal_clean (d_wal d')" and "t \<notin> wal_tokens (d_wal d)"
    and "wal_recs (d_wal d') = wal_recs (d_wal d) @ [pending_rec sha now t b, close_rec ty now' t]"
    and "ty = walTypeCommit \<or> ty = walTypeRollback"
  shows "settled d'"
  using assms open_after_close [of t "wal_recs (d_wal d)" ty sha now b now']
  by (simp add: settled_def wal_tokens_def)

lemma synced_step:
  assumes "synced s" and "op_uuid_ok op" and "io_token io \<notin> wal_tokens (d_wal (s_disk s))"
    and "no_collision sha io (JSON (state_of (snd (exec_op sha io op s))))"
    and "clean_outcome io (fst (exec_op sha io op s))"
  shows "synced (snd (exec_op sha io op s))"
proof -
  let ?e = "fst (exec_op sha io op s)" and ?s = "snd (exec_op sha io op s)" and ?d = "s_disk s"
  have ok: "store_ok ?s" using assms(1,2) by (simp add: synced_def exec_op_ok)
  have clean: "wal_clean (d_wal ?d)" and set: "settled ?d" using assms(1) by (simp_all add: synced_def settled_def)
  from exec_op_flushes [of sha io s op] show ?thesis unfolding flushes_def
  proof (elim disjE exE conjE)
    assume "?s = s" then show ?thesis using assms(1) by simp
  next
    fix c assume n: "fl_err (flush_of sha io c ?d) = None" and m: "mem ?s = mem c"
      and d: "s_disk ?s = fl_disk (flush_of sha io c ?d)"
    have "state_of ?s = state_of c" using m by (simp add: mem_def state_of_def)
    then have "no_collision sha io (JSON (state_of c))" using assms(4) by simp
    note fs = flush_success [OF n clean this [unfolded state_of_def], folded state_of_def]
    have "settled (s_disk ?s)"
      using fs assms(3) d by (intro settled_close [OF set]) auto
    moreover have "holds ?s (s_disk ?s)"
      using fs m d by (simp add: holds_def state_of_def mem_def)
    ultimately show ?thesis using ok by (simp add: synced_def)
  next
    fix c f assume e: "?e = Some (StFlush f)" and n: "fl_err (flush_of sha io c ?d) = Some f"
      and m: "mem ?s = mem s" and d: "s_disk ?s = fl_disk (flush_of sha io c ?d)"
    from e assms(5) have sf: "soft f" and rb: "io_rollback io = AOk" by simp_all
    note fs = flush_soft [OF n sf clean rb]
    have "settled (s_disk ?s)"
      using fs assms(3) set settled_close [OF set, of "s_disk ?s"] d by (auto simp: settled_def)
    moreover have "holds ?s (s_disk ?s)"
      using holds_mem [OF m, of "s_disk ?s" ?d] fs d assms(1) by (simp add: synced_def)
    ultimately show ?thesis using ok by (simp add: synced_def)
  qed
qed

lemma holds_reads:
  assumes "reads s' s" and "holds s d" and "store_ok s"
  shows "holds s' d"
  using assms state_of_reads [OF assms(1) store_ok_rep [OF assms(3)]]
  by (auto simp: holds_def reads_def same_maps_def)

lemma synced_boot:
  assumes "synced s" and "boot_ok bio"
  shows "\<exists>s'. NewStore sha bio (s_disk s) = (Inr s', s_disk s) \<and> reads s' s \<and> synced s'"
proof -
  obtain s' where s': "NewStore sha bio (s_disk s) = (Inr s', s_disk s)" "reads s' s" "s_disk s' = s_disk s"
    using boot_settled [of s "s_disk s" bio sha] assms by (auto simp: synced_def)
  moreover have "synced s'"
    using assms(1) s' store_ok_reads [of s s'] holds_reads [of s' s "s_disk s"]
    by (simp add: synced_def)
  ultimately show ?thesis by blast
qed

text \<open>
  One step of the durable store: a mutation whose flush succeeded or failed before the rename with a
  written rollback, or a restart of the daemon.
\<close>

inductive durable_step :: "(bytes \<Rightarrow> string) \<Rightarrow> Store \<Rightarrow> Store \<Rightarrow> bool" for sha where
  mutate: "op_uuid_ok op \<Longrightarrow> io_token io \<notin> wal_tokens (d_wal (s_disk s)) \<Longrightarrow>
    no_collision sha io (JSON (state_of (snd (exec_op sha io op s)))) \<Longrightarrow>
    clean_outcome io (fst (exec_op sha io op s)) \<Longrightarrow> durable_step sha s (snd (exec_op sha io op s))"
| restart: "boot_ok bio \<Longrightarrow> NewStore sha bio (s_disk s) = (Inr s', d') \<Longrightarrow> durable_step sha s s'"

lemma synced_durable_step: "durable_step sha s s' \<Longrightarrow> synced s \<Longrightarrow> synced s'"
proof (induction rule: durable_step.induct)
  case (mutate op io s)
  then show ?case by (intro synced_step)
next
  case (restart bio s s' d')
  then show ?case using synced_boot [of s bio sha] by auto
qed

lemma synced_reachable:
  "(durable_step sha)\<^sup>*\<^sup>* s s' \<Longrightarrow> synced s \<Longrightarrow> synced s'"
  by (induction rule: rtranclp_induct) (auto intro: synced_durable_step)

lemma synced_empty: "synced (empty_Store empty_disk)"
  unfolding synced_def using store_ok_empty [of empty_disk]
  by (simp add: settled_def holds_def same_maps_def)
    (simp add: empty_Store_def empty_disk_def wal_clean_def wal_recs_def wal_lines_def open_pendings_def)

lemma holds_recoverable:
  assumes "holds old d" and "recoverable sha t (d_state d) (JSON (state_of new)) x"
  shows "holds old x \<or> holds new x"
  using assms by (auto simp: recoverable_def holds_def same_maps_def empty_Store_def)

lemma no_collision_same [simp]: "io_readback io \<in> {RbFail, RbSame} \<Longrightarrow> no_collision sha io b"
  by (auto simp: no_collision_def)

definition ok_boot :: boot_io where
  "ok_boot = \<lparr>bt_fs_ok = True, bt_read_ok = True, bt_wal_open = True, bt_now = 50, bt_uuid = (\<lambda>_. None),
     bt_flush = ok_io ''b1'' 50, bt_flush_migrate = ok_io ''b3'' 50, bt_flush_replay = ok_io ''b2'' 50, bt_tmp = TmpOk, bt_remove = True,
     bt_sync_pre = True, bt_rename = True, bt_sync_post = True, bt_commit = AOk\<rparr>"

lemma ok_boot_ok: "boot_ok ok_boot"
  by (simp add: boot_ok_def ok_boot_def)

section \<open>Failures after the rename, stale orphans, torn appends, lost pages\<close>

lemma fl_err_fail [simp]: "fl_err (fail_rollback io e h) = Some e"
  by (simp add: fail_rollback_def Let_def)

lemma fl_disk_fail:
  "fl_disk (fail_rollback io e h) =
     (last h)\<lparr>d_wal := snd (appendRollback (io_rollback io) (io_now io) (io_token io) (d_wal (last h)))\<rparr>"
  by (simp add: fail_rollback_def Let_def)

lemma flush_post_rename:
  assumes "fl_err (flushFullWithReleases sha io apps meta rels vols d) = Some e"
    and "e \<in> {FSyncPost, FReadBack, FWalCommit}" and "untorn io"
  shows "d_state (fl_disk (flushFullWithReleases sha io apps meta rels vols d)) =
    Some (JSON (build_state apps meta rels vols))"
proof -
  define new where "new = JSON (build_state apps meta rels vols)"
  obtain okp w1 where w1: "appendPending sha (io_pending io) (io_now io) (io_token io) new (d_wal d) = (okp, w1)"
    by force
  obtain okt d2 where d2: "writeFileAndFsync (io_tmp io) new (d\<lparr>d_wal := w1\<rparr>) = (okt, d2)" by force
  have tmp: "okt \<Longrightarrow> d_tmp d2 = Some new"
    using d2 by (auto simp: writeFileAndFsync_def split: tmp_io.splits)
  have rb: "read_back (io_readback io) x = x" for x
    using assms(3) by (auto simp: read_back_def untorn_def)
  show ?thesis
    using assms(1,2) tmp
    unfolding flushFullWithReleases_def new_def [symmetric] Let_def w1 d2 prod.case rb
    by (auto simp: fl_disk_fail rename_tmp_def split: if_splits option.splits prod.splits)
qed

text \<open>The candidate store an \<open>AddApp\<close> flushes.\<close>

lemma AddApp_candidate:
  assumes "store_ok s" and "u \<noteq> Some []"
    and "fst (AddApp sha io u cfg s) = None \<or> (\<exists>f. fst (AddApp sha io u cfg s) = Some (StFlush f))"
  obtains c where "store_ok c" and "s_apps c = gm_set (cfg_ID cfg) cfg (s_apps s)"
    and "AddApp sha io u cfg s = commit_swap (flush_of sha io c (s_disk s))
           (\<lambda>s. s\<lparr>s_apps := s_apps c, s_metadata := s_metadata c\<rparr>) s"
    and "s_releases c = s_releases s" and "s_volumes c = s_volumes s"
proof -
  have i: "cfg_ID cfg \<noteq> []" using assms(3) by (auto simp: AddApp_def)
  define mm where "mm = (case gm_get (s_metadata s) (cfg_ID cfg) of
      Some existingMeta \<Rightarrow> Inr (bump_spec existingMeta) | None \<Rightarrow> newAppMetadata u (io_now io))"
  obtain m where m: "mm = Inr m"
    using assms(3) i by (cases mm)
      (auto simp: AddApp_def mm_def newAppMetadata_def Let_def split: option.splits)
  have mok: "md_UID m \<noteq> [] \<and> md_ObservedGeneration m \<le> md_Generation m"
    using m assms(1,2) store_ok_meta [OF assms(1)] newAppMetadata_ok
    by (auto simp: mm_def split: option.splits)
  define c where "c = s\<lparr>s_apps := gm_set (cfg_ID cfg) cfg (s_apps s),
    s_metadata := gm_set (cfg_ID cfg) m (s_metadata s)\<rparr>"
  have "store_ok c" using assms(1) mok i by (auto simp: c_def store_ok_def)
  moreover have "AddApp sha io u cfg s = commit_swap (flush_of sha io c (s_disk s))
      (\<lambda>s. s\<lparr>s_apps := s_apps c, s_metadata := s_metadata c\<rparr>) s"
    using i m by (simp add: AddApp_def mm_def [symmetric] Let_def flushFull_def c_def)
  ultimately show thesis using that by (simp add: c_def)
qed

lemma flush_orphan:
  assumes "fl_err (flushFullWithReleases sha io apps meta rels vols d) = Some FTmpWrite"
    and "wal_clean (d_wal d)" and "io_rollback io = AOpenFail"
  defines "d' \<equiv> fl_disk (flushFullWithReleases sha io apps meta rels vols d)"
  shows "d_state d' = d_state d \<and> wal_clean (d_wal d') \<and>
    wal_recs (d_wal d') = wal_recs (d_wal d) @
      [pending_rec sha (io_now io) (io_token io) (JSON (build_state apps meta rels vols))]"
proof -
  define new where "new = JSON (build_state apps meta rels vols)"
  obtain okp w1 where w1: "appendPending sha (io_pending io) (io_now io) (io_token io) new (d_wal d) = (okp, w1)"
    by force
  obtain okt d2 where d2: "writeFileAndFsync (io_tmp io) new (d\<lparr>d_wal := w1\<rparr>) = (okt, d2)" by force
  have keep: "d_state d2 = d_state d" "d_wal d2 = w1"
    using d2 by (auto simp: writeFileAndFsync_def split: tmp_io.splits)
  have o: "okp \<and> d_state d' = d_state d \<and> d_wal d' = w1"
    using assms(1,3) keep
    unfolding d'_def flushFullWithReleases_def new_def [symmetric] Let_def w1 d2 prod.case
    by (auto simp: fl_disk_fail appendRollback_def remove_tmp_def split: if_splits option.splits prod.splits)
  then have "appendWAL (io_pending io) (pending_rec sha (io_now io) (io_token io) new) (d_wal d) = (True, w1)"
    using w1 by (simp add: appendPending_def)
  from wal_append_clean [OF assms(2) appendWAL_True [OF this]] o show ?thesis
    by (simp add: new_def)
qed

section \<open>Properties\<close>

text \<open>
  C1: Durability. From an empty data directory, after any interleaving of mutations that succeeded or
  failed cleanly (before the rename, with the rollback record written) and of daemon restarts, a
  further restart finds exactly the maps the daemon had in memory, and changes nothing on disk. The
  tokens are fresh (UUIDs) and a lost page does not collide under SHA-256.
\<close>

theorem durable_reboot:
  assumes "(durable_step sha)\<^sup>*\<^sup>* (empty_Store empty_disk) s" and "boot_ok bio"
  shows "\<exists>s'. NewStore sha bio (s_disk s) = (Inr s', s_disk s) \<and>
    gm_get (s_apps s') = gm_get (s_apps s) \<and> gm_get (s_metadata s') = gm_get (s_metadata s) \<and>
    gm_get (s_releases s') = gm_get (s_releases s) \<and> gm_get (s_volumes s') = gm_get (s_volumes s)"
  using synced_boot [OF synced_reachable [OF assms(1) synced_empty] assms(2)]
  by (auto simp: reads_def same_maps_def)

theorem durable_reboot_witness:
  "\<exists>s'. NewStore (\<lambda>_. []) ok_boot
      (s_disk (snd (exec_op (\<lambda>_. []) (ok_io ''t'' 1) (OpAddApp (Some ''u1'') web) (empty_Store empty_disk)))) =
      (Inr s', s_disk (snd (exec_op (\<lambda>_. []) (ok_io ''t'' 1) (OpAddApp (Some ''u1'') web) (empty_Store empty_disk)))) \<and>
    gm_get (s_apps s') ''web'' = Some web"
proof -
  let ?s = "snd (exec_op (\<lambda>_. []) (ok_io ''t'' 1) (OpAddApp (Some ''u1'') web) (empty_Store empty_disk))"
  have "durable_step (\<lambda>_. []) (empty_Store empty_disk) ?s"
    by (rule durable_step.mutate)
      (simp_all add: AddApp_def newAppMetadata_def flush_eval wal_tokens_def wal_recs_def wal_lines_def)
  moreover have "gm_get (s_apps ?s) ''web'' = Some web"
    by (simp add: AddApp_def newAppMetadata_def flush_eval)
  ultimately show ?thesis
    using durable_reboot [OF r_into_rtranclp ok_boot_ok] by fastforce
qed

text \<open>
  C2: Crash recovery. On a settled disk (the log has no torn line and no record left pending), a crash after any
  system call of a flush with a fresh token (no torn append, no lost page) leaves a disk
  from which the next boot comes up with either all of the old maps or all of the new ones; the
  disk it leaves is settled, and every later boot finds the same maps again.
\<close>

theorem crash_recovery:
  assumes "store_ok old" and "store_ok new" and "holds old d" and "settled d" and "untorn io"
    and "io_token io \<notin> wal_tokens (d_wal d)" and "boot_ok bio" and "boot_ok bio'"
    and "x \<in> set (fl_hist (flushFullWithReleases sha io (s_apps new) (s_metadata new)
           (s_releases new) (s_volumes new) d))"
  shows "\<exists>s' d' s''. NewStore sha bio x = (Inr s', d') \<and> (same_maps s' old \<or> same_maps s' new) \<and>
    settled d' \<and> NewStore sha bio' d' = (Inr s'', d') \<and> same_maps s'' s'"
proof -
  have R: "recoverable sha (io_token io) (d_state d) (JSON (state_of new)) x"
    using flush_recoverable [OF assms(4,5,6)] assms(9) by (simp add: state_of_def)
  have again: ?thesis if h: "NewStore sha bio x = (Inr s', d')" "reads s' c" "c \<in> {old, new}" "store_ok c"
    "holds c d'" "settled d'" for s' d' c
  proof -
    obtain s'' where "NewStore sha bio' d' = (Inr s'', d')" "reads s'' c"
      by (rule boot_settled [OF h(4,5) assms(8) h(6)])
    then show ?thesis using h by (auto simp: reads_def same_maps_def)
  qed
  show ?thesis
  proof (cases "open_pendings (wal_recs (d_wal x)) = []")
    case True
    then have set: "settled x" using R by (simp add: settled_def recoverable_def)
    obtain c where c: "c \<in> {old, new}" "store_ok c" "holds c x"
      using holds_recoverable [OF assms(3) R] assms(1,2) by blast
    obtain s' where "NewStore sha bio x = (Inr s', x)" "reads s' c"
      by (rule boot_settled [OF c(2,3) assms(7) set])
    then show ?thesis using again c set by blast
  next
    case False
    then obtain now where p: "open_pendings (wal_recs (d_wal x)) =
        [] @ [pending_rec sha now (io_token io) (JSON (state_of new))]" and clean: "wal_clean (d_wal x)"
      using R by (auto simp: recoverable_def)
    obtain c where c: "store_ok c" "holds c x"
      using holds_recoverable [OF assms(3) R] assms(1,2) by blast
    obtain s' d' where b: "NewStore sha bio x = (Inr s', d')" "reads s' new"
      "d_state d' = Some (JSON (state_of new))" "wal_clean (d_wal d')"
      "wal_recs (d_wal d') = wal_recs (d_wal x) @ [close_rec walTypeCommit (bt_now bio) (io_token io)]"
      by (rule boot_pending [OF assms(2) c assms(7) clean p])
    moreover have "settled d'"
      using b(4,5) p open_pendings_close by (simp add: settled_def) (simp add: pending_rec_def)
    ultimately show ?thesis using again [of s' d' new] assms(2) by (simp add: holds_def)
  qed
qed

theorem crash_recovery_witness:
  "\<exists>s' d' s''. NewStore (\<lambda>_. []) ok_boot
      (fl_hist (flushFullWithReleases (\<lambda>_. []) (ok_io ''t'' 1) (s_apps web_store) (s_metadata web_store)
         (s_releases web_store) (s_volumes web_store) empty_disk) ! 2) = (Inr s', d') \<and>
    (same_maps s' (empty_Store empty_disk) \<or> same_maps s' web_store) \<and>
    settled d' \<and> NewStore (\<lambda>_. []) ok_boot d' = (Inr s'', d') \<and> same_maps s'' s'"
proof (rule crash_recovery [where io = "ok_io ''t'' 1" and d = empty_disk])
  show "holds (empty_Store empty_disk) empty_disk" "settled empty_disk"
    using synced_empty by (simp_all add: synced_def empty_Store_def)
  show "fl_hist (flushFullWithReleases (\<lambda>_. []) (ok_io ''t'' 1) (s_apps web_store) (s_metadata web_store)
      (s_releases web_store) (s_volumes web_store) empty_disk) ! 2
    \<in> set (fl_hist (flushFullWithReleases (\<lambda>_. []) (ok_io ''t'' 1) (s_apps web_store) (s_metadata web_store)
      (s_releases web_store) (s_volumes web_store) empty_disk))"
    by (rule nth_mem) (simp add: flushFullWithReleases_def ok_io_def appendPending_def appendCommit_def
        writeFileAndFsync_def read_back_def rename_tmp_def Let_def)
qed (simp_all add: store_ok_empty web_store_ok ok_boot_ok untorn_def whole_def ok_io_def wal_tokens_def
    empty_disk_def wal_recs_def wal_lines_def)

text \<open>
  C7: An \<open>AddApp\<close> that fails after the rename (directory sync, read-back or commit record) returns an
  error and keeps the in-memory maps, yet the next boot comes up with the new configuration: in these
  cases an error does not mean that nothing was persisted.
\<close>

theorem post_rename_error_persists:
  assumes "synced s" and "u \<noteq> Some []" and "AddApp sha io u cfg s = (Some (StFlush f), s')"
    and "f \<in> {FSyncPost, FReadBack, FWalCommit}" and "untorn io"
    and "io_token io \<notin> wal_tokens (d_wal (s_disk s))" and "boot_ok bio"
  shows "s_apps s' = s_apps s \<and>
    (\<exists>s'' d'. NewStore sha bio (s_disk s') = (Inr s'', d') \<and> gm_get (s_apps s'') (cfg_ID cfg) = Some cfg)"
proof -
  have ok: "store_ok s" and set: "settled (s_disk s)" and hold: "holds s (s_disk s)"
    using assms(1) by (simp_all add: synced_def)
  obtain c where c: "store_ok c" "s_apps c = gm_set (cfg_ID cfg) cfg (s_apps s)"
    "AddApp sha io u cfg s = commit_swap (flush_of sha io c (s_disk s))
           (\<lambda>s. s\<lparr>s_apps := s_apps c, s_metadata := s_metadata c\<rparr>) s"
    by (rule AddApp_candidate [OF ok assms(2), of sha io cfg]) (simp add: assms(3))
  let ?r = "flush_of sha io c (s_disk s)"
  have e: "fl_err ?r = Some f" and s': "s' = s\<lparr>s_disk := fl_disk ?r\<rparr>"
    using c(3) assms(3) by (auto simp: commit_swap_def split: option.splits)
  have "fl_hist ?r \<noteq> []" by (auto simp: flushFullWithReleases_def fail_rollback_def Let_def split: prod.split option.split)
  then have R: "recoverable sha (io_token io) (d_state (s_disk s)) (JSON (state_of c)) (fl_disk ?r)"
    using flush_recoverable [OF set assms(5,6)] by (simp add: state_of_def)
  have "holds c (fl_disk ?r)"
    using flush_post_rename [OF e assms(4,5)] by (simp add: holds_def state_of_def)
  have "\<exists>s'' d'. NewStore sha bio (fl_disk ?r) = (Inr s'', d') \<and> reads s'' c"
  proof (cases "open_pendings (wal_recs (d_wal (fl_disk ?r))) = []")
    case True
    then have "settled (fl_disk ?r)" using R by (simp add: settled_def recoverable_def)
    from boot_settled [OF c(1) \<open>holds c (fl_disk ?r)\<close> assms(7) this] show ?thesis by metis
  next
    case False
    then obtain now where "open_pendings (wal_recs (d_wal (fl_disk ?r))) =
        [] @ [pending_rec sha now (io_token io) (JSON (state_of c))]" "wal_clean (d_wal (fl_disk ?r))"
      using R by (auto simp: recoverable_def)
    from boot_pending [OF c(1) c(1) \<open>holds c (fl_disk ?r)\<close> assms(7) this(2,1)] show ?thesis by metis
  qed
  then show ?thesis using s' c(2) by (auto simp: reads_def same_maps_def)
qed

theorem post_rename_error_persists_witness:
  "\<exists>s' s'' d'. AddApp (\<lambda>_. []) ((ok_io ''t'' 1)\<lparr>io_sync_post := False\<rparr>) (Some ''u'') web (empty_Store empty_disk)
      = (Some (StFlush FSyncPost), s') \<and> s_apps s' = [] \<and>
    NewStore (\<lambda>_. []) ok_boot (s_disk s') = (Inr s'', d') \<and> gm_get (s_apps s'') ''web'' = Some web"
proof -
  obtain s' where a: "AddApp (\<lambda>_. []) ((ok_io ''t'' 1)\<lparr>io_sync_post := False\<rparr>) (Some ''u'') web (empty_Store empty_disk)
      = (Some (StFlush FSyncPost), s')"
    by (simp add: AddApp_def newAppMetadata_def flush_eval)
  have "cfg_ID web = ''web''" by (simp add: web_def zero_Config_def)
  then show ?thesis
    using post_rename_error_persists [OF synced_empty _ a _ _ _ ok_boot_ok] a
    by (auto simp: untorn_def whole_def ok_io_def wal_tokens_def empty_disk_def empty_Store_def wal_recs_def
        wal_lines_def)
qed

text \<open>
  C8: A pending record whose rollback could not be written stays open, and a later boot replays it over
  everything committed since: an app added successfully afterwards is gone after the restart, and
  the app whose \<open>AddApp\<close> was rejected is there.
\<close>

theorem stale_orphan_undoes_commit:
  assumes "synced s" and "u1 \<noteq> Some []" and "u2 \<noteq> Some []"
    and "AddApp sha io1 u1 c1 s = (Some (StFlush FTmpWrite), s1)" and "io_rollback io1 = AOpenFail"
    and "io_token io1 \<notin> wal_tokens (d_wal (s_disk s))"
    and "AddApp sha io2 u2 c2 s1 = (None, s2)" and "io_readback io2 = RbSame"
    and "io_token io2 \<notin> wal_tokens (d_wal (s_disk s1))"
    and "cfg_ID c1 \<noteq> cfg_ID c2" and "gm_get (s_apps s) (cfg_ID c2) = None" and "boot_ok bio"
  shows "gm_get (s_apps s2) (cfg_ID c2) = Some c2 \<and>
    (\<exists>s' d'. NewStore sha bio (s_disk s2) = (Inr s', d') \<and>
      gm_get (s_apps s') (cfg_ID c2) = None \<and> gm_get (s_apps s') (cfg_ID c1) = Some c1)"
proof -
  have ok: "store_ok s" and set: "settled (s_disk s)" using assms(1) by (simp_all add: synced_def)
  obtain a where a: "store_ok a" "s_apps a = gm_set (cfg_ID c1) c1 (s_apps s)"
    "AddApp sha io1 u1 c1 s = commit_swap (flush_of sha io1 a (s_disk s))
           (\<lambda>s. s\<lparr>s_apps := s_apps a, s_metadata := s_metadata a\<rparr>) s"
    by (rule AddApp_candidate [OF ok assms(2), of sha io1 c1]) (simp add: assms(4))
  let ?r1 = "flush_of sha io1 a (s_disk s)"
  have e1: "fl_err ?r1 = Some FTmpWrite" and s1: "s1 = s\<lparr>s_disk := fl_disk ?r1\<rparr>"
    using a(3) assms(4) by (auto simp: commit_swap_def split: option.splits)
  have clean: "wal_clean (d_wal (s_disk s))" using set by (simp add: settled_def)
  note o = flush_orphan [OF e1 clean assms(5), folded state_of_def]
  let ?p = "pending_rec sha (io_now io1) (io_token io1) (JSON (state_of a))"
  have ok1: "store_ok s1" and clean1: "wal_clean (d_wal (s_disk s1))"
    and recs1: "wal_recs (d_wal (s_disk s1)) = wal_recs (d_wal (s_disk s)) @ [?p]"
    using ok o by (simp_all add: s1)
  have open1: "open_pendings (wal_recs (d_wal (s_disk s1))) = [?p]"
    using open_after_pending [of sha "io_now io1" "io_token io1" _ "wal_recs (d_wal (s_disk s))"] assms(6) set recs1
    by (simp add: wal_tokens_def settled_def pending_rec_def)
  obtain b where b: "store_ok b" "s_apps b = gm_set (cfg_ID c2) c2 (s_apps s1)"
    "AddApp sha io2 u2 c2 s1 = commit_swap (flush_of sha io2 b (s_disk s1))
           (\<lambda>s. s\<lparr>s_apps := s_apps b, s_metadata := s_metadata b\<rparr>) s1"
    by (rule AddApp_candidate [OF ok1 assms(3), of sha io2 c2]) (simp add: assms(7))
  let ?r2 = "flush_of sha io2 b (s_disk s1)"
  have e2: "fl_err ?r2 = None" and s2: "s2 = s1\<lparr>s_disk := fl_disk ?r2, s_apps := s_apps b, s_metadata := s_metadata b\<rparr>"
    using b(3) assms(7) by (auto simp: commit_swap_def split: option.splits)
  note f = flush_success [OF e2 clean1 no_collision_same, folded state_of_def]
  have d2: "s_disk s2 = fl_disk ?r2" by (simp add: s2)
  have "holds b (s_disk s2)" using f assms(8) d2 by (simp add: holds_def)
  moreover have "wal_clean (d_wal (s_disk s2))" using f assms(8) d2 by simp
  moreover have "open_pendings (wal_recs (d_wal (s_disk s2))) = [] @ [?p]"
    using f assms(8,9) d2 open1 open_after_close [of "io_token io2" "wal_recs (d_wal (s_disk s1))" walTypeCommit]
    by (simp add: wal_tokens_def)
  ultimately have "\<exists>s' d'. NewStore sha bio (s_disk s2) = (Inr s', d') \<and> reads s' a"
    using boot_pending [OF a(1) b(1) _ assms(12)] by metis
  then show ?thesis
    using a(2) b(2) s1 s2 assms(10,11) by (auto simp: reads_def same_maps_def)
qed

definition api :: Config where
  "api = zero_Config\<lparr>cfg_ID := ''api'', cfg_Command := ''/bin/api''\<rparr>"

theorem stale_orphan_undoes_commit_witness:
  "\<exists>s1 s2 s' d'.
     AddApp (\<lambda>_. []) ((ok_io ''t1'' 1)\<lparr>io_tmp := TmpSyncFail, io_rollback := AOpenFail\<rparr>) (Some ''u1'') web
       (empty_Store empty_disk) = (Some (StFlush FTmpWrite), s1) \<and>
     AddApp (\<lambda>_. []) (ok_io ''t2'' 2) (Some ''u2'') api s1 = (None, s2) \<and>
     NewStore (\<lambda>_. []) ok_boot (s_disk s2) = (Inr s', d') \<and>
     gm_get (s_apps s') ''api'' = None \<and> gm_get (s_apps s') ''web'' = Some web"
proof -
  have ids: "cfg_ID web = ''web''" "cfg_ID api = ''api''" by (simp_all add: web_def api_def zero_Config_def)
  obtain s1 where a: "AddApp (\<lambda>_. []) ((ok_io ''t1'' 1)\<lparr>io_tmp := TmpSyncFail, io_rollback := AOpenFail\<rparr>) (Some ''u1'') web
       (empty_Store empty_disk) = (Some (StFlush FTmpWrite), s1)"
    and t: "wal_tokens (d_wal (s_disk s1)) = {''t1''}" and b: "\<exists>s2. AddApp (\<lambda>_. []) (ok_io ''t2'' 2) (Some ''u2'') api s1 = (None, s2)"
    by (simp add: AddApp_def newAppMetadata_def flush_eval api_def wal_tokens_def wal_recs_def wal_lines_def
        put_line_def pending_rec_def)
  from b obtain s2 where b: "AddApp (\<lambda>_. []) (ok_io ''t2'' 2) (Some ''u2'') api s1 = (None, s2)" ..
  have "wal_tokens (d_wal (s_disk (empty_Store empty_disk))) = {}"
    by (simp add: empty_Store_def empty_disk_def wal_tokens_def wal_recs_def wal_lines_def)
  with stale_orphan_undoes_commit [OF synced_empty _ _ a _ _ b, of ok_boot] a b t ids ok_boot_ok
  show ?thesis by (auto simp: ok_io_def empty_Store_def)
qed

text \<open>
  A pending append that is cut in the middle of its line (a crash, or a full disk) leaves a log that
  the next boot refuses to scan: \<open>NewStore\<close> returns a decode error although \<open>state.json\<close> is intact.
\<close>

theorem torn_append_blocks_boot:
  assumes "store_ok old" and "holds old d" and "io_mkdir io" and "io_pending io = AWriteMid" and "boot_ok bio"
  shows "\<exists>n d'. NewStore sha bio (fl_disk (flushFullWithReleases sha io apps meta rels vols d)) =
    (Inl (BScan (WalDecode n)), d')"
proof -
  define x where "x = fl_disk (flushFullWithReleases sha io apps meta rels vols d)"
  have x: "x = d\<lparr>d_wal := Some (put_line None False (wal_lines (d_wal d)))\<rparr>"
    using assms(3,4) by (simp add: x_def flushFullWithReleases_def appendPending_def Let_def)
  then have "holds old x" using assms(2) by (simp add: holds_def same_maps_def empty_Store_def)
  then obtain n s' where l: "load sha bio (empty_Store x) = (Inr n, s')" "s_disk s' = x"
    by (rule load_holds [OF assms(1) _ assms(5)])
  have "\<exists>l \<in> set (put_line None False (wal_lines (d_wal d))). wl_rec l = None"
    by (simp add: put_line_def)
  then obtain m where "scan_lines 0 (put_line None False (wal_lines (d_wal d))) [] = Inl (WalDecode m)"
    using scan_lines_undecodable by blast
  then have "scanOrphanPending (d_wal x) = Inl (WalDecode m)"
    by (simp add: x scanOrphanPending_def)
  then have "NewStore sha bio x = (Inl (BScan (WalDecode m)), x)"
    using l assms(5) by (simp add: NewStore_def replayWAL_def boot_ok_def)
  then show ?thesis unfolding x_def by blast
qed

theorem torn_append_blocks_boot_witness:
  "\<exists>n d'. NewStore (\<lambda>_. []) ok_boot (fl_disk (flushFullWithReleases (\<lambda>_. [])
     ((ok_io ''t'' 1)\<lparr>io_pending := AWriteMid\<rparr>) [(''web'', web)] [] [] [] empty_disk)) =
     (Inl (BScan (WalDecode n)), d')"
  using synced_empty
  by (intro torn_append_blocks_boot [OF store_ok_empty _ _ _ ok_boot_ok, of empty_disk])
    (simp_all add: synced_def ok_io_def empty_Store_def)

text \<open>
  When the read-back finds other bytes, the flush reports the corruption and leaves the pending
  record open for replay; but if those bytes are not JSON, the next boot stops at \<open>load\<close>, before the
  replay that would have restored the state.
\<close>

theorem lost_page_blocks_replay:
  assumes "fl_err (flushFullWithReleases sha io apps meta rels vols d) = Some (FStorageCorrupted h1 h2)"
    and "io_readback io = RbLost (Bytes (b # bs))" and "wal_clean (d_wal d)"
    and "io_token io \<notin> wal_tokens (d_wal d)" and "boot_ok bio"
  defines "x \<equiv> fl_disk (flushFullWithReleases sha io apps meta rels vols d)"
  shows "scanOrphanPending (d_wal x) = Inr (open_pendings (wal_recs (d_wal d)) @
      [pending_rec sha (io_now io) (io_token io) (JSON (build_state apps meta rels vols))]) \<and>
    NewStore sha bio x = (Inl BDecodeHeader, x)"
proof -
  define new where "new = JSON (build_state apps meta rels vols)"
  obtain okp w1 where w1: "appendPending sha (io_pending io) (io_now io) (io_token io) new (d_wal d) = (okp, w1)"
    by force
  obtain okt d2 where d2: "writeFileAndFsync (io_tmp io) new (d\<lparr>d_wal := w1\<rparr>) = (okt, d2)" by force
  have wal2: "d_wal d2 = w1" using d2 by (auto simp: writeFileAndFsync_def split: tmp_io.splits)
  have x: "okp \<and> d_wal x = w1 \<and> d_state x = Some (Bytes (b # bs))"
    using assms(1) wal2
    unfolding x_def flushFullWithReleases_def new_def [symmetric] Let_def w1 d2 prod.case assms(2)
    by (auto simp: read_back_def rename_tmp_def split: if_splits prod.splits)
  then have "appendWAL (io_pending io) (pending_rec sha (io_now io) (io_token io) new) (d_wal d) = (True, w1)"
    using w1 by (simp add: appendPending_def)
  note w = wal_append_clean [OF assms(3) appendWAL_True [OF this]]
  have "scanOrphanPending (d_wal x) = Inr (open_pendings (wal_recs (d_wal d)) @
      [pending_rec sha (io_now io) (io_token io) new])"
    using scan_clean [of "d_wal x"] x w assms(4)
      open_after_pending [of sha "io_now io" "io_token io" new "wal_recs (d_wal d)"]
    by (simp add: wal_tokens_def pending_rec_def)
  moreover have "load sha bio (empty_Store x) = (Inl BDecodeHeader, empty_Store x)"
    using x assms(5) by (simp add: load_def boot_ok_def empty_Store_def)
  then have "NewStore sha bio x = (Inl BDecodeHeader, x)"
    using assms(5) by (simp add: NewStore_def boot_ok_def empty_Store_def)
  ultimately show ?thesis by (simp add: new_def)
qed

theorem lost_page_blocks_replay_witness:
  "NewStore (\<lambda>b. case b of JSON _ \<Rightarrow> [] | _ \<Rightarrow> ''x'') ok_boot
     (fl_disk (flushFullWithReleases (\<lambda>b. case b of JSON _ \<Rightarrow> [] | _ \<Rightarrow> ''x'')
       ((ok_io ''t'' 1)\<lparr>io_readback := RbLost (Bytes ''zz'')\<rparr>) [(''web'', web)] [] [] [] empty_disk)) =
   (Inl BDecodeHeader,
     fl_disk (flushFullWithReleases (\<lambda>b. case b of JSON _ \<Rightarrow> [] | _ \<Rightarrow> ''x'')
       ((ok_io ''t'' 1)\<lparr>io_readback := RbLost (Bytes ''zz'')\<rparr>) [(''web'', web)] [] [] [] empty_disk))"
proof -
  let ?sha = "\<lambda>b. case b of JSON _ \<Rightarrow> [] | _ \<Rightarrow> ''x''"
  let ?io = "(ok_io ''t'' 1)\<lparr>io_readback := RbLost (Bytes ''zz'')\<rparr>"
  have "fl_err (flushFullWithReleases ?sha ?io [(''web'', web)] [] [] [] empty_disk) =
      Some (FStorageCorrupted [] ''x'')"
    by (simp add: flushFullWithReleases_def ok_io_def appendPending_def writeFileAndFsync_def read_back_def
        rename_tmp_def Let_def)
  moreover have "wal_clean (d_wal empty_disk)" "io_token ?io \<notin> wal_tokens (d_wal empty_disk)"
    "io_readback ?io = RbLost (Bytes (CHR ''z'' # ''z''))"
    by (simp_all add: empty_disk_def wal_clean_def wal_lines_def wal_tokens_def wal_recs_def)
  ultimately show ?thesis
    using lost_page_blocks_replay [OF _ _ _ _ ok_boot_ok] by blast
qed

end
