(* ===== verification/Daemon_Restore.thy ===== *)
theory Daemon_Restore
  imports Admin_Consistency Daemon_Config State_Boot
begin

text \<open>
  The start of the daemon (cmd/creekd/main.go): \<open>run\<close> up to the point where the admin listener serves, and
  \<open>restoreFromState\<close>, which registers the persisted volumes and spawns and routes every persisted app. The
  logged outcomes of the restore are its events. A Stop of the error path may wait forever; then the
  restore does not return (\<open>None\<close>).
\<close>

section \<open>restoreFromState\<close>

datatype restore_event =
    SkippedID string | SpawnFailed string spawn_error | RouteFailed string | PersistFailed string
  | NowDedicated string RunAs | Restored string

record restored =
  rt_sup :: Supervisor
  rt_router :: Router
  rt_store :: Store
  rt_count :: nat
  rt_log :: "restore_event list"

definition note_event :: "restore_event \<Rightarrow> restored \<Rightarrow> restored" where
  "note_event e s = s\<lparr>rt_log := rt_log s @ [e]\<rparr>"

text \<open>The block that persists a user allocated for an entry that named none.\<close>

definition persist_allocated :: "api_ext \<Rightarrow> call_io \<Rightarrow> Config \<Rightarrow> App \<Rightarrow> restored \<Rightarrow> restored" where
  "persist_allocated x io cfg app s =
     (if cfg_RunAs cfg = None \<and> \<not> cfg_RunAsRoot cfg then
        (case a_runAs app of
           None \<Rightarrow> s
         | Some ra \<Rightarrow>
             note_event (NowDedicated (cfg_ID cfg) ra)
               (case AddApp (ex_sha x) (ci_flush io) (ci_uuid io) (cfg\<lparr>cfg_RunAs := Some ra\<rparr>) (rt_store s) of
                  (None, st) \<Rightarrow> s\<lparr>rt_store := st\<rparr>
                | (Some _, st) \<Rightarrow> note_event (PersistFailed (cfg_ID cfg)) (s\<lparr>rt_store := st\<rparr>)))
      else s)"

definition restore_app :: "api_ext \<Rightarrow> spawn_io \<Rightarrow> call_io \<Rightarrow> Config \<Rightarrow> restored \<Rightarrow> restored option" where
  "restore_app x sio io cfg s =
     (case ValidateID (cfg_ID cfg) of
        Some _ \<Rightarrow> Some (note_event (SkippedID (cfg_ID cfg)) s)
      | None \<Rightarrow>
          (case Spawn sio cfg (rt_sup s) of
             (Inl e, su) \<Rightarrow> Some (note_event (SpawnFailed (cfg_ID cfg) e) (s\<lparr>rt_sup := su\<rparr>))
           | (Inr a, su1) \<Rightarrow>
               let app = app_at su1 a; s1 = s\<lparr>rt_sup := ci_env io su1\<rparr> in
               (case SetAddr (ex_url_ok x) (cfg_ID cfg) (net_host x app) (cfg_Port cfg) (rt_router s) of
                  (Some _, r) \<Rightarrow>
                    (case stop_call io (cfg_ID cfg) (rt_sup s1) of
                       (Inr False, _) \<Rightarrow> None
                     | (_, su) \<Rightarrow> Some (note_event (RouteFailed (cfg_ID cfg)) (s1\<lparr>rt_sup := su, rt_router := r\<rparr>)))
                | (None, r) \<Rightarrow>
                    let s2 = persist_allocated x io cfg app (s1\<lparr>rt_router := r\<rparr>) in
                    Some (note_event (Restored (cfg_ID cfg)) (s2\<lparr>rt_count := rt_count s2 + 1\<rparr>)))))"

fun restore_apps ::
  "api_ext \<Rightarrow> (string \<Rightarrow> spawn_io) \<Rightarrow> (string \<Rightarrow> call_io) \<Rightarrow> Config list \<Rightarrow> restored \<Rightarrow> restored option"
where
  "restore_apps x sf cf [] s = Some s"
| "restore_apps x sf cf (cfg # cfgs) s =
     (case restore_app x (sf (cfg_ID cfg)) (cf (cfg_ID cfg)) cfg s of
        None \<Rightarrow> None
      | Some s' \<Rightarrow> restore_apps x sf cf cfgs s')"

definition loaded_volume :: "Volume \<Rightarrow> SupVolume" where
  "loaded_volume v = \<lparr>v_ID = vol_ID v, v_BackingPath = vol_BackingPath v, v_ReadOnly = vol_ReadOnly v,
     v_FSType = vol_FSType v, v_resolvedAbsPath = [], v_devMajor = 0, v_devMinor = 0, v_inode = 0\<rparr>"

definition restore_volume :: "sup_opts \<Rightarrow> (string \<Rightarrow> open_io) \<Rightarrow> Volume \<Rightarrow> SupVolume gomap \<Rightarrow> SupVolume gomap" where
  "restore_volume o' f v vols =
     (case ValidateID (vol_ID v) of
        Some _ \<Rightarrow> vols
      | None \<Rightarrow> snd (RegisterVolume o' (f (vol_ID v)) (loaded_volume v) vols))"

record restore_io =
  re_open :: "string \<Rightarrow> open_io"
  re_sync :: persist_io
  re_spawn :: "string \<Rightarrow> spawn_io"
  re_call :: "string \<Rightarrow> call_io"

definition restoreFromState ::
  "api_ext \<Rightarrow> restore_io \<Rightarrow> Supervisor \<Rightarrow> Router \<Rightarrow> Store \<Rightarrow> SupVolume gomap \<times> restored option"
where
  "restoreFromState x io su router st =
     (let vols = fold (restore_volume (sp_opts su) (re_open io)) (Volumes st) [];
          apps = Apps st;
          uid1 = fold (ObserveRunAs (sp_opts su)) apps (sp_uid su);
          uid2 = snd (SyncUIDHighWater (sp_opts su) (re_sync io) uid1)
      in (vols, restore_apps x (re_spawn io) (re_call io) apps
            \<lparr>rt_sup = su\<lparr>sp_uid := uid2\<rparr>, rt_router = router, rt_store = st, rt_count = 0, rt_log = []\<rparr>))"

section \<open>run\<close>

datatype run_error =
    RunEnv env_error | RunCgroups cgroup_init_error | RunState boot_error | RunUIDMark | RunDispatchListen
  | RunNoToken string | RunAdminListen listen_error

record run_io =
  ru_host :: host_env
  ru_pool :: "IPPool option"
  ru_cgnew :: bool
  ru_cgparent :: bool
  ru_boot :: boot_io
  ru_uidfile :: "string option"
  ru_restore :: restore_io
  ru_dispatch :: bool
  ru_loopback :: "string \<Rightarrow> bool option"
  ru_audit :: bool
  ru_auditfs :: audit_fs
  ru_hostkey :: "(string \<times> string) option"
  ru_listen :: bool
  ru_chmod :: bool

text \<open>The part of \<open>run\<close> under \<open>CREEKD_STATE_DIR\<close>: store, UID mark, restore.\<close>

definition run_state ::
  "api_ext \<Rightarrow> string \<Rightarrow> run_io \<Rightarrow> sup_opts \<Rightarrow> disk \<Rightarrow>
     (run_error + SupVolume gomap \<times> restored option) \<times> disk"
where
  "run_state x dir io o1 d =
     (case NewStore (ex_sha x) (ru_boot io) d of
        (Inl e, d1) \<Rightarrow> (Inl (RunState e), d1)
      | (Inr st, d1) \<Rightarrow>
          let o2 = o1\<lparr>UIDStatePath := Join dir ''app-uid-hwm''\<rparr>;
              (ok, uid) = LoadUIDHighWater o2 \<lparr>uidHWM = 0, uidFile = ru_uidfile io\<rparr>
          in if \<not> ok then (Inl RunUIDMark, d1)
             else (Inr (restoreFromState x (ru_restore io) (boot_sup o2 (ru_host io) uid (ru_pool io)) NewRouter st), d1))"

text \<open>
  \<open>None\<close> when the restore does not return; otherwise the error \<open>run\<close> ends with, or the listener, the server
  it hands requests to and the events of the restore.
\<close>

definition run_listen ::
  "api_ext \<Rightarrow> (string \<Rightarrow> string) \<Rightarrow> run_io \<Rightarrow> Supervisor \<Rightarrow> SupVolume gomap \<Rightarrow> Router \<Rightarrow> Store option \<Rightarrow>
     run_error + listener \<times> Server"
where
  "run_listen x env io su vols router store =
     (let dispatchAddr = envOr env ''CREEKD_DISPATCH_ADDR'' ''127.0.0.1:9000'';
          adminAddr = envOr env ''CREEKD_ADMIN_ADDR'' ''127.0.0.1:9080'';
          adminToken = env ''CREEKD_ADMIN_TOKEN'';
          dir = env ''CREEKD_STATE_DIR''
      in
      if dispatchAddr \<noteq> [] \<and> \<not> ru_dispatch io then Inl RunDispatchListen
      else if adminToken = [] \<and> \<not> isLoopback (ru_loopback io) adminAddr then Inl (RunNoToken adminAddr)
      else
        let server = \<lparr>sv_sup = su, sv_volumes = vols, sv_router = Some router, sv_token = adminToken, sv_store = store,
              sv_audit = (if dir \<noteq> [] then NewAuditLogger (ex_shas x) (ru_audit io) (ru_auditfs io) else None),
              sv_hostkey = (if dir \<noteq> [] then ru_hostkey io else None), sv_conditions = newConditionTracker\<rparr>
        in case listenAdminAddr (ru_listen io) (ru_chmod io) adminAddr of
             Inl e \<Rightarrow> Inl (RunAdminListen e)
           | Inr ln \<Rightarrow> Inr (ln, server))"

definition run :: "api_ext \<Rightarrow> (string \<Rightarrow> string) \<Rightarrow> run_io \<Rightarrow> disk \<Rightarrow> (run_error + listener \<times> Server \<times> restore_event list) option" where
  "run x env io d =
     (case configureSupervisorFromEnv env New_opts of
        Inl e \<Rightarrow> Some (Inl (RunEnv e))
      | Inr o1 \<Rightarrow>
          (case fst (InitCgroups o1 (ru_cgnew io) (ru_cgparent io) False) of
             Some e \<Rightarrow> Some (Inl (RunCgroups e))
           | None \<Rightarrow>
               if env ''CREEKD_STATE_DIR'' = [] then
                 Some (case run_listen x env io (boot_sup o1 (ru_host io) \<lparr>uidHWM = 0, uidFile = None\<rparr> (ru_pool io)) [] NewRouter None of
                         Inl e \<Rightarrow> Inl e | Inr (ln, srv) \<Rightarrow> Inr (ln, srv, []))
               else case fst (run_state x (env ''CREEKD_STATE_DIR'') io o1 d) of
                 Inl e \<Rightarrow> Some (Inl e)
               | Inr (vols, None) \<Rightarrow> None
               | Inr (vols, Some rt) \<Rightarrow>
                   Some (case run_listen x env io (rt_sup rt) vols (rt_router rt) (Some (rt_store rt)) of
                           Inl e \<Rightarrow> Inl e | Inr (ln, srv) \<Rightarrow> Inr (ln, srv, rt_log rt))))"

section \<open>Stores that boot leaves behind\<close>

lemma load_volumes_apps [simp]: "s_apps (load_volumes vs s) = s_apps s"
  by (induction vs s rule: load_volumes.induct) auto

lemma load_appsV1_ok: "apps_ok (s_apps s) \<Longrightarrow> apps_ok (s_apps (snd (load_appsV1 io n as s)))"
proof (induction as arbitrary: n s)
  case (Cons a as)
  then show ?case using maps_ok_set(1) [of "s_apps s" "pa_Config a"] by (simp add: Let_def split: sum.split)
qed simp

lemma load_appsV2_ok: "apps_ok (s_apps s) \<Longrightarrow> apps_ok (s_apps (snd (load_appsV2 io n b as s)))"
proof (induction as arbitrary: n b s)
  case (Cons a as)
  then show ?case using maps_ok_set(1) [of "s_apps s" "pa_Config a"] by (simp add: Let_def split: sum.split)
qed simp

lemma loadV2OrV3_ok:
  assumes "apps_ok (s_apps s)"
  shows "apps_ok (s_apps (snd (loadV2OrV3 sha fio io n data s)))"
proof (cases "Unmarshal data")
  case (Some st)
  obtain r s1 where l: "load_appsV2 io n False (st_Apps st) (load_volumes (st_Volumes st) s) = (r, s1)" by (metis surj_pair)
  have "apps_ok (s_apps s1)" using load_appsV2_ok [of "load_volumes (st_Volumes st) s" io n False "st_Apps st"] assms l by simp
  then show ?thesis by (simp add: loadV2OrV3_def Some l Let_def split: sum.split prod.split option.split)
qed (use assms in \<open>simp add: loadV2OrV3_def\<close>)

lemma migrate_apps: "s_apps (snd (migrate sha io res)) = s_apps (snd res)"
  by (cases res) (simp add: migrate_def Let_def split: sum.split option.split)

lemma loadV1_ok:
  assumes "apps_ok (s_apps s)"
  shows "apps_ok (s_apps (snd (loadV1 io n data s)))"
  using assms load_appsV1_ok by (simp add: loadV1_def split: option.split)

lemma load_ok: "apps_ok (s_apps s) \<Longrightarrow> apps_ok (s_apps (snd (load sha io s)))"
  by (simp add: load_def migrate_apps loadV1_ok loadV2OrV3_ok split: option.split)

lemma empty_apps_ok: "apps_ok (s_apps (empty_Store d))"
  by (simp add: empty_Store_def apps_ok_def)

lemma loadV2OrV3_empty:
  "loadV2OrV3 sha fio io n payload (empty_Store d) = (r, s1) \<Longrightarrow> apps_ok (s_apps s1)"
  using loadV2OrV3_ok [OF empty_apps_ok, of sha fio io n payload d] by simp

lemma replay_ok:
  assumes "apps_ok (s_apps s)" and "replayWAL sha io n s = (Inr m, s')"
  shows "apps_ok (s_apps s')"
  using assms unfolding replayWAL_def Let_def
  by (auto split: if_splits sum.splits prod.splits dest: loadV2OrV3_empty)

lemma NewStore_apps_ok:
  assumes "NewStore sha io d = (Inr st, d')"
  shows "apps_ok (s_apps st)"
proof -
  obtain r s where l: "load sha io (empty_Store d) = (r, s)" by (metis surj_pair)
  have s: "apps_ok (s_apps s)" using load_ok [OF empty_apps_ok, of sha io d] by (simp add: l)
  obtain n m where "replayWAL sha io n s = (Inr m, st)"
    using assms l by (auto simp: NewStore_def split: if_splits sum.splits prod.splits)
  then show ?thesis using replay_ok [OF s] by blast
qed

section \<open>The restore keeps supervisor, router and store in step\<close>

definition rt_ok :: "restored \<Rightarrow> bool" where
  "rt_ok s \<longleftrightarrow> reg_ok (rt_sup s) \<and> runs_ok (rt_sup s) (rt_store s) (rt_router s)"

definition restore_io_ok :: "restore_io \<Rightarrow> bool" where
  "restore_io_ok io \<longleftrightarrow> (\<forall>i. quiet (ci_env (re_call io i)) \<and> quiet (ci_stop_env (re_call io i)) \<and> ti_kill (ci_stop (re_call io i)))"

text \<open>An entry as the API writes it: an app that runs as root names no user.\<close>

definition root_named :: "Config \<Rightarrow> bool" where
  "root_named cfg \<longleftrightarrow> (cfg_RunAsRoot cfg \<longrightarrow> cfg_RunAs cfg = None)"

lemma note_event_sel [simp]:
  "rt_sup (note_event e s) = rt_sup s" "rt_store (note_event e s) = rt_store s" "rt_router (note_event e s) = rt_router s"
  "rt_count (note_event e s) = rt_count s" "rt_log (note_event e s) = rt_log s @ [e]"
  by (simp_all add: note_event_def)

lemma rt_ok_note [simp]: "rt_ok (note_event e s) = rt_ok s"
  by (simp add: rt_ok_def)

lemma rt_ok_count [simp]: "rt_ok (s\<lparr>rt_count := n\<rparr>) = rt_ok s"
  by (simp add: rt_ok_def)

lemma persist_allocated_frame:
  "rt_sup (persist_allocated x io cfg app s) = rt_sup s" "rt_router (persist_allocated x io cfg app s) = rt_router s"
  "rt_count (persist_allocated x io cfg app s) = rt_count s"
  by (auto simp: persist_allocated_def split: option.split prod.split)

lemma persist_allocated_log:
  "\<exists>evs. rt_log (persist_allocated x io cfg app s) = rt_log s @ evs \<and>
     (\<forall>e \<in> set evs. e = PersistFailed (cfg_ID cfg) \<or> (\<exists>ra. e = NowDedicated (cfg_ID cfg) ra))"
  by (auto simp: persist_allocated_def split: option.split prod.split)

text \<open>Unless the write of an allocated user failed, the entry then names the user the app runs as.\<close>

lemma persist_allocated_entry:
  assumes entry: "gm_get (s_apps (rt_store s)) (cfg_ID cfg) = Some cfg" and root: "root_named cfg"
    and app: "a_runAsRoot app = cfg_RunAsRoot cfg" "cfg_RunAsRoot cfg \<Longrightarrow> a_runAs app = None"
      "\<not> cfg_RunAsRoot cfg \<Longrightarrow> cfg_RunAs cfg \<noteq> None \<Longrightarrow> a_runAs app = cfg_RunAs cfg"
    and log: "PersistFailed (cfg_ID cfg) \<notin> set (rt_log (persist_allocated x io cfg app s))"
  shows "\<exists>cfg'. gm_get (s_apps (rt_store (persist_allocated x io cfg app s))) = (gm_get (s_apps (rt_store s)))(cfg_ID cfg \<mapsto> cfg') \<and>
    cfg_Port cfg' = cfg_Port cfg \<and> cfg_RunAs cfg' = a_runAs app \<and> cfg_RunAsRoot cfg' = a_runAsRoot app"
proof (cases "cfg_RunAs cfg = None \<and> \<not> cfg_RunAsRoot cfg \<and> a_runAs app \<noteq> None")
  case True
  then obtain ra where ra: "a_runAs app = Some ra" by blast
  obtain e st where add: "AddApp (ex_sha x) (ci_flush io) (ci_uuid io) (cfg\<lparr>cfg_RunAs := Some ra\<rparr>) (rt_store s) = (e, st)"
    by (metis surj_pair)
  have e: "e = None" using log True ra add by (cases e) (auto simp: persist_allocated_def)
  then show ?thesis using AddApp_apps(1) [OF add e] True ra add app(1) by (auto simp: persist_allocated_def)
next
  case False
  then have s: "persist_allocated x io cfg app s = s" by (auto simp: persist_allocated_def split: option.split)
  have "cfg_RunAs cfg = a_runAs app" using False app root by (cases "cfg_RunAs cfg") (auto simp: root_named_def)
  then show ?thesis using entry app(1) unfolding s by (metis map_upd_triv)
qed

lemma Spawn_identity:
  assumes "reg_ok su" and "Spawn io cfg su = (Inr a, su')"
  shows "a_runAsRoot (app_at su' a) = cfg_RunAsRoot cfg" and "cfg_RunAsRoot cfg \<Longrightarrow> a_runAs (app_at su' a) = None"
    and "\<not> cfg_RunAsRoot cfg \<Longrightarrow> cfg_RunAs cfg \<noteq> None \<Longrightarrow> a_runAs (app_at su' a) = cfg_RunAs cfg"
proof -
  have "spawnUnchecked io cfg su = (Inr a, su')" using assms(2) by (auto simp: Spawn_def split: option.splits)
  moreover have "pool_inv su" using assms(1) by (simp add: reg_ok_def)
  ultimately show "a_runAsRoot (app_at su' a) = cfg_RunAsRoot cfg" and "cfg_RunAsRoot cfg \<Longrightarrow> a_runAs (app_at su' a) = None"
    and "\<not> cfg_RunAsRoot cfg \<Longrightarrow> cfg_RunAs cfg \<noteq> None \<Longrightarrow> a_runAs (app_at su' a) = cfg_RunAs cfg"
    using spawn_identity by blast+
qed

lemma restore_app_ok:
  assumes ok: "rt_ok s" and q: "quiet (ci_env io)" "quiet (ci_stop_env io)" "ti_kill (ci_stop io)"
    and entry: "gm_get (s_apps (rt_store s)) (cfg_ID cfg) = Some cfg" and root: "root_named cfg"
    and run: "restore_app x sio io cfg s = Some s'" and log: "PersistFailed (cfg_ID cfg) \<notin> set (rt_log s')"
  shows "rt_ok s' \<and> (\<forall>j. j \<noteq> cfg_ID cfg \<longrightarrow> gm_get (s_apps (rt_store s')) j = gm_get (s_apps (rt_store s)) j)"
proof (cases "ValidateID (cfg_ID cfg)")
  case (Some e)
  then show ?thesis using run ok by (auto simp: restore_app_def)
next
  case None
  have reg: "reg_ok (rt_sup s)" and runs: "runs_ok (rt_sup s) (rt_store s) (rt_router s)" using ok by (simp_all add: rt_ok_def)
  obtain res su1 where sp: "Spawn sio cfg (rt_sup s) = (res, su1)" by (metis surj_pair)
  show ?thesis
  proof (cases res)
    case (Inl e)
    then have s': "s' = note_event (SpawnFailed (cfg_ID cfg) e) (s\<lparr>rt_sup := su1\<rparr>)" using run None sp by (simp add: restore_app_def)
    have "shrinks (rt_sup s) su1" using Spawn_effect [OF reg sp] Inl by simp
    then show ?thesis using runs_ok_shrinks [OF reg _ runs] by (simp add: s' rt_ok_def shrinks_def)
  next
    case (Inr a)
    note kept = spawn_settled [OF reg sp [unfolded Inr] q(1)]
    obtain re r where ra: "SetAddr (ex_url_ok x) (cfg_ID cfg) (net_host x (app_at su1 a)) (cfg_Port cfg) (rt_router s) = (re, r)"
      by (metis surj_pair)
    note run' = run [unfolded restore_app_def None option.case sp Inr prod.case sum.case Let_def ra]
    show ?thesis
    proof (cases re)
      case (Some e)
      have r: "r = rt_router s" using ra Some by (auto simp: SetAddr_def split: sum.splits)
      obtain sr su2 where st: "stop_call io (cfg_ID cfg) (ci_env io su1) = (sr, su2)" by (metis surj_pair)
      have s': "s' = note_event (RouteFailed (cfg_ID cfg)) (s\<lparr>rt_sup := su2, rt_router := rt_router s\<rparr>)"
        using run' Some st r by (auto split: sum.splits bool.splits)
      have "reg_ok su2 \<and> runs_ok su2 (rt_store s) (rt_router s)"
        by (rule stop_undo_runs [OF _ kept(1) q(2,3) st, where r = "rt_router s"])
          (use others_backed [OF reg runs kept(2,3)] in auto)
      then show ?thesis by (simp add: s' rt_ok_def)
    next
      case none: None
      obtain b where b: "r = gm_set (cfg_ID cfg) b (rt_router s)" "be_Port b = cfg_Port cfg" using SetAddr_ok ra none by blast
      let ?s1 = "s\<lparr>rt_sup := ci_env io su1, rt_router := r\<rparr>"
      let ?s2 = "persist_allocated x io cfg (app_at su1 a) ?s1"
      have s': "s' = note_event (Restored (cfg_ID cfg)) (?s2\<lparr>rt_count := rt_count ?s2 + 1\<rparr>)" using run' none by simp
      have "PersistFailed (cfg_ID cfg) \<notin> set (rt_log ?s2)" using log by (simp add: s')
      from persist_allocated_entry [OF _ root Spawn_identity [OF reg sp [unfolded Inr]] this] entry obtain cfg' where cfg':
        "gm_get (s_apps (rt_store ?s2)) = (gm_get (s_apps (rt_store s)))(cfg_ID cfg \<mapsto> cfg')" "cfg_Port cfg' = cfg_Port cfg"
        "cfg_RunAs cfg' = a_runAs (app_at su1 a)" "cfg_RunAsRoot cfg' = a_runAsRoot (app_at su1 a)" by auto
      have "runs_ok (ci_env io su1) (rt_store ?s2) r"
        by (rule runs_ok_replace [OF reg runs kept(2,3) cfg'(1)]) (use b cfg' kept(4-6) in auto)
      then show ?thesis using kept(1) cfg'(1) by (simp add: s' rt_ok_def persist_allocated_frame)
    qed
  qed
qed

section \<open>Every entry is handled\<close>

text \<open>The entry a terminal event is about; the two events inside a restored entry name none.\<close>

fun entry_of :: "restore_event \<Rightarrow> string option" where
  "entry_of (SkippedID i) = Some i"
| "entry_of (SpawnFailed i _) = Some i"
| "entry_of (RouteFailed i) = Some i"
| "entry_of (Restored i) = Some i"
| "entry_of (PersistFailed _) = None"
| "entry_of (NowDedicated _ _) = None"

definition entries :: "restore_event list \<Rightarrow> string list" where
  "entries evs = List.map_filter entry_of evs"

definition is_Restored :: "restore_event \<Rightarrow> bool" where
  "is_Restored e \<longleftrightarrow> (case e of Restored _ \<Rightarrow> True | _ \<Rightarrow> False)"

lemma entries_simps [simp]:
  "entries (xs @ ys) = entries xs @ entries ys" "entries [] = []"
  "entries (e # es) = (case entry_of e of None \<Rightarrow> entries es | Some i \<Rightarrow> i # entries es)"
  by (simp_all add: entries_def map_filter_def split: option.split)

lemma restore_app_events:
  assumes "restore_app x sio io cfg s = Some s'"
  shows "\<exists>evs. rt_log s' = rt_log s @ evs \<and> entries evs = [cfg_ID cfg] \<and>
    rt_count s' = rt_count s + length (filter is_Restored evs)"
proof -
  obtain evs where ev: "rt_log (persist_allocated x io cfg app s1) = rt_log s1 @ evs app s1"
    "\<forall>e \<in> set (evs app s1). e = PersistFailed (cfg_ID cfg) \<or> (\<exists>ra. e = NowDedicated (cfg_ID cfg) ra)" for app s1
    using persist_allocated_log [of x io cfg] by metis
  have quiet: "entries es = []" "filter is_Restored es = []"
    if "\<forall>e \<in> set es. e = PersistFailed (cfg_ID cfg) \<or> (\<exists>ra. e = NowDedicated (cfg_ID cfg) ra)" for es
    using that by (induction es) (auto simp: is_Restored_def)
  show ?thesis
    using assms quiet [OF ev(2)]
    by (auto simp: restore_app_def Let_def ev(1) persist_allocated_frame is_Restored_def
        split: option.splits sum.splits prod.splits bool.splits)
qed

lemma restore_apps_events:
  "restore_apps x sf cf cfgs s = Some s' \<Longrightarrow>
   \<exists>evs. rt_log s' = rt_log s @ evs \<and> entries evs = map cfg_ID cfgs \<and> rt_count s' = rt_count s + length (filter is_Restored evs)"
proof (induction cfgs arbitrary: s)
  case (Cons cfg cfgs)
  then obtain s1 where s1: "restore_app x (sf (cfg_ID cfg)) (cf (cfg_ID cfg)) cfg s = Some s1" "restore_apps x sf cf cfgs s1 = Some s'"
    by (auto split: option.splits)
  from restore_app_events [OF s1(1)] Cons.IH [OF s1(2)] obtain e1 e2 where
    "rt_log s1 = rt_log s @ e1" "entries e1 = [cfg_ID cfg]" "rt_count s1 = rt_count s + length (filter is_Restored e1)"
    "rt_log s' = rt_log s1 @ e2" "entries e2 = map cfg_ID cfgs" "rt_count s' = rt_count s1 + length (filter is_Restored e2)" by blast
  then show ?case by (intro exI [of _ "e1 @ e2"]) simp
qed simp

lemma restore_apps_ok:
  assumes "restore_apps x sf cf cfgs s = Some s'" and "rt_ok s" and "distinct (map cfg_ID cfgs)"
    and "\<And>i. quiet (ci_env (cf i)) \<and> quiet (ci_stop_env (cf i)) \<and> ti_kill (ci_stop (cf i))"
    and "\<And>cfg. cfg \<in> set cfgs \<Longrightarrow> gm_get (s_apps (rt_store s)) (cfg_ID cfg) = Some cfg \<and> root_named cfg"
    and "\<And>i. PersistFailed i \<notin> set (rt_log s')"
  shows "rt_ok s'"
  using assms
proof (induction cfgs arbitrary: s)
  case (Cons cfg cfgs)
  then obtain s1 where s1: "restore_app x (sf (cfg_ID cfg)) (cf (cfg_ID cfg)) cfg s = Some s1" "restore_apps x sf cf cfgs s1 = Some s'"
    by (auto split: option.splits)
  obtain evs where "rt_log s' = rt_log s1 @ evs" using restore_apps_events [OF s1(2)] by blast
  then have log: "PersistFailed (cfg_ID cfg) \<notin> set (rt_log s1)" using Cons.prems(6) by auto
  have q: "quiet (ci_env (cf (cfg_ID cfg)))" "quiet (ci_stop_env (cf (cfg_ID cfg)))" "ti_kill (ci_stop (cf (cfg_ID cfg)))"
    and e: "gm_get (s_apps (rt_store s)) (cfg_ID cfg) = Some cfg" "root_named cfg" using Cons.prems(4,5) by auto
  note ok = restore_app_ok [OF Cons.prems(2) q e s1(1) log]
  show ?case
  proof (rule Cons.IH [OF s1(2)])
    fix c assume "c \<in> set cfgs"
    moreover from this have "cfg_ID c \<noteq> cfg_ID cfg" using Cons.prems(3) by (simp add: image_iff) metis
    ultimately show "gm_get (s_apps (rt_store s1)) (cfg_ID c) = Some c \<and> root_named c" using ok Cons.prems(5) by auto
  qed (use ok Cons.prems in auto)
qed simp

lemma Apps_entries:
  assumes "apps_ok (s_apps st)"
  shows "map cfg_ID (Apps st) = sortStrings (gm_keys (s_apps st))" and "distinct (map cfg_ID (Apps st))"
    and "cfg \<in> set (Apps st) \<Longrightarrow> gm_get (s_apps st) (cfg_ID cfg) = Some cfg"
proof -
  have key: "cfg_ID (the (gm_get (s_apps st) i)) = i" "gm_get (s_apps st) i \<noteq> None" if "i \<in> set (gm_keys (s_apps st))" for i
    using apps_ok_key [OF assms, of i] gm_key_Some [of i "s_apps st"] that by auto
  show m: "map cfg_ID (Apps st) = sortStrings (gm_keys (s_apps st))" unfolding Apps_def map_map comp_def
    by (rule map_idI) (use key(1) in simp)
  show "distinct (map cfg_ID (Apps st))" unfolding m using assms by (simp add: apps_ok_def gm_ok_def)
  show "gm_get (s_apps st) (cfg_ID cfg) = Some cfg" if cfg: "cfg \<in> set (Apps st)"
  proof -
    obtain i where i: "i \<in> set (gm_keys (s_apps st))" "cfg = the (gm_get (s_apps st) i)" using cfg by (auto simp: Apps_def)
    then show ?thesis using key [OF i(1)] by simp
  qed
qed

section \<open>Properties\<close>

lemma restoreFromState_ok:
  assumes "restoreFromState x io su router st = (vols, Some rt)" and "apps_ok (s_apps st)"
    and "sp_apps su = []" and "reg_ok su" and "restore_io_ok io" and "list_all root_named (Apps st)"
    and "\<And>i. PersistFailed i \<notin> set (rt_log rt)"
  shows "rt_ok rt"
proof -
  obtain uid where run: "restore_apps x (re_spawn io) (re_call io) (Apps st)
      \<lparr>rt_sup = su\<lparr>sp_uid := uid\<rparr>, rt_router = router, rt_store = st, rt_count = 0, rt_log = []\<rparr> = Some rt"
    using assms(1) by (auto simp: restoreFromState_def Let_def)
  have "rt_ok \<lparr>rt_sup = su\<lparr>sp_uid := uid\<rparr>, rt_router = router, rt_store = st, rt_count = 0, rt_log = []\<rparr>"
    using assms(3,4) by (simp add: rt_ok_def runs_ok_def reg_ok_def pool_inv_def)
  then show ?thesis
    by (rule restore_apps_ok [OF run _ Apps_entries(2) [OF assms(2)] _ _ assms(7)])
      (use assms(5,6) Apps_entries(3) [OF assms(2)] in \<open>auto simp: restore_io_ok_def list_all_iff\<close>)
qed

text \<open>A daemon that came up with a state directory: what it was assembled from.\<close>

lemma run_up:
  assumes "run x env io d = Some (Inr (ln, srv, evs))" and "env ''CREEKD_STATE_DIR'' \<noteq> []"
  obtains o2 uid st d1 vols rt where "NewStore (ex_sha x) (ru_boot io) d = (Inr st, d1)"
    "restoreFromState x (ru_restore io) (boot_sup o2 (ru_host io) uid (ru_pool io)) NewRouter st = (vols, Some rt)"
    "sv_sup srv = rt_sup rt" "sv_router srv = Some (rt_router rt)" "sv_store srv = Some (rt_store rt)" "evs = rt_log rt"
    "sv_token srv = env ''CREEKD_ADMIN_TOKEN''"
    "sv_token srv = [] \<Longrightarrow> isLoopback (ru_loopback io) (envOr env ''CREEKD_ADMIN_ADDR'' ''127.0.0.1:9080'')"
proof -
  obtain o1 where o1: "configureSupervisorFromEnv env New_opts = Inr o1" "fst (InitCgroups o1 (ru_cgnew io) (ru_cgparent io) False) = None"
    using assms(1) by (auto simp: run_def split: sum.splits option.splits)
  obtain vols rt where rs: "fst (run_state x (env ''CREEKD_STATE_DIR'') io o1 d) = Inr (vols, Some rt)"
    and ln: "run_listen x env io (rt_sup rt) vols (rt_router rt) (Some (rt_store rt)) = Inr (ln, srv)" and ev: "evs = rt_log rt"
    using assms o1 by (auto simp: run_def split: sum.splits option.splits prod.splits)
  obtain st d1 o2 uid where "NewStore (ex_sha x) (ru_boot io) d = (Inr st, d1)"
    "restoreFromState x (ru_restore io) (boot_sup o2 (ru_host io) uid (ru_pool io)) NewRouter st = (vols, Some rt)"
    using rs by (auto simp: run_state_def Let_def split: sum.splits prod.splits if_splits)
  moreover have "srv = \<lparr>sv_sup = rt_sup rt, sv_volumes = vols, sv_router = Some (rt_router rt), sv_token = env ''CREEKD_ADMIN_TOKEN'',
      sv_store = Some (rt_store rt), sv_audit = sv_audit srv, sv_hostkey = sv_hostkey srv, sv_conditions = newConditionTracker\<rparr>"
    and "env ''CREEKD_ADMIN_TOKEN'' = [] \<Longrightarrow> isLoopback (ru_loopback io) (envOr env ''CREEKD_ADMIN_ADDR'' ''127.0.0.1:9080'')"
    using ln by (auto simp: run_listen_def Let_def split: if_splits sum.splits)
  ultimately show thesis using that ev by (metis Server.select_convs(1,3,4,5))
qed

text \<open>
  C18: A restart of the daemon keeps supervisor, router and store in step. When the daemon comes up from a
  state directory, from whatever state file, journal and interrupted flush it finds there, no persisted
  entry names both root and a user, only goroutines run beside the restore, every SIGKILL of a clean-up
  path is delivered, and the restore logged no failed write of an allocated user, then after any sequence
  of goroutine steps and of spawn, stop, deploy, rollback, restart, reset, get and volume requests that
  are handled one at a time and lost no committed store write, every registered app is dispatched to its
  own port and persisted with that port and the user it runs as. (Spawns take no app lock in the code;
  one that overlaps a stop of the same app is outside this statement.)
\<close>

theorem restarted_daemon_in_step:
  assumes "run x env io d = Some (Inr (ln, srv, evs))" and "env ''CREEKD_STATE_DIR'' \<noteq> []"
    and "restore_io_ok (ru_restore io)" and "\<And>q. ru_pool io = Some q \<Longrightarrow> pool_ok q"
    and "\<And>st d1. NewStore (ex_sha x) (ru_boot io) d = (Inr st, d1) \<Longrightarrow> list_all root_named (Apps st)"
    and "\<And>i. PersistFailed i \<notin> set evs"
    and "(api_step x)\<^sup>*\<^sup>* srv s" and "gm_get (sp_apps (sv_sup s)) i = Some a"
  shows "\<exists>st r cfg b. sv_store s = Some st \<and> sv_router s = Some r \<and> gm_get (s_apps st) i = Some cfg \<and> Get r i = Some b \<and>
    be_Port b = a_Port (app_at (sv_sup s) a) \<and> cfg_Port cfg = a_Port (app_at (sv_sup s) a) \<and>
    cfg_RunAs cfg = a_runAs (app_at (sv_sup s) a) \<and> cfg_RunAsRoot cfg = a_runAsRoot (app_at (sv_sup s) a)"
proof -
  obtain o2 uid st d1 vols rt where up: "NewStore (ex_sha x) (ru_boot io) d = (Inr st, d1)"
    "restoreFromState x (ru_restore io) (boot_sup o2 (ru_host io) uid (ru_pool io)) NewRouter st = (vols, Some rt)"
    "sv_sup srv = rt_sup rt" "sv_router srv = Some (rt_router rt)" "sv_store srv = Some (rt_store rt)" "evs = rt_log rt"
    using run_up [OF assms(1,2)] by metis
  have "rt_ok rt"
    by (rule restoreFromState_ok [OF up(2) NewStore_apps_ok [OF up(1)] _ Sup_System.boot_ok assms(3) assms(5) [OF up(1)]])
      (use assms(4,6) up(6) in \<open>auto simp: boot_sup_def\<close>)
  then have "in_sync srv" using up(3-5) by (auto simp: in_sync_def rt_ok_def)
  from api_run_sync [OF assms(7) this] assms(8) show ?thesis
    unfolding in_sync_def runs_ok_def backed_def Get_def by blast
qed

text \<open>What is used of \<open>url.Parse\<close>: it accepts \<open>http://host:port\<close> for the loopback host and for the text of
  an address.\<close>

definition parses_hosts :: "api_ext \<Rightarrow> bool" where
  "parses_hosts x \<longleftrightarrow> (\<forall>port. 0 < port \<and> port \<le> 65535 \<longrightarrow>
     ex_url_ok x (''http://'' @ DefaultHost @ '':'' @ FormatInt port) \<and>
     (\<forall>p. ex_url_ok x (''http://'' @ ex_ip_str x p @ '':'' @ FormatInt port)))"

lemma SetAddr_total:
  assumes "parses_hosts x" and "i \<noteq> []" and "0 < port" and "port \<le> 65535"
  shows "fst (SetAddr (ex_url_ok x) i (net_host x app) port r) = None"
  using assms by (auto simp: SetAddr_def newBackend_def net_host_def Let_def parses_hosts_def split: option.split)

lemma restore_app_returns:
  assumes "parses_hosts x" and "0 < cfg_Port cfg \<and> cfg_Port cfg \<le> 65535"
  shows "\<exists>s'. restore_app x sio io cfg s = Some s'"
proof (cases "ValidateID (cfg_ID cfg)")
  case None
  then have i: "cfg_ID cfg \<noteq> []" by (auto simp: ValidateID_def)
  obtain res su1 where sp: "Spawn sio cfg (rt_sup s) = (res, su1)" by (metis surj_pair)
  have "fst (SetAddr (ex_url_ok x) (cfg_ID cfg) (net_host x app) (cfg_Port cfg) r) = None" for app r
    using SetAddr_total [OF assms(1) i] assms(2) by simp
  then show ?thesis using None sp by (cases res) (auto simp: restore_app_def Let_def split: prod.split option.split, (metis fst_conv option.distinct(1))+)
qed (simp add: restore_app_def)

lemma restore_apps_returns:
  assumes "parses_hosts x" and "\<forall>cfg \<in> set cfgs. 0 < cfg_Port cfg \<and> cfg_Port cfg \<le> 65535"
  shows "\<exists>s'. restore_apps x sf cf cfgs s = Some s'"
  using assms(2)
proof (induction cfgs arbitrary: s)
  case (Cons cfg cfgs)
  obtain s1 where "restore_app x (sf (cfg_ID cfg)) (cf (cfg_ID cfg)) cfg s = Some s1"
    using restore_app_returns [OF assms(1)] Cons.prems by (metis list.set_intros(1))
  then show ?case using Cons by simp
qed simp

text \<open>
  C19: One broken entry does not block the rest. When the ports of the persisted apps are between 1 and 65535
  and \<open>url.Parse\<close> accepts \<open>http://host:port\<close> for the loopback host and for app addresses, the restore
  returns whatever the spawns and writes do; it handles every persisted app exactly once, in the order of
  the ids, and the count it reports is the number of entries that came back.
\<close>

theorem restore_handles_all:
  assumes "apps_ok (s_apps st)" and "\<forall>cfg \<in> set (Apps st). 0 < cfg_Port cfg \<and> cfg_Port cfg \<le> 65535"
    and "parses_hosts x"
  shows "\<exists>vols rt. restoreFromState x io su router st = (vols, Some rt) \<and>
    entries (rt_log rt) = sortStrings (gm_keys (s_apps st)) \<and> rt_count rt = length (filter is_Restored (rt_log rt))"
proof -
  obtain uid where uid: "uid = snd (SyncUIDHighWater (sp_opts su) (re_sync io) (fold (ObserveRunAs (sp_opts su)) (Apps st) (sp_uid su)))"
    by blast
  let ?s0 = "\<lparr>rt_sup = su\<lparr>sp_uid := uid\<rparr>, rt_router = router, rt_store = st, rt_count = 0, rt_log = []\<rparr>"
  obtain rt where rt: "restore_apps x (re_spawn io) (re_call io) (Apps st) ?s0 = Some rt"
    using restore_apps_returns [OF assms(3,2)] by blast
  then show ?thesis using restore_apps_events [OF rt] Apps_entries(1) [OF assms(1)] uid by (auto simp: restoreFromState_def Let_def)
qed

section \<open>A concrete boot\<close>

definition demo_env :: "string \<Rightarrow> string" where
  "demo_env k = (if k = ''CREEKD_STATE_DIR'' then ''/s'' else [])"

definition demo_disk :: disk where
  "demo_disk = empty_disk\<lparr>d_state := Some (JSON \<lparr>st_Version = FormatVersion, st_Volumes = [],
     st_Apps = [\<lparr>pa_Config = demo_cfg, pa_Metadata = web_meta, pa_Releases = []\<rparr>]\<rparr>)\<rparr>"

definition demo_store :: Store where
  "demo_store = \<lparr>s_apps = [(''web'', demo_cfg)], s_metadata = [(''web'', web_meta)], s_releases = [], s_volumes = [], s_disk = demo_disk\<rparr>"

definition demo_restore_io :: restore_io where
  "demo_restore_io = \<lparr>re_open = \<lambda>_. demo_open, re_sync = sio_persist demo_spawn_io, re_spawn = \<lambda>_. demo_spawn_io, re_call = \<lambda>_. demo_call\<rparr>"

definition demo_run :: run_io where
  "demo_run = \<lparr>ru_host = plain_host, ru_pool = None, ru_cgnew = True, ru_cgparent = True, ru_boot = ok_boot, ru_uidfile = None,
     ru_restore = demo_restore_io, ru_dispatch = True, ru_loopback = \<lambda>h. Some (h = ''127.0.0.1''), ru_audit = False,
     ru_auditfs = \<lparr>fs_cur = None, fs_rot = [], fs_cursor = None\<rparr>, ru_hostkey = None, ru_listen = True, ru_chmod = True\<rparr>"

lemma demo_boot: "NewStore sha ok_boot demo_disk = (Inr demo_store, demo_disk)"
  by (simp add: NewStore_def load_def loadV2OrV3_def replayWAL_def scanOrphanPending_def ok_boot_def demo_disk_def demo_store_def
      empty_Store_def empty_disk_def demo_cfg_def web_meta_def FormatVersion_def Let_def)

lemma demo_Apps: "Apps demo_store = [demo_cfg]" "Volumes demo_store = []"
  by (simp_all add: Apps_def Volumes_def demo_store_def sortStrings_def insertion_sort_eq_sort)

lemma demo_configure: "configureSupervisorFromEnv demo_env New_opts = Inr New_opts"
  by (simp add: configureSupervisorFromEnv_def knob_def demo_env_def)

definition demo_booted :: Supervisor where
  "demo_booted = boot_sup (New_opts\<lparr>UIDStatePath := Join ''/s'' ''app-uid-hwm''\<rparr>) plain_host \<lparr>uidHWM = 0, uidFile = None\<rparr> None"

lemma demo_restore_spawn: "\<exists>su. Spawn demo_spawn_io demo_cfg (demo_booted\<lparr>sp_uid := u\<rparr>) = (Inr 0, su) \<and> a_runAs (app_at su 0) = None \<and>
    gm_get (sp_apps su) ''web'' = Some 0 \<and> a_NetIP (app_at su 0) = None"
  by (simp add: demo_booted_def spawn_eval applyDefaultSandbox_def canApplyDefaultSandbox_def plain_host_def)

lemma demo_restored:
  "\<exists>rt. restoreFromState demo_ext demo_restore_io demo_booted NewRouter demo_store = ([], Some rt) \<and>
     rt_log rt = [Restored ''web''] \<and> gm_get (sp_apps (rt_sup rt)) ''web'' = Some 0"
proof -
  let ?u = "snd (SyncUIDHighWater (sp_opts demo_booted) (re_sync demo_restore_io) (fold (ObserveRunAs (sp_opts demo_booted)) (Apps demo_store) (sp_uid demo_booted)))"
  obtain su where su: "Spawn demo_spawn_io demo_cfg (demo_booted\<lparr>sp_uid := ?u\<rparr>) = (Inr 0, su)" "a_runAs (app_at su 0) = None"
    "gm_get (sp_apps su) ''web'' = Some 0" "a_NetIP (app_at su 0) = None" using demo_restore_spawn by blast
  let ?s0 = "\<lparr>rt_sup = demo_booted\<lparr>sp_uid := ?u\<rparr>, rt_router = NewRouter, rt_store = demo_store, rt_count = 0, rt_log = []\<rparr>"
  have "\<exists>rt. restore_app demo_ext demo_spawn_io demo_call demo_cfg ?s0 = Some rt \<and> rt_log rt = [Restored ''web''] \<and>
      gm_get (sp_apps (rt_sup rt)) ''web'' = Some 0"
    using su by (simp add: restore_app_def ValidateID_def demo_cfg_def SetAddr_def newBackend_def demo_ext_def persist_allocated_def
        demo_call_def net_host_def Let_def)
  then show ?thesis by (auto simp: restoreFromState_def Let_def demo_Apps demo_restore_io_def)
qed

lemma demo_up:
  "\<exists>ln srv. run demo_ext demo_env demo_run demo_disk = Some (Inr (ln, srv, [Restored ''web''])) \<and> gm_get (sp_apps (sv_sup srv)) ''web'' = Some 0"
proof -
  obtain rt where rt: "restoreFromState demo_ext demo_restore_io demo_booted NewRouter demo_store = ([], Some rt)"
    "rt_log rt = [Restored ''web'']" "gm_get (sp_apps (rt_sup rt)) ''web'' = Some 0" using demo_restored by blast
  have "LoadUIDHighWater o' \<lparr>uidHWM = 0, uidFile = None\<rparr> = (True, \<lparr>uidHWM = 0, uidFile = None\<rparr>)" for o'
    by (simp add: LoadUIDHighWater_def)
  then have st: "fst (run_state demo_ext ''/s'' demo_run New_opts demo_disk) = Inr ([], Some rt)"
    using rt(1) by (simp add: run_state_def demo_run_def demo_boot Let_def demo_booted_def)
  have lo: "isLoopback (ru_loopback demo_run) ''127.0.0.1:9080''"
    by (simp add: isLoopback_def SplitHostPort_def demo_run_def HasPrefix_def)
  have env: "demo_env ''CREEKD_STATE_DIR'' = ''/s''" "envOr demo_env ''CREEKD_ADMIN_ADDR'' d = d" "envOr demo_env ''CREEKD_DISPATCH_ADDR'' d = d"
    "demo_env ''CREEKD_ADMIN_TOKEN'' = []" for d
    by (simp_all add: demo_env_def envOr_def)
  have cg: "fst (InitCgroups New_opts (ru_cgnew demo_run) (ru_cgparent demo_run) False) = None" by (simp add: InitCgroups_def New_opts_def)
  have ln: "\<exists>ln srv. run_listen demo_ext demo_env demo_run (rt_sup rt) [] (rt_router rt) (Some (rt_store rt)) = Inr (ln, srv) \<and> sv_sup srv = rt_sup rt"
    using lo by (simp add: run_listen_def env Let_def listenAdminAddr_def HasPrefix_def) (simp add: demo_run_def)
  then show ?thesis
    using rt(2,3) unfolding run_def demo_configure sum.case cg option.case env(1) st by auto
qed

lemma demo_restore_io_ok: "restore_io_ok demo_restore_io"
  by (simp add: restore_io_ok_def demo_restore_io_def demo_call_def quiet_id)

theorem restarted_daemon_in_step_witness:
  "\<exists>ln srv st cfg. run demo_ext demo_env demo_run demo_disk = Some (Inr (ln, srv, [Restored ''web''])) \<and>
     sv_store srv = Some st \<and> gm_get (s_apps st) ''web'' = Some cfg \<and> cfg_Port cfg = a_Port (app_at (sv_sup srv) 0)"
proof -
  obtain ln srv where up: "run demo_ext demo_env demo_run demo_disk = Some (Inr (ln, srv, [Restored ''web'']))"
    "gm_get (sp_apps (sv_sup srv)) ''web'' = Some 0" using demo_up by blast
  have dir: "demo_env ''CREEKD_STATE_DIR'' \<noteq> []" by (simp add: demo_env_def)
  have io: "restore_io_ok (ru_restore demo_run)" "ru_boot demo_run = ok_boot" "ru_pool demo_run = None"
    using demo_restore_io_ok by (simp_all add: demo_run_def)
  have root: "list_all root_named (Apps st)" if "NewStore (ex_sha demo_ext) (ru_boot demo_run) demo_disk = (Inr st, d1)" for st d1
    using that by (auto simp: io(2) demo_boot demo_Apps root_named_def demo_cfg_def zero_Config_def)
  have pool: "pool_ok q" if "ru_pool demo_run = Some q" for q using that io(3) by simp
  have log: "PersistFailed j \<notin> set [Restored ''web'']" for j by simp
  have "\<exists>st r cfg b. sv_store srv = Some st \<and> sv_router srv = Some r \<and> gm_get (s_apps st) ''web'' = Some cfg \<and> Get r ''web'' = Some b \<and>
      be_Port b = a_Port (app_at (sv_sup srv) 0) \<and> cfg_Port cfg = a_Port (app_at (sv_sup srv) 0) \<and>
      cfg_RunAs cfg = a_runAs (app_at (sv_sup srv) 0) \<and> cfg_RunAsRoot cfg = a_runAsRoot (app_at (sv_sup srv) 0)"
    by (rule restarted_daemon_in_step [OF up(1) dir io(1) _ _ log rtranclp.rtrancl_refl up(2)]) (use pool root in auto)
  then show ?thesis using up(1) by blast
qed

theorem restore_handles_all_witness:
  "\<exists>vols rt. restoreFromState demo_ext demo_restore_io demo_booted NewRouter demo_store = (vols, Some rt) \<and>
     entries (rt_log rt) = [''web'']"
proof -
  have "apps_ok (s_apps demo_store)" using NewStore_apps_ok [OF demo_boot] .
  moreover have "\<forall>cfg \<in> set (Apps demo_store). 0 < cfg_Port cfg \<and> cfg_Port cfg \<le> 65535" by (simp add: demo_Apps demo_cfg_def)
  moreover have "parses_hosts demo_ext" by (simp add: parses_hosts_def demo_ext_def)
  moreover have "sortStrings (gm_keys (s_apps demo_store)) = [''web'']" by (simp add: demo_store_def sortStrings_def insertion_sort_eq_sort)
  ultimately show ?thesis using restore_handles_all [of demo_store demo_ext] by metis
qed

end
