(* ===== verification/Host_Upgrade.thy ===== *)
theory Host_Upgrade
  imports Go_Strings "HOL-Library.Word"
begin

text \<open>
  Self-upgrade (internal/upgrade): the replacement of a binary by a temporary file and a rename, the copy
  fallback, and the verification of a release by its signed checksum list. The directory of the
  destination is a state; each function returns its error and the sequence of states its system
  calls go through, so that a crash between two calls is a prefix of it. cosign is a process whose
  outcome is an input; \<open>sha\<close> stands for the hexadecimal SHA-256.
\<close>

unbundle bit_operations_syntax

section \<open>SwapBinary\<close>

text \<open>File modes are written in hexadecimal: \<open>0x49\<close> is \<open>0o111\<close>, \<open>0x1ED\<close> is \<open>0o755\<close>, \<open>0x180\<close> is \<open>0o600\<close>.\<close>

type_synonym filemode = "32 word"

datatype fkind = Regular | Symlink

record binfile =
  fi_data :: string
  fi_mode :: filemode
  fi_kind :: fkind

record bindir =
  bd_dst :: "binfile option"
  bd_tmp :: "binfile option"

datatype copy_io = CopyOk | CopyCut string

record swap_io =
  sw_stat :: bool
  sw_open :: bool
  sw_create :: bool
  sw_copy :: copy_io
  sw_chmod :: bool
  sw_sync :: bool
  sw_close :: bool
  sw_rename :: bool
  sw_remove :: bool

datatype swap_error = SwStat | SwSymlink | SwOpen | SwCreate | SwCopy | SwChmod | SwSync | SwClose | SwRename

definition swap_mode :: "filemode \<Rightarrow> filemode" where
  "swap_mode perm = (let mode = perm OR 0x49 in if mode > 0x1ED then 0x1ED else mode)"

text \<open>The deferred removal of the temporary file on every error after its creation.\<close>

definition swap_fail :: "swap_io \<Rightarrow> swap_error \<Rightarrow> bindir list \<Rightarrow> swap_error option \<times> bindir list" where
  "swap_fail io e h = (Some e, h @ [if sw_remove io then (last h)\<lparr>bd_tmp := None\<rparr> else last h])"

definition copied :: "copy_io \<Rightarrow> string \<Rightarrow> bool \<times> string" where
  "copied c data = (case c of CopyOk \<Rightarrow> (True, data) | CopyCut part \<Rightarrow> (False, part))"

definition SwapBinary :: "swap_io \<Rightarrow> binfile \<Rightarrow> bindir \<Rightarrow> swap_error option \<times> bindir list" where
  "SwapBinary io src d0 =
     (if \<not> sw_stat io then (Some SwStat, [d0])
      else
        let mode = swap_mode (fi_mode src) in
        if (case bd_dst d0 of None \<Rightarrow> False | Some f \<Rightarrow> fi_kind f = Symlink) then (Some SwSymlink, [d0])
        else if \<not> sw_open io then (Some SwOpen, [d0])
        else if \<not> sw_create io then (Some SwCreate, [d0])
        else
          let d1 = d0\<lparr>bd_tmp := Some \<lparr>fi_data = [], fi_mode = 0x180, fi_kind = Regular\<rparr>\<rparr>;
              (okc, body) = copied (sw_copy io) (fi_data src);
              d2 = d0\<lparr>bd_tmp := Some \<lparr>fi_data = body, fi_mode = 0x180, fi_kind = Regular\<rparr>\<rparr>
          in
          if \<not> okc then swap_fail io SwCopy [d0, d1, d2]
          else if \<not> sw_chmod io then swap_fail io SwChmod [d0, d1, d2]
          else
            let d3 = d0\<lparr>bd_tmp := Some \<lparr>fi_data = body, fi_mode = mode, fi_kind = Regular\<rparr>\<rparr> in
            if \<not> sw_sync io then swap_fail io SwSync [d0, d1, d2, d3]
            else if \<not> sw_close io then swap_fail io SwClose [d0, d1, d2, d3]
            else if \<not> sw_rename io then swap_fail io SwRename [d0, d1, d2, d3]
            else (None, [d0, d1, d2, d3, d3\<lparr>bd_dst := bd_tmp d3, bd_tmp := None\<rparr>]))"

section \<open>CopyFile\<close>

definition CopyFile :: "bool \<Rightarrow> swap_io \<Rightarrow> binfile \<Rightarrow> bindir \<Rightarrow> swap_error option \<times> bindir list" where
  "CopyFile link_ok io src d0 =
     (if link_ok \<and> bd_dst d0 = None then (None, [d0, d0\<lparr>bd_dst := Some src\<rparr>])
      else if \<not> sw_stat io then (Some SwStat, [d0])
      else if \<not> sw_open io then (Some SwOpen, [d0])
      else if \<not> sw_create io then (Some SwCreate, [d0])
      else
        let d1 = d0\<lparr>bd_tmp := Some \<lparr>fi_data = [], fi_mode = 0x180, fi_kind = Regular\<rparr>\<rparr>;
            (okc, body) = copied (sw_copy io) (fi_data src);
            d2 = d0\<lparr>bd_tmp := Some \<lparr>fi_data = body, fi_mode = 0x180, fi_kind = Regular\<rparr>\<rparr>
        in
        if \<not> okc then swap_fail io SwCopy [d0, d1, d2]
        else if \<not> sw_chmod io then swap_fail io SwChmod [d0, d1, d2]
        else
          let d3 = d0\<lparr>bd_tmp := Some \<lparr>fi_data = body, fi_mode = fi_mode src, fi_kind = Regular\<rparr>\<rparr> in
          if \<not> sw_close io then swap_fail io SwClose [d0, d1, d2, d3]
          else if \<not> sw_rename io then swap_fail io SwRename [d0, d1, d2, d3]
          else (None, [d0, d1, d2, d3, d3\<lparr>bd_dst := bd_tmp d3, bd_tmp := None\<rparr>]))"

section \<open>Verify\<close>

record Verifier =
  vf_CosignPath :: string
  vf_IdentityRegex :: string
  vf_OIDCIssuer :: string

definition DefaultIdentityRegex :: string where
  "DefaultIdentityRegex = ''^https://github'' @ [CHR 0x5C] @ ''.com/solcreek/creekd/'' @ [CHR 0x5C] @ ''.github/workflows/release'' @
     [CHR 0x5C] @ ''.yml@refs/tags/v.*$''"

definition DefaultOIDCIssuer :: string where
  "DefaultOIDCIssuer = ''https://token.actions.githubusercontent.com''"

definition New_verifier :: Verifier where
  "New_verifier = \<lparr>vf_CosignPath = ''cosign'', vf_IdentityRegex = DefaultIdentityRegex, vf_OIDCIssuer = DefaultOIDCIssuer\<rparr>"

text \<open>What a run of cosign ends in: exit code zero, the deadline, a cancelled context, a normal
  non-zero exit, or a failure to run or a signal.\<close>

datatype cosign_run = CosignOk | CosignDeadline | CosignCancelled | CosignExit string | CosignOther

datatype verify_error =
    SignatureInvalid | CosignUnavailable | ChecksumsOpen | ChecksumsScan | ChecksumsNoEntry string | TarballHash

text \<open>The argument vector of the call and what its outcome means.\<close>

definition cosign_args :: "Verifier \<Rightarrow> string \<Rightarrow> string \<Rightarrow> string \<Rightarrow> string list" where
  "cosign_args v sigPath certPath checksumsPath =
     [if vf_CosignPath v = [] then ''cosign'' else vf_CosignPath v, ''verify-blob'',
      ''--certificate-identity-regexp'', if vf_IdentityRegex v = [] then DefaultIdentityRegex else vf_IdentityRegex v,
      ''--certificate-oidc-issuer'', if vf_OIDCIssuer v = [] then DefaultOIDCIssuer else vf_OIDCIssuer v,
      ''--certificate'', certPath, ''--signature'', sigPath, checksumsPath]"

definition verifyCosign ::
  "(string list \<Rightarrow> cosign_run) \<Rightarrow> Verifier \<Rightarrow> string \<Rightarrow> string \<Rightarrow> string \<Rightarrow> verify_error option"
where
  "verifyCosign exec v sigPath certPath checksumsPath =
     (case exec (cosign_args v sigPath certPath checksumsPath) of
        CosignOk \<Rightarrow> None
      | CosignDeadline \<Rightarrow> Some CosignUnavailable
      | CosignCancelled \<Rightarrow> Some CosignUnavailable
      | CosignExit _ \<Rightarrow> Some SignatureInvalid
      | CosignOther \<Rightarrow> Some CosignUnavailable)"

fun lookup_lines :: "string list \<Rightarrow> string \<Rightarrow> string option" where
  "lookup_lines [] name = None"
| "lookup_lines (line # ls) name =
     (case Fields line of
        [h, f] \<Rightarrow> if Base f = name then Some h else lookup_lines ls name
      | _ \<Rightarrow> lookup_lines ls name)"

text \<open>The list file: \<open>None\<close> when it cannot be opened; the flag is the scanner's error after the lines.\<close>

definition lookupChecksum :: "(string list \<times> bool) option \<Rightarrow> string \<Rightarrow> verify_error + string" where
  "lookupChecksum f name =
     (case f of
        None \<Rightarrow> Inl ChecksumsOpen
      | Some (ls, scan_ok) \<Rightarrow>
          (case lookup_lines ls name of
             Some h \<Rightarrow> Inr h
           | None \<Rightarrow> if \<not> scan_ok then Inl ChecksumsScan else Inl (ChecksumsNoEntry name)))"

definition verifyChecksum :: "(string \<Rightarrow> string) \<Rightarrow> string option \<Rightarrow> string \<Rightarrow> (string list \<times> bool) option \<Rightarrow> verify_error option" where
  "verifyChecksum sha tarball tarballName f =
     (case lookupChecksum f tarballName of
        Inl e \<Rightarrow> Some e
      | Inr want \<Rightarrow>
          (case tarball of
             None \<Rightarrow> Some TarballHash
           | Some data \<Rightarrow> if want \<noteq> sha data then Some SignatureInvalid else None))"

definition Verify ::
  "(string \<Rightarrow> string) \<Rightarrow> (string list \<Rightarrow> cosign_run) \<Rightarrow> Verifier \<Rightarrow> string option \<Rightarrow> string \<Rightarrow> string \<Rightarrow> string \<Rightarrow> string \<Rightarrow>
     (string list \<times> bool) option \<Rightarrow> verify_error option"
where
  "Verify sha exec v tarball tarballName sigPath certPath checksumsPath f =
     (case verifyCosign exec v sigPath certPath checksumsPath of
        Some e \<Rightarrow> Some e
      | None \<Rightarrow> verifyChecksum sha tarball tarballName f)"

section \<open>Lemmas\<close>

lemma swap_mode_exec: "swap_mode m AND 0x49 = 0x49"
  by (auto simp: swap_mode_def Let_def intro!: bit_word_eqI simp: bit_and_iff bit_or_iff)

lemma copied_ok: "copied c data = (True, body) \<Longrightarrow> body = data"
  by (auto simp: copied_def split: copy_io.splits)

lemma SwapBinary_final:
  assumes "SwapBinary io src d0 = (e, h)"
  shows "if e = None then bd_dst (last h) = Some \<lparr>fi_data = fi_data src, fi_mode = swap_mode (fi_mode src), fi_kind = Regular\<rparr> \<and> bd_tmp (last h) = None
    else bd_dst (last h) = bd_dst d0"
proof -
  obtain okc body where c: "copied (sw_copy io) (fi_data src) = (okc, body)" by (metis surj_pair)
  have body: "okc \<Longrightarrow> body = fi_data src" using copied_ok c by auto
  show ?thesis using assms [unfolded SwapBinary_def Let_def c prod.case swap_fail_def] body by (auto split: if_splits option.splits)
qed

lemma CopyFile_final:
  assumes "CopyFile link_ok io src d0 = (None, h)"
  shows "map_option fi_data (bd_dst (last h)) = Some (fi_data src)"
proof -
  obtain okc body where c: "copied (sw_copy io) (fi_data src) = (okc, body)" by (metis surj_pair)
  have body: "okc \<Longrightarrow> body = fi_data src" using copied_ok c by auto
  show ?thesis using assms [unfolded CopyFile_def Let_def c prod.case swap_fail_def] body by (auto split: if_splits)
qed

definition swap_healthy :: "swap_io \<Rightarrow> bool" where
  "swap_healthy io \<longleftrightarrow> sw_stat io \<and> sw_open io \<and> sw_create io \<and> sw_copy io = CopyOk \<and> sw_chmod io \<and> sw_sync io \<and> sw_close io \<and> sw_rename io"

lemma SwapBinary_healthy:
  assumes "swap_healthy io" and "bd_dst d0 = Some f" and "fi_kind f = Regular"
  shows "fst (SwapBinary io src d0) = None"
  using assms by (simp add: SwapBinary_def swap_healthy_def copied_def Let_def)

lemma lookup_lines_entry:
  "lookup_lines ls name = Some h \<Longrightarrow> \<exists>line f. line \<in> set ls \<and> Fields line = [h, f] \<and> Base f = name"
proof (induction ls)
  case (Cons line ls)
  show ?case
  proof (cases "\<exists>f. Fields line = [h, f] \<and> Base f = name")
    case False
    with Cons.prems have "lookup_lines ls name = Some h" by (auto split: list.splits if_splits)
    with Cons.IH show ?thesis by auto
  qed auto
qed simp

text \<open>An accepted release was signed as the pinned pipeline and hashes to its entry in the signed list.\<close>

lemma Verify_accepts:
  assumes "Verify sha exec v tarball name sig cert sums f = None"
  shows "exec (cosign_args v sig cert sums) = CosignOk \<and>
    (\<exists>ls ok line g data. f = Some (ls, ok) \<and> line \<in> set ls \<and> tarball = Some data \<and> Fields line = [sha data, g] \<and> Base g = name)"
  using assms lookup_lines_entry
  by (fastforce simp: Verify_def verifyCosign_def verifyChecksum_def lookupChecksum_def
      split: cosign_run.splits option.splits sum.splits if_splits)

text \<open>The mode is not capped by \<open>rwxr-xr-x\<close>: the comparison is numeric, so write bits of group and others survive (\<open>0o622\<close> becomes \<open>0o733\<close>).\<close>

lemma swap_mode_writable: "swap_mode 0x192 = 0x1DB"
  by (simp add: swap_mode_def Let_def)

section \<open>Properties\<close>

text \<open>
  C38: A swap is all or nothing. Whatever fails and wherever the process is killed, the destination holds
  either the old file, untouched, or the complete new one with an executable mode; the new one is
  there exactly when no error is returned, and then no temporary file is left.
\<close>

theorem swap_all_or_nothing:
  assumes "SwapBinary io src d0 = (e, h)"
  shows "(\<forall>d \<in> set h. bd_dst d = bd_dst d0 \<or>
      (\<exists>f. bd_dst d = Some f \<and> fi_data f = fi_data src \<and> fi_mode f AND 0x49 = 0x49 \<and> fi_kind f = Regular)) \<and>
    (if e = None then bd_tmp (last h) = None \<and> map_option fi_data (bd_dst (last h)) = Some (fi_data src)
     else bd_dst (last h) = bd_dst d0)"
proof -
  obtain okc body where c: "copied (sw_copy io) (fi_data src) = (okc, body)" by (metis surj_pair)
  have body: "okc \<Longrightarrow> body = fi_data src" using copied_ok c by auto
  have mode: "swap_mode (fi_mode src) AND 0x49 = 0x49" by (rule swap_mode_exec)
  show ?thesis
    using assms [unfolded SwapBinary_def Let_def c prod.case swap_fail_def] body mode by (auto split: if_splits option.splits)
qed

definition demo_binary :: binfile where
  "demo_binary = \<lparr>fi_data = ''new'', fi_mode = 0x1A4, fi_kind = Regular\<rparr>"

theorem swap_all_or_nothing_witness:
  "\<exists>h. SwapBinary \<lparr>sw_stat = True, sw_open = True, sw_create = True, sw_copy = CopyCut ''n'', sw_chmod = True, sw_sync = True,
       sw_close = True, sw_rename = True, sw_remove = True\<rparr> demo_binary \<lparr>bd_dst = Some (demo_binary\<lparr>fi_data := ''old''\<rparr>), bd_tmp = None\<rparr>
     = (Some SwCopy, h) \<and> map_option fi_data (bd_dst (last h)) = Some ''old''"
proof -
  let ?io = "\<lparr>sw_stat = True, sw_open = True, sw_create = True, sw_copy = CopyCut ''n'', sw_chmod = True, sw_sync = True,
       sw_close = True, sw_rename = True, sw_remove = True\<rparr>"
  let ?d = "\<lparr>bd_dst = Some (demo_binary\<lparr>fi_data := ''old''\<rparr>), bd_tmp = None\<rparr>"
  obtain h where h: "SwapBinary ?io demo_binary ?d = (Some SwCopy, h)"
    by (simp add: SwapBinary_def copied_def swap_fail_def demo_binary_def)
  show ?thesis using swap_all_or_nothing [OF h] h by simp
qed

end
