(* ===== verification/Ctl_Manifest.thy ===== *)
theory Ctl_Manifest
  imports Sup_Volumes Admin_Convert
begin

text \<open>
  The deployment manifest (api/manifest/manifest.go), its use by creekctl (cmd/creekctl/manifest.go), and the
  project file creek.toml (internal/creektoml). The JSON and TOML decoders are inputs: the strict decoder
  yields a manifest, an error, or a manifest followed by something else.
\<close>

section \<open>The manifest\<close>

record AdapterMetadata =
  am_Name :: string
  am_Version :: string

record Manifest =
  mf_Version :: int
  mf_Framework :: string
  mf_Target :: string
  mf_BuildID :: string
  mf_NextVersion :: string
  mf_Runtime :: string
  mf_Entrypoint :: string
  mf_Port :: int
  mf_Env :: "string list"
  mf_HealthCheckPath :: string
  mf_HasMiddleware :: bool
  mf_HasPrerender :: bool
  mf_ServeDirs :: "string list"
  mf_Adapter :: "AdapterMetadata option"

datatype json_rest = RestEOF | RestValue | RestError

datatype manifest_error =
    MfParse | MfTrailingValue | MfTrailing | MfVersion int | MfTarget string | MfRuntime string | MfNoEntrypoint
  | MfAbsolute string | MfEscapes string | MfPort int | MfAdapterName | MfAdapterVersion

abbreviation backslash :: char where "backslash \<equiv> CHR 0x5C"

definition is_letter :: "char \<Rightarrow> bool" where
  "is_letter c \<longleftrightarrow> (let n = of_char c :: nat in 97 \<le> n \<and> n \<le> 122 \<or> 65 \<le> n \<and> n \<le> 90)"

text \<open>The segment walk with its depth counter.\<close>

fun entry_depth :: "string list \<Rightarrow> int \<Rightarrow> bool" where
  "entry_depth [] depth = True"
| "entry_depth (seg # segs) depth =
     (if seg = [] \<or> seg = ''.'' then entry_depth segs depth
      else if seg = ''..'' then if depth - 1 < 0 then False else entry_depth segs (depth - 1)
      else entry_depth segs (depth + 1))"

definition validateEntrypoint :: "string \<Rightarrow> manifest_error option" where
  "validateEntrypoint ep =
     (if HasPrefix ep ''/'' then Some (MfAbsolute ep)
      else if HasPrefix ep [backslash, backslash] \<or> HasPrefix ep ''//'' then Some (MfAbsolute ep)
      else if length ep \<ge> 3 \<and> ep ! 1 = CHR '':'' \<and> (ep ! 2 = sep \<or> ep ! 2 = backslash) \<and> is_letter (ep ! 0)
      then Some (MfAbsolute ep)
      else if \<not> entry_depth (FieldsFunc (\<lambda>c. c = sep \<or> c = backslash) ep) 0 then Some (MfEscapes ep)
      else None)"

definition Decode :: "(Manifest \<times> json_rest) option \<Rightarrow> manifest_error + Manifest" where
  "Decode parsed =
     (case parsed of
        None \<Rightarrow> Inl MfParse
      | Some (m, RestValue) \<Rightarrow> Inl MfTrailingValue
      | Some (m, RestError) \<Rightarrow> Inl MfTrailing
      | Some (m, RestEOF) \<Rightarrow>
          if mf_Version m \<noteq> 1 then Inl (MfVersion (mf_Version m))
          else if mf_Target m \<noteq> ''creekd'' then Inl (MfTarget (mf_Target m))
          else if \<not> runtime_Valid (mf_Runtime m) then Inl (MfRuntime (mf_Runtime m))
          else if mf_Entrypoint m = [] then Inl MfNoEntrypoint
          else case validateEntrypoint (mf_Entrypoint m) of
            Some e \<Rightarrow> Inl e
          | None \<Rightarrow>
              if mf_Port m \<le> 0 \<or> mf_Port m > 65535 then Inl (MfPort (mf_Port m))
              else case mf_Adapter m of
                None \<Rightarrow> Inr m
              | Some a \<Rightarrow>
                  if am_Name a = [] then Inl MfAdapterName
                  else if am_Version a = [] then Inl MfAdapterVersion
                  else Inr m)"

datatype load_error = LoadAbs | LoadRead | LoadDecode manifest_error

definition Load :: "string option \<Rightarrow> bool \<Rightarrow> (Manifest \<times> json_rest) option \<Rightarrow> load_error + Manifest \<times> string" where
  "Load apath read_ok parsed =
     (case apath of
        None \<Rightarrow> Inl LoadAbs
      | Some absPath \<Rightarrow>
          if \<not> read_ok then Inl LoadRead
          else case Decode parsed of
            Inl e \<Rightarrow> Inl (LoadDecode e)
          | Inr m \<Rightarrow> Inr (m, path_Dir (path_Dir absPath)))"

section \<open>creekctl: seeding a request\<close>

text \<open>An optional string that is absent or empty.\<close>

definition unset :: "string option \<Rightarrow> bool" where
  "unset p \<longleftrightarrow> p = None \<or> p = Some []"

definition no_env :: "string list option \<Rightarrow> bool" where
  "no_env p \<longleftrightarrow> p = None \<or> p = Some []"

definition applyManifestTo :: "SpawnRequest \<Rightarrow> Manifest \<Rightarrow> string \<Rightarrow> SpawnRequest" where
  "applyManifestTo req m projectDir =
     (let r1 = (if unset (sr_Runtime req) then req\<lparr>sr_Runtime := Some (mf_Runtime m)\<rparr> else req);
          r2 = (if unset (sr_Entry r1) then r1\<lparr>sr_Entry := Some (Join projectDir (mf_Entrypoint m))\<rparr> else r1);
          r3 = (if sr_Port r2 = 0 then r2\<lparr>sr_Port := mf_Port m\<rparr> else r2);
          r4 = (if no_env (sr_Env r3) \<and> mf_Env m \<noteq> [] then r3\<lparr>sr_Env := Some (mf_Env m)\<rparr> else r3)
      in if unset (sr_HealthCheckPath r4) \<and> mf_HealthCheckPath m \<noteq> []
         then r4\<lparr>sr_HealthCheckPath := Some (mf_HealthCheckPath m)\<rparr> else r4)"

definition applyManifestToDeploy :: "DeployRequest \<Rightarrow> Manifest \<Rightarrow> string \<Rightarrow> DeployRequest" where
  "applyManifestToDeploy req m projectDir =
     (let r1 = (if unset (dr_Runtime req) then req\<lparr>dr_Runtime := Some (mf_Runtime m)\<rparr> else req);
          r2 = (if unset (dr_Entry r1) then r1\<lparr>dr_Entry := Some (Join projectDir (mf_Entrypoint m))\<rparr> else r1);
          r3 = (if dr_Port r2 = 0 then r2\<lparr>dr_Port := mf_Port m\<rparr> else r2);
          r4 = (if no_env (dr_Env r3) \<and> mf_Env m \<noteq> [] then r3\<lparr>dr_Env := Some (mf_Env m)\<rparr> else r3)
      in if unset (dr_HealthCheckPath r4) \<and> mf_HealthCheckPath m \<noteq> []
         then r4\<lparr>dr_HealthCheckPath := Some (mf_HealthCheckPath m)\<rparr> else r4)"

section \<open>creek.toml\<close>

record TomlConfig =
  tc_AppName :: string
  tc_AppRuntime :: string
  tc_DatabaseDriver :: string
  tc_CacheDriver :: string
  tc_StorageDriver :: string
  tc_EmailEnabled :: bool
  tc_ReleaseCommand :: string
  tc_ReleaseTimeout :: int

definition DefaultReleaseTimeout :: int where "DefaultReleaseTimeout = 60"

definition applyDefaults :: "TomlConfig \<Rightarrow> TomlConfig" where
  "applyDefaults c =
     (let c1 = (if tc_AppRuntime c = [] then c\<lparr>tc_AppRuntime := ''bun''\<rparr> else c);
          c2 = (if tc_DatabaseDriver c1 = [] then c1\<lparr>tc_DatabaseDriver := ''sqlite''\<rparr> else c1);
          c3 = (if tc_CacheDriver c2 = [] then c2\<lparr>tc_CacheDriver := ''sqlite''\<rparr> else c2);
          c4 = (if tc_StorageDriver c3 = [] then c3\<lparr>tc_StorageDriver := ''fs''\<rparr> else c3)
      in if tc_ReleaseTimeout c4 = 0 then c4\<lparr>tc_ReleaseTimeout := DefaultReleaseTimeout\<rparr> else c4)"

datatype toml_error = TomlRead | TomlParse | TomlRuntime string | TomlDatabase string | TomlCache string | TomlStorage string

definition toml_Load :: "bool \<Rightarrow> TomlConfig option \<Rightarrow> toml_error + TomlConfig" where
  "toml_Load read_ok parsed =
     (if \<not> read_ok then Inl TomlRead
      else case parsed of None \<Rightarrow> Inl TomlParse | Some cfg \<Rightarrow> Inr (applyDefaults cfg))"

definition toml_Validate :: "TomlConfig \<Rightarrow> toml_error option" where
  "toml_Validate c =
     (if tc_AppRuntime c \<noteq> [] \<and> tc_AppRuntime c \<notin> set [''bun'', ''node'', ''deno''] then Some (TomlRuntime (tc_AppRuntime c))
      else if tc_DatabaseDriver c \<notin> set [''sqlite'', ''postgres'', ''mysql''] then Some (TomlDatabase (tc_DatabaseDriver c))
      else if tc_CacheDriver c \<notin> set [''sqlite'', ''redis''] then Some (TomlCache (tc_CacheDriver c))
      else if tc_StorageDriver c \<notin> set [''fs'', ''s3''] then Some (TomlStorage (tc_StorageDriver c))
      else None)"

definition HasRelease :: "TomlConfig \<Rightarrow> bool" where
  "HasRelease c \<longleftrightarrow> tc_ReleaseCommand c \<noteq> []"

definition RequiredPrimitives :: "TomlConfig \<Rightarrow> string list" where
  "RequiredPrimitives c =
     [''runtime-'' @ tc_AppRuntime c] @
     (if tc_DatabaseDriver c = ''postgres'' then [''postgres'']
      else if tc_DatabaseDriver c = ''mysql'' then [''mysql'']
      else if tc_DatabaseDriver c = ''sqlite'' then [''sqlite''] else []) @
     (if tc_CacheDriver c = ''redis'' then [''redis''] else []) @
     (if tc_StorageDriver c = ''s3'' then [''s3''] else []) @
     (if tc_EmailEnabled c then [''smtp''] else [])"

text \<open>A loaded and valid file names a runtime creekd knows, and at most one primitive of each kind.\<close>

lemma toml_valid:
  assumes "toml_Load r parsed = Inr c" and "toml_Validate c = None"
  shows "runtime_Valid (tc_AppRuntime c) \<and> distinct (RequiredPrimitives c) \<and> tc_ReleaseTimeout c \<noteq> 0"
proof -
  obtain c0 where c: "c = applyDefaults c0" using assms(1) by (auto simp: toml_Load_def split: if_splits option.splits)
  have rt: "tc_AppRuntime c \<noteq> []" "tc_ReleaseTimeout c \<noteq> 0"
    by (simp_all add: c applyDefaults_def Let_def DefaultReleaseTimeout_def)
  then have "tc_AppRuntime c \<in> {''bun'', ''node'', ''deno''}" using assms(2) by (auto simp: toml_Validate_def split: if_splits)
  then show ?thesis using rt by (auto simp: RequiredPrimitives_def runtime_Valid_def)
qed

section \<open>The entrypoint stays in the project\<close>

text \<open>A walk that never goes below the start only ever removes segments it added.\<close>

lemma entry_depth_clean:
  assumes "entry_depth ws (int (length os))" and "''..'' \<notin> set os"
  shows "\<exists>ts. clean_segs True ws (os @ base) = rev base @ ts"
  using assms
proof (induction ws arbitrary: os)
  case (Cons w ws)
  show ?case
  proof (cases "w = ''..''")
    case True
    then obtain x os' where os: "os = x # os'" using Cons.prems(1) by (cases os) auto
    then have "entry_depth ws (int (length os'))" using Cons.prems(1) True by simp
    from Cons.IH [OF this] show ?thesis using Cons.prems(2) True os by auto
  next
    case False
    show ?thesis
    proof (cases "w = [] \<or> w = ''.''")
      case True
      then show ?thesis using Cons by auto
    next
      case f: False
      then have "entry_depth ws (int (length (w # os)))" using Cons.prems(1) False by (simp add: add.commute)
      from Cons.IH [OF this] show ?thesis using Cons.prems(2) False f by auto
    qed
  qed
qed simp

lemma entry_depth_nonempty: "entry_depth (filter (\<lambda>w. w \<noteq> []) ws) d = entry_depth ws d"
  by (induction ws arbitrary: d) auto

lemma split_by_sep:
  "backslash \<notin> set s \<Longrightarrow> split_by (\<lambda>c. c = sep \<or> c = backslash) s = split_on sep s"
  by (induction s) (auto split: list.split)

lemma entry_beneath:
  assumes "validateEntrypoint ep = None" and "ep \<noteq> []" and "backslash \<notin> set ep" and "IsAbs dir"
  shows "IsAbs (Join dir ep) \<and> beneath (Join dir ep) dir"
proof -
  have "entry_depth (split_on sep ep) 0"
    using assms(1,3) by (auto simp: validateEntrypoint_def FieldsFunc_def split_by_sep entry_depth_nonempty split: if_splits)
  then obtain ts where ts: "clean_segs True (split_on sep ep) ([] @ rev (path_segs dir)) = rev (rev (path_segs dir)) @ ts"
    using entry_depth_clean [of "split_on sep ep" "[]" "rev (path_segs dir)"] by auto
  have ne: "dir \<noteq> []" using assms(4) by (auto simp: IsAbs_def HasPrefix_def)
  have abs: "IsAbs (dir @ sep # ep)" using assms(4) by (cases dir) (auto simp: IsAbs_def HasPrefix_def)
  have "path_segs (dir @ sep # ep) = path_segs dir @ ts"
    using ts assms(4) abs by (simp add: path_segs_def split_on_append clean_segs_app)
  then show ?thesis using abs ne assms(2) by (simp add: Join_def beneath_def path_segs_Clean IsAbs_Clean)
qed

lemma Decode_accepts:
  assumes "Decode parsed = Inr m"
  shows "validateEntrypoint (mf_Entrypoint m) = None" "mf_Entrypoint m \<noteq> []" "0 < mf_Port m" "mf_Port m \<le> 65535" "runtime_Valid (mf_Runtime m)"
  using assms by (auto simp: Decode_def split: option.splits json_rest.splits if_splits prod.splits)

lemma applyManifestTo_fields:
  "unset (sr_Entry req) \<Longrightarrow> sr_Entry (applyManifestTo req m dir) = Some (Join dir (mf_Entrypoint m))"
  "sr_Port (applyManifestTo req m dir) = (if sr_Port req = 0 then mf_Port m else sr_Port req)"
  by (simp_all add: applyManifestTo_def Let_def)

section \<open>Properties\<close>

text \<open>
  C39: A manifest cannot name code outside its project. When a manifest whose entrypoint has no backslash is
  accepted and seeds a spawn request that named no entry, the entry of the request is an absolute path
  inside the project directory, and the port of a request that named none is a valid one.
\<close>

theorem entrypoint_contained:
  assumes "Load (Some p) True parsed = Inr (m, dir)" and "IsAbs p" and "backslash \<notin> set (mf_Entrypoint m)"
    and "unset (sr_Entry req)"
  shows "\<exists>entry. sr_Entry (applyManifestTo req m dir) = Some entry \<and> IsAbs entry \<and> pathInside entry dir \<and>
    (sr_Port req = 0 \<longrightarrow> 0 < sr_Port (applyManifestTo req m dir) \<and> sr_Port (applyManifestTo req m dir) \<le> 65535)"
proof -
  have d: "Decode parsed = Inr m" using assms(1) by (auto simp: Load_def split: sum.splits)
  have dir: "IsAbs dir" using assms(1,2) by (auto simp: Load_def d path_Dir_abs)
  note e = entry_beneath [OF Decode_accepts(1,2) [OF d] assms(3) dir]
  then show ?thesis
    using applyManifestTo_fields [of req m dir] assms(4) pathInside_iff [OF _ dir] Decode_accepts(3,4) [OF d] by simp
qed

definition demo_manifest :: Manifest where
  "demo_manifest = \<lparr>mf_Version = 1, mf_Framework = ''next'', mf_Target = ''creekd'', mf_BuildID = [], mf_NextVersion = [],
     mf_Runtime = ''bun'', mf_Entrypoint = ''.next/./tmp/../standalone/server.js'', mf_Port = 3000, mf_Env = [''A=1''],
     mf_HealthCheckPath = [], mf_HasMiddleware = False, mf_HasPrerender = True, mf_ServeDirs = [], mf_Adapter = None\<rparr>"

definition demo_up_request :: SpawnRequest where
  "demo_up_request = \<lparr>sr_Args = None, sr_Command = None, sr_Entry = None, sr_Env = None,
     sr_HealthCheckPath = None, sr_Id = ''web'', sr_Limits = None, sr_NetIsolation = None, sr_Port = 0,
     sr_RunAs = None, sr_RunAsRoot = None, sr_Runtime = None, sr_Sandbox = None, sr_VolumeMounts = None\<rparr>"

theorem entrypoint_contained_witness:
  "\<exists>entry. sr_Entry (applyManifestTo demo_up_request demo_manifest ''/srv/app'') = Some entry \<and> IsAbs entry \<and>
     pathInside entry ''/srv/app'' \<and> entry = ''/srv/app/.next/standalone/server.js''"
proof -
  have l: "Load (Some ''/srv/app/.creek-creekd/manifest.json'') True (Some (demo_manifest, RestEOF)) = Inr (demo_manifest, ''/srv/app'')"
    by code_simp
  have h: "IsAbs ''/srv/app/.creek-creekd/manifest.json''" "backslash \<notin> set (mf_Entrypoint demo_manifest)" "unset (sr_Entry demo_up_request)"
    by code_simp+
  have v: "sr_Entry (applyManifestTo demo_up_request demo_manifest ''/srv/app'') = Some ''/srv/app/.next/standalone/server.js''"
    by code_simp
  show ?thesis using entrypoint_contained [OF l h] v by auto
qed

text \<open>
  The validator counts a backslash as a separator, the path library does not: an entrypoint in which a
  backslash hides a segment is accepted and leads above the project directory.
\<close>

lemma entrypoint_backslash_escapes:
  "validateEntrypoint (''a'' @ [backslash] @ ''b/../../etc'') = None \<and>
   \<not> pathInside (Join ''/srv/app'' (''a'' @ [backslash] @ ''b/../../etc'')) ''/srv/app''"
  by code_simp

end
