(* ===== verification/Host_Backup.thy ===== *)
theory Host_Backup
  imports Go_Strings
begin

text \<open>
  Tier 0 backups (internal/backup): the host key, the signed manifest, the archive with its inverse, and
  the retention of old archives. SHA-256, Ed25519 and the JSON encoding of a manifest are the parameter
  \<open>crypto\<close>; base64 is written out. The backup directory maps names to entries; a regular file holds the
  members of a tar archive and a flag that is false when the stream ends in an error after them.
\<close>

section \<open>Base64, standard encoding\<close>

definition b64_alphabet :: string where
  "b64_alphabet = ''ABCDEFGHIJKLMNOPQRSTUVWXYZabcdefghijklmnopqrstuvwxyz0123456789+/''"

definition b64_char :: "nat \<Rightarrow> char" where
  "b64_char n = b64_alphabet ! n"

definition b64_val :: "char \<Rightarrow> nat option" where
  "b64_val c = (let i = length (takeWhile (\<lambda>x. x \<noteq> c) b64_alphabet) in if i < 64 then Some i else None)"

abbreviation byte :: "char \<Rightarrow> nat" where "byte c \<equiv> of_char c"

fun EncodeToString :: "string \<Rightarrow> string" where
  "EncodeToString [] = []"
| "EncodeToString [a] = (let n = byte a * 16 in [b64_char (n div 64), b64_char (n mod 64), CHR ''='', CHR ''=''])"
| "EncodeToString [a, b] =
     (let n = (byte a * 256 + byte b) * 4
      in [b64_char (n div 64 div 64), b64_char (n div 64 mod 64), b64_char (n mod 64), CHR ''=''])"
| "EncodeToString (a # b # c # r) =
     (let n = (byte a * 256 + byte b) * 256 + byte c
      in b64_char (n div 64 div 64 div 64) # b64_char (n div 64 div 64 mod 64) # b64_char (n div 64 mod 64) # b64_char (n mod 64) #
         EncodeToString r)"

fun b64_decode :: "string \<Rightarrow> string option" where
  "b64_decode [] = Some []"
| "b64_decode (w # x # y # z # r) =
     (if y = CHR ''='' \<and> z = CHR ''='' \<and> r = [] then
        (case (b64_val w, b64_val x) of
           (Some i, Some j) \<Rightarrow> Some [char_of ((i * 64 + j) div 16)]
         | _ \<Rightarrow> None)
      else if z = CHR ''='' \<and> r = [] then
        (case (b64_val w, b64_val x, b64_val y) of
           (Some i, Some j, Some k) \<Rightarrow>
             (let n = ((i * 64 + j) * 64 + k) div 4 in Some [char_of (n div 256), char_of (n mod 256)])
         | _ \<Rightarrow> None)
      else
        (case (b64_val w, b64_val x, b64_val y, b64_val z) of
           (Some i, Some j, Some k, Some l) \<Rightarrow>
             (let n = ((i * 64 + j) * 64 + k) * 64 + l
              in map_option (\<lambda>s. char_of (n div 256 div 256) # char_of (n div 256 mod 256) # char_of (n mod 256) # s) (b64_decode r))
         | _ \<Rightarrow> None))"
| "b64_decode _ = None"

definition DecodeString :: "string \<Rightarrow> string option" where
  "DecodeString s = b64_decode (filter (\<lambda>c. c \<noteq> CHR 0x0A \<and> c \<noteq> CHR 0x0D) s)"

lemma b64_val_char: "n < 64 \<Longrightarrow> b64_val (b64_char n) = Some n"
proof -
  have "list_all (\<lambda>n. b64_val (b64_char n) = Some n) [0..<64]" by code_simp
  then show "n < 64 \<Longrightarrow> ?thesis" by (simp add: list_all_iff)
qed

lemma b64_char_plain:
  "n < 64 \<Longrightarrow> b64_char n \<noteq> CHR ''='' \<and> b64_char n \<noteq> CHR 0x0A \<and> b64_char n \<noteq> CHR 0x0D"
proof -
  have "list_all (\<lambda>n. b64_char n \<noteq> CHR ''='' \<and> b64_char n \<noteq> CHR 0x0A \<and> b64_char n \<noteq> CHR 0x0D) [0..<64]" by code_simp
  then show "n < 64 \<Longrightarrow> ?thesis" by (simp add: list_all_iff)
qed

lemma byte_le: "byte c \<le> 255"
  using nat_of_char_less_256 [of c] by linarith

lemma char_of_low: "char_of (k * 256 + byte c) = c"
proof -
  have "char_of ((k * 256 + byte c) mod 256) = c" by (simp only: mod_mult_self3 of_char_mod_256 char_of_char)
  then show ?thesis by (simp only: char_of_mod_256)
qed

lemma b64_val_digit: "b64_val (b64_char (n mod 64)) = Some (n mod 64)" "n < 64 \<Longrightarrow> b64_val (b64_char n) = Some n"
  by (simp_all add: b64_val_char)

lemma b64_decode_encode: "b64_decode (EncodeToString s) = Some s"
proof (induction s rule: EncodeToString.induct)
  case (2 a)
  define n where "n = byte a * 16"
  have "n < 64 * 64" "n div 16 = byte a" using nat_of_char_less_256 [of a] by (auto simp: n_def)
  then have "n div 64 < 64" by (simp only: div_less_iff_less_mult)
  then show ?case using \<open>n div 16 = byte a\<close> by (simp add: n_def [symmetric] b64_val_digit)
next
  case (3 a b)
  define n where "n = (byte a * 256 + byte b) * 4"
  have d: "n div 4 = byte a * 256 + byte b" by (simp add: n_def)
  have "n < 64 * 64 * 64" using byte_le [of a] byte_le [of b] by (simp add: n_def)
  then have "n div 64 div 64 < 64" by (simp add: div_less_iff_less_mult)
  then show ?case using b64_char_plain [of "n mod 64"]
    unfolding EncodeToString.simps Let_def n_def [symmetric] by (simp add: b64_val_digit d char_of_low)
next
  case (4 a b c r)
  define n where "n = (byte a * 256 + byte b) * 256 + byte c"
  have d: "n div 256 = byte a * 256 + byte b" "n mod 256 = byte c"
    unfolding n_def by (simp_all only: div_mult_self3 div_less nat_of_char_less_256 mod_mult_self3 of_char_mod_256)
  have low: "char_of n = c" unfolding n_def by (rule char_of_low)
  have "n < 64 * 64 * 64 * 64"
    using byte_le [of a] byte_le [of b] byte_le [of c] by (simp add: n_def)
  then have "n div 64 div 64 div 64 < 64" by (simp add: div_less_iff_less_mult)
  then show ?case
    using 4 b64_char_plain [of "n mod 64"]
    unfolding EncodeToString.simps Let_def n_def [symmetric] by (simp add: b64_val_digit d char_of_low low)
qed simp

lemma b64_encode_plain: "c \<in> set (EncodeToString s) \<Longrightarrow> c \<noteq> CHR 0x0A \<and> c \<noteq> CHR 0x0D"
proof (induction s rule: EncodeToString.induct)
  case (2 a)
  define n where "n = byte a * 16"
  have "n < 64 * 64" using byte_le [of a] by (simp add: n_def)
  then have "n div 64 < 64" by (simp only: div_less_iff_less_mult)
  then show ?case using 2 b64_char_plain unfolding EncodeToString.simps Let_def n_def [symmetric] by auto
next
  case (3 a b)
  define n where "n = (byte a * 256 + byte b) * 4"
  have "n < 64 * 64 * 64" using byte_le [of a] byte_le [of b] by (simp add: n_def)
  then have "n div 64 div 64 < 64" by (simp only: div_less_iff_less_mult)
  then show ?case using 3 b64_char_plain unfolding EncodeToString.simps Let_def n_def [symmetric] by auto
next
  case (4 a b c r)
  define n where "n = (byte a * 256 + byte b) * 256 + byte c"
  have "n < 64 * 64 * 64 * 64" using byte_le [of a] byte_le [of b] byte_le [of c] by (simp add: n_def)
  then have "n div 64 div 64 div 64 < 64" by (simp only: div_less_iff_less_mult)
  then show ?case using 4 b64_char_plain unfolding EncodeToString.simps Let_def n_def [symmetric] by auto
qed simp

lemma DecodeString_EncodeToString: "DecodeString (EncodeToString s) = Some s"
proof -
  have "filter (\<lambda>c. c \<noteq> CHR 0x0A \<and> c \<noteq> CHR 0x0D) (EncodeToString s) = EncodeToString s"
    using b64_encode_plain by (auto simp: filter_id_conv)
  then show ?thesis by (simp add: DecodeString_def b64_decode_encode)
qed

section \<open>The host key\<close>

record BManifest =
  bk_CreekdVersion :: string
  bk_SchemaVersion :: int
  bk_BackupTimestamp :: string
  bk_AuditLogTipHash :: string
  bk_FleetCAFingerprint :: string
  bk_ContentHash :: string
  bk_Files :: "string gomap"
  bk_SignedBy :: string
  bk_Signature :: string

text \<open>The hexadecimal SHA-256, Ed25519, the compact and the indented JSON of a manifest with its decoder, and the RFC 3339 time.\<close>

record crypto =
  cr_sha256 :: "string \<Rightarrow> string"
  cr_Sign :: "string \<Rightarrow> string \<Rightarrow> string"
  cr_Verify :: "string \<Rightarrow> string \<Rightarrow> string \<Rightarrow> bool"
  cr_Marshal :: "BManifest \<Rightarrow> string"
  cr_MarshalIndent :: "BManifest \<Rightarrow> string"
  cr_Unmarshal :: "BManifest \<Rightarrow> string \<Rightarrow> BManifest option"
  cr_RFC3339 :: "int \<Rightarrow> string"

record HostKey =
  hk_Priv :: string
  hk_Pub :: string
  hk_Fingerprint :: string

definition fingerprintPub :: "crypto \<Rightarrow> string \<Rightarrow> string" where
  "fingerprintPub c pub = ''sha256:'' @ cr_sha256 c pub"

datatype key_error = KeyRead | KeySize nat | KeyGenerate | KeyOpen | KeyWrite | KeySync | KeyClose | KeyDirPre | KeyRename | KeyDirPost

text \<open>An Ed25519 private key is the 32-byte seed followed by the public key.\<close>

definition parseHostKey :: "crypto \<Rightarrow> string \<Rightarrow> key_error + HostKey" where
  "parseHostKey c raw =
     (if length raw \<noteq> 64 then Inl (KeySize (length raw))
      else let pub = drop 32 raw in Inr \<lparr>hk_Priv = raw, hk_Pub = pub, hk_Fingerprint = fingerprintPub c pub\<rparr>)"

text \<open>The key file and its temporary sibling; the outcome of each system call; what a failing write leaves.\<close>

record keydir =
  kd_key :: "string option"
  kd_tmp :: "string option"

record key_io =
  ki_read :: bool
  ki_pair :: "(string \<times> string) option"
  ki_open :: bool
  ki_short :: "string option"
  ki_sync :: bool
  ki_close :: bool
  ki_dirPre :: bool
  ki_rename :: bool
  ki_dirPost :: bool
  ki_remove :: bool

definition key_fail :: "key_io \<Rightarrow> key_error \<Rightarrow> keydir list \<Rightarrow> (key_error + HostKey) \<times> keydir list" where
  "key_fail io e h = (Inl e, h @ [if ki_remove io then (last h)\<lparr>kd_tmp := None\<rparr> else last h])"

text \<open>Returns the states of the directory between the system calls, so that a crash is a prefix.\<close>

definition generateAndPersistHostKey :: "crypto \<Rightarrow> key_io \<Rightarrow> keydir \<Rightarrow> (key_error + HostKey) \<times> keydir list" where
  "generateAndPersistHostKey c io d0 =
     (case ki_pair io of
        None \<Rightarrow> (Inl KeyGenerate, [d0])
      | Some (pub, priv) \<Rightarrow>
          if \<not> ki_open io then (Inl KeyOpen, [d0])
          else let d1 = d0\<lparr>kd_tmp := Some []\<rparr> in
            (case ki_short io of
               Some part \<Rightarrow> key_fail io KeyWrite [d0, d1, d0\<lparr>kd_tmp := Some part\<rparr>]
             | None \<Rightarrow>
                 let d2 = d0\<lparr>kd_tmp := Some priv\<rparr> in
                 if \<not> ki_sync io then key_fail io KeySync [d0, d1, d2]
                 else if \<not> ki_close io then key_fail io KeyClose [d0, d1, d2]
                 else if \<not> ki_dirPre io then key_fail io KeyDirPre [d0, d1, d2]
                 else if \<not> ki_rename io then key_fail io KeyRename [d0, d1, d2]
                 else let h = [d0, d1, d2, \<lparr>kd_key = Some priv, kd_tmp = None\<rparr>] in
                   if \<not> ki_dirPost io then (Inl KeyDirPost, h)
                   else (Inr \<lparr>hk_Priv = priv, hk_Pub = pub, hk_Fingerprint = fingerprintPub c pub\<rparr>, h)))"

definition LoadOrCreateHostKey :: "crypto \<Rightarrow> key_io \<Rightarrow> keydir \<Rightarrow> (key_error + HostKey) \<times> keydir list" where
  "LoadOrCreateHostKey c io d =
     (if \<not> ki_read io then (Inl KeyRead, [d])
      else case kd_key d of
        Some raw \<Rightarrow> (parseHostKey c raw, [d])
      | None \<Rightarrow> generateAndPersistHostKey c io d)"

section \<open>The manifest\<close>

definition hashOne :: "crypto \<Rightarrow> string \<Rightarrow> string" where
  "hashOne c data = ''sha256:'' @ cr_sha256 c data"

definition hashContent :: "crypto \<Rightarrow> string \<Rightarrow> string \<Rightarrow> string \<Rightarrow> string" where
  "hashContent c stateJSON walJSON auditLog = ''sha256:'' @ cr_sha256 c (stateJSON @ walJSON @ auditLog)"

definition sigPrefix :: string where
  "sigPrefix = ''ed25519:''"

definition signableBytes :: "crypto \<Rightarrow> BManifest \<Rightarrow> string" where
  "signableBytes c m = cr_Marshal c (m\<lparr>bk_Signature := []\<rparr>)"

datatype backup_error =
    NoStateDir | NoBackupDir | NoHostKey | BadKeep int | MkdirBackup | ReadState | ReadWal | ReadAudit | SignKey
  | ArtifactOpen | TarMember string | TarRead string | TarReaddir | TarClose | GzClose | ArtifactSync | ArtifactClose
  | ArtifactRename | PruneReaddir | PruneRemove string

definition SignManifest :: "crypto \<Rightarrow> BManifest \<Rightarrow> HostKey option \<Rightarrow> backup_error + BManifest" where
  "SignManifest c m key =
     (case key of
        None \<Rightarrow> Inl SignKey
      | Some k \<Rightarrow>
          if length (hk_Priv k) \<noteq> 64 then Inl SignKey
          else let m1 = m\<lparr>bk_SignedBy := ''host-key-fingerprint:'' @ hk_Fingerprint k\<rparr>;
                   payload = signableBytes c m1;
                   sig = cr_Sign c (hk_Priv k) payload
               in Inr (m1\<lparr>bk_Signature := sigPrefix @ EncodeToString sig\<rparr>))"

datatype verification_error = PubSize | SignedByMismatch | NoSigPrefix | SigBase64 | SigInvalid

definition VerifyManifest :: "crypto \<Rightarrow> BManifest \<Rightarrow> string \<Rightarrow> verification_error option" where
  "VerifyManifest c m pub =
     (if length pub \<noteq> 32 then Some PubSize
      else if bk_SignedBy m \<noteq> ''host-key-fingerprint:'' @ fingerprintPub c pub then Some SignedByMismatch
      else if length (bk_Signature m) \<le> length sigPrefix \<or> take (length sigPrefix) (bk_Signature m) \<noteq> sigPrefix then Some NoSigPrefix
      else case DecodeString (drop (length sigPrefix) (bk_Signature m)) of
        None \<Rightarrow> Some SigBase64
      | Some sig \<Rightarrow> if \<not> cr_Verify c pub (signableBytes c m) sig then Some SigInvalid else None)"

section \<open>The archive\<close>

definition Tier0Keep :: int where "Tier0Keep = 168"

record Tier0Options =
  bo_StateDir :: string
  bo_BackupDir :: string
  bo_ACMEDir :: string
  bo_SystemdUnitPath :: string
  bo_CreekdVersion :: string
  bo_SchemaVersion :: int
  bo_Keep :: int
  bo_HostKey :: "HostKey option"

record Tier0Result =
  br_ArtifactPath :: string
  br_Manifest :: BManifest
  br_Pruned :: "string list"

datatype read_result = ReadOk string | ReadMissing | ReadErr

text \<open>A directory listing: the entries in the order of \<open>os.ReadDir\<close>, each with the directory flag and what reading it yields.\<close>

datatype dir_result = DirOk "(string \<times> bool \<times> read_result) list" | DirMissing | DirErr

record tarmember =
  tm_Name :: string
  tm_Data :: string
  tm_ModTime :: int

datatype bentry = BDir | BFile "tarmember list" bool

type_synonym bdir = "bentry gomap"

text \<open>The files the run reads, the two readings of the clock, and the outcomes of its system calls.\<close>

record backup_io =
  bi_mkdir :: bool
  bi_state :: read_result
  bi_wal :: read_result
  bi_audit :: read_result
  bi_now :: int
  bi_mtime :: int
  bi_acme :: dir_result
  bi_unit :: read_result
  bi_open :: bool
  bi_member :: "string \<Rightarrow> bool"
  bi_tarClose :: bool
  bi_gzClose :: bool
  bi_sync :: bool
  bi_close :: bool
  bi_rename :: bool
  bi_removeTmp :: bool
  bi_readdir :: bool
  bi_remove :: "string \<Rightarrow> bool"

definition validateOptions :: "bool \<Rightarrow> Tier0Options \<Rightarrow> backup_error + Tier0Options" where
  "validateOptions mkdir_ok opts =
     (if bo_StateDir opts = [] then Inl NoStateDir
      else if bo_BackupDir opts = [] then Inl NoBackupDir
      else if bo_HostKey opts = None then Inl NoHostKey
      else if bo_Keep opts < 0 then Inl (BadKeep (bo_Keep opts))
      else let o1 = (if bo_Keep opts = 0 then opts\<lparr>bo_Keep := Tier0Keep\<rparr> else opts)
           in if \<not> mkdir_ok then Inl MkdirBackup else Inr o1)"

definition readOptional :: "read_result \<Rightarrow> string option" where
  "readOptional r = (case r of ReadOk data \<Rightarrow> Some data | ReadMissing \<Rightarrow> Some [] | ReadErr \<Rightarrow> None)"

definition TrimRightNL :: "string \<Rightarrow> string" where
  "TrimRightNL s = rev (dropWhile (\<lambda>c. c = CHR 0x0A) (rev s))"

definition auditTipHash :: "crypto \<Rightarrow> string \<Rightarrow> string" where
  "auditTipHash c raw =
     (let trimmed = TrimRightNL raw in
      if trimmed = [] then ''none''
      else ''sha256:'' @ cr_sha256 c (rev (takeWhile (\<lambda>ch. ch \<noteq> CHR 0x0A) (rev trimmed))))"

definition readAuditLog :: "crypto \<Rightarrow> read_result \<Rightarrow> (string \<times> string) option" where
  "readAuditLog c r =
     (case r of
        ReadMissing \<Rightarrow> Some ([], ''none'')
      | ReadErr \<Rightarrow> None
      | ReadOk raw \<Rightarrow> Some (raw, auditTipHash c raw))"

text \<open>Writing the members: \<open>Inl\<close> carries the members written so far with the error.\<close>

type_synonym tar_acc = "(tarmember list \<times> backup_error) + tarmember list"

definition writeTarFile :: "backup_io \<Rightarrow> string \<Rightarrow> string \<Rightarrow> tar_acc \<Rightarrow> tar_acc" where
  "writeTarFile io name data acc =
     (case acc of
        Inl e \<Rightarrow> Inl e
      | Inr ms \<Rightarrow>
          if \<not> bi_member io name then Inl (ms, TarMember name)
          else Inr (ms @ [\<lparr>tm_Name = name, tm_Data = data, tm_ModTime = bi_mtime io\<rparr>]))"

definition writeTarMaybe :: "backup_io \<Rightarrow> string \<Rightarrow> read_result \<Rightarrow> tar_acc \<Rightarrow> tar_acc" where
  "writeTarMaybe io name r acc =
     (case acc of
        Inl e \<Rightarrow> Inl e
      | Inr ms \<Rightarrow>
          (case r of
             ReadMissing \<Rightarrow> acc
           | ReadErr \<Rightarrow> Inl (ms, TarRead name)
           | ReadOk data \<Rightarrow> writeTarFile io name data acc))"

fun write_entries :: "backup_io \<Rightarrow> string \<Rightarrow> (string \<times> bool \<times> read_result) list \<Rightarrow> tar_acc \<Rightarrow> tar_acc" where
  "write_entries io tarPrefix [] acc = acc"
| "write_entries io tarPrefix ((name, isDir, r) # es) acc =
     (if isDir then write_entries io tarPrefix es acc
      else case acc of
        Inl e \<Rightarrow> Inl e
      | Inr ms \<Rightarrow>
          (case r of
             ReadOk data \<Rightarrow> write_entries io tarPrefix es (writeTarFile io (tarPrefix @ name) data acc)
           | _ \<Rightarrow> Inl (ms, TarRead name)))"

definition writeTarDir :: "backup_io \<Rightarrow> string \<Rightarrow> dir_result \<Rightarrow> tar_acc \<Rightarrow> tar_acc" where
  "writeTarDir io tarPrefix r acc =
     (case acc of
        Inl e \<Rightarrow> Inl e
      | Inr ms \<Rightarrow>
          (case r of
             DirMissing \<Rightarrow> acc
           | DirErr \<Rightarrow> Inl (ms, TarReaddir)
           | DirOk es \<Rightarrow> write_entries io tarPrefix (sort_key fst es) acc))"

text \<open>The sequence of members of \<open>writeArtifact\<close>.\<close>

definition write_members :: "Tier0Options \<Rightarrow> backup_io \<Rightarrow> string \<Rightarrow> string \<Rightarrow> string \<Rightarrow> string \<Rightarrow> tar_acc" where
  "write_members opts io stateBytes walBytes auditBytes manifestJSON =
     (let a1 = writeTarFile io ''state.json'' stateBytes (Inr []);
          a2 = (if walBytes \<noteq> [] then writeTarFile io ''state.json.wal'' walBytes a1 else a1);
          a3 = (if auditBytes \<noteq> [] then writeTarFile io ''audit.log'' auditBytes a2 else a2);
          a4 = (if bo_ACMEDir opts \<noteq> [] then writeTarDir io ''acme/'' (bi_acme io) a3 else a3);
          a5 = (if bo_SystemdUnitPath opts \<noteq> [] then writeTarMaybe io ''creekd.service'' (bi_unit io) a4 else a4)
      in writeTarFile io ''MANIFEST.json'' manifestJSON a5)"

definition closeTmp :: "backup_io \<Rightarrow> string \<Rightarrow> tarmember list \<Rightarrow> backup_error \<Rightarrow> bdir \<Rightarrow> backup_error option \<times> bdir" where
  "closeTmp io tmp ms cause d = (Some cause, if bi_removeTmp io then gm_del tmp d else gm_set tmp (BFile ms False) d)"

definition writeArtifact ::
  "Tier0Options \<Rightarrow> backup_io \<Rightarrow> string \<Rightarrow> string \<Rightarrow> string \<Rightarrow> string \<Rightarrow> string \<Rightarrow> bdir \<Rightarrow> backup_error option \<times> bdir"
where
  "writeArtifact opts io name stateBytes walBytes auditBytes manifestJSON d =
     (let tmp = name @ ''.tmp'' in
      if \<not> bi_open io then (Some ArtifactOpen, d)
      else case write_members opts io stateBytes walBytes auditBytes manifestJSON of
        Inl (ms, e) \<Rightarrow> closeTmp io tmp ms e d
      | Inr ms \<Rightarrow>
          if \<not> bi_tarClose io then closeTmp io tmp ms TarClose d
          else if \<not> bi_gzClose io then closeTmp io tmp ms GzClose d
          else if \<not> bi_sync io then closeTmp io tmp ms ArtifactSync d
          else if \<not> bi_close io then closeTmp io tmp ms ArtifactClose d
          else if \<not> bi_rename io then closeTmp io tmp ms ArtifactRename d
          else (None, gm_set name (BFile ms True) (gm_del tmp d)))"

section \<open>Retention\<close>

definition is_artifact :: "string \<times> bentry \<Rightarrow> bool" where
  "is_artifact e \<longleftrightarrow> snd e \<noteq> BDir \<and> HasPrefix (fst e) ''state-'' \<and> HasSuffix (fst e) ''.tar.gz''"

definition artifacts :: "bdir \<Rightarrow> string list" where
  "artifacts d = map fst (filter is_artifact d)"

fun prune_loop :: "backup_io \<Rightarrow> string \<Rightarrow> string list \<Rightarrow> string list \<Rightarrow> bdir \<Rightarrow> (backup_error + string list) \<times> bdir" where
  "prune_loop io dir [] pruned d = (Inr pruned, d)"
| "prune_loop io dir (name # ns) pruned d =
     (if \<not> bi_remove io name then (Inl (PruneRemove name), d)
      else prune_loop io dir ns (pruned @ [Join dir name]) (gm_del name d))"

definition pruneOldest :: "backup_io \<Rightarrow> string \<Rightarrow> int \<Rightarrow> bdir \<Rightarrow> (backup_error + string list) \<times> bdir" where
  "pruneOldest io dir keep d =
     (if \<not> bi_readdir io then (Inl PruneReaddir, d)
      else let as = artifacts d in
        if int (length as) \<le> keep then (Inr [], d)
        else let overflow = nat (int (length as) - keep) in prune_loop io dir (take overflow (sort as)) [] d)"

section \<open>WriteTier0 and ReadArtifact\<close>

text \<open>\<open>%019d\<close>: zero padding to 19 places, the sign included.\<close>

definition pad19 :: "int \<Rightarrow> string" where
  "pad19 n =
     (if 0 \<le> n then let ds = FormatUint (nat n) in replicate (19 - length ds) (CHR ''0'') @ ds
      else let ds = FormatUint (nat (- n)) in CHR ''-'' # replicate (18 - length ds) (CHR ''0'') @ ds)"

definition artifactName :: "int \<Rightarrow> string" where
  "artifactName nano = ''state-'' @ pad19 nano @ ''.tar.gz''"

definition tier0_manifest :: "crypto \<Rightarrow> Tier0Options \<Rightarrow> HostKey \<Rightarrow> int \<Rightarrow> string \<Rightarrow> string \<Rightarrow> string \<Rightarrow> string \<Rightarrow> BManifest" where
  "tier0_manifest c opts k now stateBytes walBytes auditBytes tip =
     (let f1 = [(''state.json'', hashOne c stateBytes)];
          f2 = (if walBytes \<noteq> [] then gm_set ''state.json.wal'' (hashOne c walBytes) f1 else f1);
          f3 = (if auditBytes \<noteq> [] then gm_set ''audit.log'' (hashOne c auditBytes) f2 else f2)
      in \<lparr>bk_CreekdVersion = bo_CreekdVersion opts, bk_SchemaVersion = bo_SchemaVersion opts,
          bk_BackupTimestamp = cr_RFC3339 c now, bk_AuditLogTipHash = tip, bk_FleetCAFingerprint = hk_Fingerprint k,
          bk_ContentHash = hashContent c stateBytes walBytes auditBytes, bk_Files = f3, bk_SignedBy = [], bk_Signature = []\<rparr>)"

definition WriteTier0 :: "crypto \<Rightarrow> backup_io \<Rightarrow> Tier0Options \<Rightarrow> bdir \<Rightarrow> (backup_error + Tier0Result) \<times> bdir" where
  "WriteTier0 c io opts0 d =
     (case validateOptions (bi_mkdir io) opts0 of
        Inl e \<Rightarrow> (Inl e, d)
      | Inr opts \<Rightarrow>
          (case bi_state io of
             ReadOk stateBytes \<Rightarrow>
               (case readOptional (bi_wal io) of
                  None \<Rightarrow> (Inl ReadWal, d)
                | Some walBytes \<Rightarrow>
                    (case readAuditLog c (bi_audit io) of
                       None \<Rightarrow> (Inl ReadAudit, d)
                     | Some (auditBytes, tip) \<Rightarrow>
                         (case bo_HostKey opts of
                            None \<Rightarrow> (Inl NoHostKey, d)
                          | Some k \<Rightarrow>
                              (case SignManifest c (tier0_manifest c opts k (bi_now io) stateBytes walBytes auditBytes tip) (Some k) of
                                 Inl e \<Rightarrow> (Inl e, d)
                               | Inr m \<Rightarrow>
                                   let name = artifactName (bi_now io) in
                                   (case writeArtifact opts io name stateBytes walBytes auditBytes (cr_MarshalIndent c m) d of
                                      (Some e, d1) \<Rightarrow> (Inl e, d1)
                                    | (None, d1) \<Rightarrow>
                                        (case pruneOldest io (bo_BackupDir opts) (bo_Keep opts) d1 of
                                           (Inl e, d2) \<Rightarrow> (Inl e, d2)
                                         | (Inr pruned, d2) \<Rightarrow>
                                             (Inr \<lparr>br_ArtifactPath = Join (bo_BackupDir opts) name, br_Manifest = m, br_Pruned = pruned\<rparr>, d2)))))))
           | _ \<Rightarrow> (Inl ReadState, d)))"

record restored =
  re_state :: "string option"
  re_wal :: string
  re_audit :: string
  re_manifest :: "BManifest option"
  re_extras :: "string gomap"

datatype artifact_error = ArtOpen | ArtStream | ArtManifestParse | ArtNoState | ArtNoManifest

definition zero_manifest :: BManifest where
  "zero_manifest = \<lparr>bk_CreekdVersion = [], bk_SchemaVersion = 0, bk_BackupTimestamp = [], bk_AuditLogTipHash = [],
     bk_FleetCAFingerprint = [], bk_ContentHash = [], bk_Files = [], bk_SignedBy = [], bk_Signature = []\<rparr>"

text \<open>JSON is decoded into the manifest value read so far.\<close>

fun read_members :: "crypto \<Rightarrow> tarmember list \<Rightarrow> restored \<Rightarrow> artifact_error + restored" where
  "read_members c [] r = Inr r"
| "read_members c (h # hs) r =
     (if tm_Name h = ''state.json'' then read_members c hs (r\<lparr>re_state := Some (tm_Data h)\<rparr>)
      else if tm_Name h = ''state.json.wal'' then read_members c hs (r\<lparr>re_wal := tm_Data h\<rparr>)
      else if tm_Name h = ''audit.log'' then read_members c hs (r\<lparr>re_audit := tm_Data h\<rparr>)
      else if tm_Name h = ''MANIFEST.json'' then
        (case cr_Unmarshal c (case re_manifest r of None \<Rightarrow> zero_manifest | Some m \<Rightarrow> m) (tm_Data h) of
           None \<Rightarrow> Inl ArtManifestParse
         | Some m \<Rightarrow> read_members c hs (r\<lparr>re_manifest := Some m\<rparr>))
      else read_members c hs (r\<lparr>re_extras := gm_set (tm_Name h) (tm_Data h) (re_extras r)\<rparr>))"

definition ReadArtifact :: "crypto \<Rightarrow> bentry option \<Rightarrow> artifact_error + restored" where
  "ReadArtifact c f =
     (case f of
        Some (BFile ms intact) \<Rightarrow>
          (case read_members c ms \<lparr>re_state = None, re_wal = [], re_audit = [], re_manifest = None, re_extras = []\<rparr> of
             Inl e \<Rightarrow> Inl e
           | Inr r \<Rightarrow>
               if \<not> intact then Inl ArtStream
               else if re_state r = None then Inl ArtNoState
               else if re_manifest r = None then Inl ArtNoManifest
               else Inr r)
      | _ \<Rightarrow> Inl ArtOpen)"

section \<open>The key is written once\<close>

text \<open>
  Between any two system calls the key file is the one found at the start or the complete generated key, and
  the key a call returns is the key every later call returns, without touching the directory.
\<close>

lemma hostkey_never_partial:
  assumes "LoadOrCreateHostKey c io d = (r, h)" and "d' \<in> set h"
  shows "kd_key d' = kd_key d \<or> kd_key d = None \<and> (\<exists>pub. ki_pair io = Some (pub, the (kd_key d')))"
  using assms
  by (auto simp: LoadOrCreateHostKey_def generateAndPersistHostKey_def key_fail_def Let_def split: if_splits option.splits prod.splits)

lemma hostkey_persists:
  assumes "LoadOrCreateHostKey c io d = (Inr k, h)"
    and wf: "ki_pair io = Some (pub, priv)" "length priv = 64" "pub = drop 32 priv"
    and "ki_read io'"
  shows "LoadOrCreateHostKey c io' (last h) = (Inr k, [last h])"
proof (cases "kd_key d")
  case None
  then have "generateAndPersistHostKey c io d = (Inr k, h)" using assms(1) by (simp add: LoadOrCreateHostKey_def split: if_splits)
  then have "last h = \<lparr>kd_key = Some priv, kd_tmp = None\<rparr> \<and> k = \<lparr>hk_Priv = priv, hk_Pub = pub, hk_Fingerprint = fingerprintPub c pub\<rparr>"
    using wf(1) by (auto simp: generateAndPersistHostKey_def key_fail_def Let_def split: if_splits option.splits)
  then show ?thesis using wf assms(5) by (simp add: LoadOrCreateHostKey_def parseHostKey_def Let_def)
next
  case (Some raw)
  then show ?thesis using assms by (auto simp: LoadOrCreateHostKey_def split: if_splits)
qed

section \<open>Names sort by time\<close>

fun nval :: "string \<Rightarrow> nat" where
  "nval [] = 0"
| "nval (c # s) = (byte c - 48) * 10 ^ length s + nval s"

definition all_digits :: "string \<Rightarrow> bool" where
  "all_digits s \<longleftrightarrow> (\<forall>c \<in> set s. 48 \<le> byte c \<and> byte c \<le> 57)"

lemma nval_append: "nval (s @ t) = nval s * 10 ^ length t + nval t"
  by (induction s) (simp_all add: power_add algebra_simps)

lemma nval_bound: "all_digits s \<Longrightarrow> nval s < 10 ^ length s"
proof (induction s)
  case (Cons c s)
  then have "nval s < 10 ^ length s" "byte c - 48 \<le> 9" by (auto simp: all_digits_def)
  then have "(byte c - 48) * 10 ^ length s \<le> 9 * 10 ^ length s" by (intro mult_right_mono) auto
  with \<open>nval s < 10 ^ length s\<close> have "(byte c - 48) * 10 ^ length s + nval s < 10 * 10 ^ length s" by linarith
  then show ?case by simp
qed simp

lemma digits_less_iff:
  "length s = length t \<Longrightarrow> all_digits s \<Longrightarrow> all_digits t \<Longrightarrow> s < t \<longleftrightarrow> nval s < nval t"
proof (induction s t rule: list_induct2)
  case (Cons a s b t)
  have da: "all_digits s" "all_digits t" "48 \<le> byte a" "48 \<le> byte b" using Cons.prems by (auto simp: all_digits_def)
  note bd = nval_bound [OF da(1)] nval_bound [OF da(2)]
  have "byte a < byte b \<Longrightarrow> nval (a # s) < nval (b # t)"
  proof -
    assume "byte a < byte b"
    then have "(byte a - 48 + 1) * 10 ^ length t \<le> (byte b - 48) * 10 ^ length t" using da by (intro mult_right_mono) auto
    then show ?thesis using bd Cons.hyps by (simp add: algebra_simps)
  qed
  moreover have "byte b < byte a \<Longrightarrow> nval (b # t) < nval (a # s)"
  proof -
    assume "byte b < byte a"
    then have "(byte b - 48 + 1) * 10 ^ length t \<le> (byte a - 48) * 10 ^ length t" using da by (intro mult_right_mono) auto
    then show ?thesis using bd Cons.hyps by (simp add: algebra_simps)
  qed
  ultimately show ?case
    using Cons.IH [OF da(1,2)] Cons.hyps by (cases "byte a" "byte b" rule: linorder_cases) (auto simp: less_char_def)
qed simp

lemma nval_FormatUint: "nval (FormatUint n) = n"
  by (induction n rule: FormatUint.induct) (subst FormatUint.simps, simp add: nval_append of_char_digit)

lemma length_FormatUint: "n < 10 ^ Suc k \<Longrightarrow> length (FormatUint n) \<le> Suc k"
proof (induction k arbitrary: n)
  case (Suc k)
  then have "n div 10 < 10 ^ Suc k" by (simp add: div_less_iff_less_mult mult.commute)
  with Suc.IH show ?case by (subst FormatUint.simps) auto
qed (simp add: FormatUint.simps)

lemma pad19_props:
  assumes "0 \<le> n" and "n < 2 ^ 63"
  shows "length (pad19 n) = 19" and "all_digits (pad19 n)" and "nval (pad19 n) = nat n"
proof -
  have "nat n < 10 ^ Suc 18" using assms by simp
  from length_FormatUint [OF this] have l: "length (FormatUint (nat n)) \<le> 19" by simp
  have z: "nval (replicate k (CHR ''0'')) = 0" for k by (induction k) simp_all
  show "length (pad19 n) = 19" using l assms by (simp add: pad19_def Let_def)
  show "all_digits (pad19 n)" using assms FormatUint_digits by (fastforce simp: pad19_def Let_def all_digits_def)
  show "nval (pad19 n) = nat n" using assms by (simp add: pad19_def Let_def nval_append z nval_FormatUint)
qed

lemma less_append_same: "length s = length t \<Longrightarrow> s @ u < t @ u \<longleftrightarrow> s < (t :: string)"
  by (induction s t rule: list_induct2) auto

lemma artifactName_less:
  assumes "0 \<le> m" "m < 2 ^ 63" "0 \<le> n" "n < 2 ^ 63"
  shows "artifactName m < artifactName n \<longleftrightarrow> m < n"
proof -
  have "pad19 m @ t < pad19 n @ t \<longleftrightarrow> pad19 m < pad19 n" for t :: string
    using pad19_props(1) [OF assms(1,2)] pad19_props(1) [OF assms(3,4)] by (simp add: less_append_same)
  then show ?thesis
    using digits_less_iff [OF _ pad19_props(2) [OF assms(1,2)] pad19_props(2) [OF assms(3,4)]]
      pad19_props(1,3) [OF assms(1,2)] pad19_props(1,3) [OF assms(3,4)] assms
    by (auto simp: artifactName_def)
qed

section \<open>Reading back what was written\<close>

definition mem :: "backup_io \<Rightarrow> string \<Rightarrow> string \<Rightarrow> tarmember" where
  "mem io name data = \<lparr>tm_Name = name, tm_Data = data, tm_ModTime = bi_mtime io\<rparr>"

lemma mem_sel: "tm_Name (mem io n data) = n" "tm_Data (mem io n data) = data"
  by (simp_all add: mem_def)

definition data_of :: "read_result \<Rightarrow> string" where
  "data_of r = (case r of ReadOk data \<Rightarrow> data | _ \<Rightarrow> [])"

definition plain_entries :: "(string \<times> bool \<times> read_result) list \<Rightarrow> (string \<times> bool \<times> read_result) list" where
  "plain_entries es = filter (\<lambda>(n, isDir, r). \<not> isDir) (sort_key fst es)"

definition extra_members :: "Tier0Options \<Rightarrow> backup_io \<Rightarrow> tarmember list" where
  "extra_members opts io =
     (case bi_acme io of
        DirOk es \<Rightarrow> if bo_ACMEDir opts \<noteq> [] then map (\<lambda>(n, isDir, r). mem io (''acme/'' @ n) (data_of r)) (plain_entries es) else []
      | _ \<Rightarrow> []) @
     (case bi_unit io of
        ReadOk data \<Rightarrow> if bo_SystemdUnitPath opts \<noteq> [] then [mem io ''creekd.service'' data] else []
      | _ \<Rightarrow> [])"

lemma writeTarFile_Inr: "writeTarFile io n data acc = Inr ms \<longleftrightarrow> (\<exists>ms0. acc = Inr ms0 \<and> bi_member io n \<and> ms = ms0 @ [mem io n data])"
  by (auto simp: writeTarFile_def mem_def split: sum.splits)

lemma write_entries_Inl: "write_entries io p es (Inl e) = Inl e"
  by (induction es) auto

lemma write_entries_Inr:
  "write_entries io p es acc = Inr ms \<Longrightarrow>
     \<exists>ms0. acc = Inr ms0 \<and> ms = ms0 @ map (\<lambda>(n, isDir, r). mem io (p @ n) (data_of r)) (filter (\<lambda>(n, isDir, r). \<not> isDir) es)"
proof (induction io p es acc rule: write_entries.induct)
  case (2 io p name isDir r es acc)
  then show ?case
    by (cases acc; cases r) (auto simp: writeTarFile_Inr data_of_def split: if_splits)
qed simp

lemma writeTarDir_Inr:
  "writeTarDir io p r acc = Inr ms \<Longrightarrow>
     \<exists>ms0. acc = Inr ms0 \<and>
       ms = ms0 @ (case r of DirOk es \<Rightarrow> map (\<lambda>(n, isDir, r). mem io (p @ n) (data_of r)) (plain_entries es) | _ \<Rightarrow> [])"
  by (cases acc; cases r) (auto simp: writeTarDir_def plain_entries_def dest: write_entries_Inr)

lemma writeTarMaybe_Inr:
  "writeTarMaybe io n r acc = Inr ms \<Longrightarrow>
     \<exists>ms0. acc = Inr ms0 \<and> ms = ms0 @ (case r of ReadOk data \<Rightarrow> [mem io n data] | _ \<Rightarrow> [])"
  by (cases acc; cases r) (auto simp: writeTarMaybe_def writeTarFile_Inr)

lemma write_members_Inr:
  assumes "write_members opts io st wal aud mj = Inr ms"
  shows "ms = [mem io ''state.json'' st] @ (if wal \<noteq> [] then [mem io ''state.json.wal'' wal] else []) @
    (if aud \<noteq> [] then [mem io ''audit.log'' aud] else []) @ extra_members opts io @ [mem io ''MANIFEST.json'' mj]"
  using assms
  by (auto simp: write_members_def Let_def writeTarFile_Inr extra_members_def dest!: writeTarDir_Inr writeTarMaybe_Inr
      split: if_splits dir_result.splits read_result.splits)

lemma read_extras:
  "(\<forall>x \<in> set xs. tm_Name x \<notin> {''state.json'', ''state.json.wal'', ''audit.log'', ''MANIFEST.json''}) \<Longrightarrow>
     read_members c (xs @ ys) r = read_members c ys (r\<lparr>re_extras := fold (\<lambda>x. gm_set (tm_Name x) (tm_Data x)) xs (re_extras r)\<rparr>)"
  by (induction xs arbitrary: r) auto

lemma extra_names:
  "x \<in> set (extra_members opts io) \<Longrightarrow> tm_Name x \<notin> {''state.json'', ''state.json.wal'', ''audit.log'', ''MANIFEST.json''}"
  by (auto simp: extra_members_def mem_def split: dir_result.splits read_result.splits if_splits)

lemma ReadArtifact_write_members:
  assumes "write_members opts io st wal aud (cr_MarshalIndent c m) = Inr ms"
    and "cr_Unmarshal c zero_manifest (cr_MarshalIndent c m) = Some m"
  shows "ReadArtifact c (Some (BFile ms True)) =
    Inr \<lparr>re_state = Some st, re_wal = wal, re_audit = aud, re_manifest = Some m,
         re_extras = fold (\<lambda>x. gm_set (tm_Name x) (tm_Data x)) (extra_members opts io) []\<rparr>"
  using write_members_Inr [OF assms(1)] assms(2) read_extras [OF ballI [OF extra_names]]
  by (auto simp: ReadArtifact_def mem_def)

lemma SignManifest_content: "SignManifest c m (Some k) = Inr m' \<Longrightarrow> bk_ContentHash m' = bk_ContentHash m"
  by (auto simp: SignManifest_def Let_def split: if_splits)

lemma SignManifest_verifies:
  assumes "SignManifest c m (Some k) = Inr m'"
    and "hk_Pub k = drop 32 (hk_Priv k)" and "hk_Fingerprint k = fingerprintPub c (hk_Pub k)"
    and "cr_Verify c (hk_Pub k) (signableBytes c m') (cr_Sign c (hk_Priv k) (signableBytes c m'))"
    and "cr_Sign c (hk_Priv k) (signableBytes c m') \<noteq> []"
  shows "VerifyManifest c m' (hk_Pub k) = None"
proof -
  let ?m1 = "m\<lparr>bk_SignedBy := ''host-key-fingerprint:'' @ hk_Fingerprint k\<rparr>"
  have len: "length (hk_Priv k) = 64" and m': "m' = ?m1\<lparr>bk_Signature := sigPrefix @ EncodeToString (cr_Sign c (hk_Priv k) (signableBytes c ?m1))\<rparr>"
    using assms(1) by (auto simp: SignManifest_def Let_def split: if_splits)
  have pay: "signableBytes c ?m1 = signableBytes c m'" by (simp add: m' signableBytes_def)
  have ne: "EncodeToString s \<noteq> []" if "s \<noteq> []" for s using that by (cases s rule: EncodeToString.cases) (simp_all add: Let_def)
  show ?thesis
    using assms(2-5) len unfolding pay [symmetric]
    by (simp add: VerifyManifest_def m' DecodeString_EncodeToString ne signableBytes_def)
qed

section \<open>What pruning keeps\<close>

definition keep_of :: "Tier0Options \<Rightarrow> int" where
  "keep_of opts = (if bo_Keep opts = 0 then Tier0Keep else bo_Keep opts)"

lemma prune_loop_Inr:
  "prune_loop io dir ns p d = (Inr p', d') \<Longrightarrow> gm_get d' = (\<lambda>n. if n \<in> set ns then None else gm_get d n) \<and> (gm_ok d \<longrightarrow> gm_ok d')"
  by (induction io dir ns p d rule: prune_loop.induct) (auto split: if_splits)

lemma artifacts_mem: "gm_ok d \<Longrightarrow> n \<in> set (artifacts d) \<longleftrightarrow> (\<exists>e. gm_get d n = Some e \<and> is_artifact (n, e))"
  by (force simp: artifacts_def dest: gm_in_get gm_get_in)

lemma artifacts_distinct: "gm_ok d \<Longrightarrow> distinct (artifacts d)"
  by (simp add: artifacts_def gm_ok_def distinct_map_filter)

text \<open>A prune that succeeds removes the first names of the sorted list and nothing else.\<close>

lemma pruneOldest_Inr:
  assumes "pruneOldest io dir keep d = (Inr p, d')" and "gm_ok d"
  defines "k \<equiv> nat (int (length (artifacts d)) - keep)"
  shows "gm_ok d'" and "gm_get d' = (\<lambda>n. if n \<in> set (take k (sort (artifacts d))) then None else gm_get d n)"
    and "set (artifacts d') = set (drop k (sort (artifacts d)))"
proof -
  let ?L = "sort (artifacts d)"
  have g: "gm_ok d' \<and> gm_get d' = (\<lambda>n. if n \<in> set (take k ?L) then None else gm_get d n)"
    using assms(1,2) prune_loop_Inr by (fastforce simp: pruneOldest_def Let_def k_def split: if_splits)
  then show "gm_ok d'" and "gm_get d' = (\<lambda>n. if n \<in> set (take k ?L) then None else gm_get d n)" by auto
  have "distinct ?L" using artifacts_distinct [OF assms(2)] by simp
  then have dis: "set (take k ?L) \<inter> set (drop k ?L) = {}" by (metis append_take_drop_id distinct_append)
  have un: "set (take k ?L) \<union> set (drop k ?L) = set (artifacts d)" by (metis append_take_drop_id set_append set_sort)
  have "n \<in> set (artifacts d') \<longleftrightarrow> n \<in> set (artifacts d) \<and> n \<notin> set (take k ?L)" for n
    using g artifacts_mem [OF assms(2), of n] artifacts_mem [of d' n] by auto
  then have "set (artifacts d') = set (artifacts d) - set (take k ?L)" by blast
  then show "set (artifacts d') = set (drop k ?L)" using un dis by blast
qed

lemma sorted_cut: "sorted (xs :: string list) \<Longrightarrow> distinct xs \<Longrightarrow> x \<in> set (take k xs) \<Longrightarrow> y \<in> set (drop k xs) \<Longrightarrow> x < y"
  by (metis append_take_drop_id disjoint_iff distinct_append order_le_less sorted_append)

lemma sorted_max_last:
  assumes "x \<in> set (xs :: string list)" and "\<forall>y \<in> set xs. y \<noteq> x \<longrightarrow> y < x" and "k < length xs" and "distinct xs"
  shows "x \<in> set (drop k (sort xs))"
proof (rule ccontr)
  assume n: "x \<notin> set (drop k (sort xs))"
  have "drop k (sort xs) \<noteq> []" using assms(3) by simp
  then obtain y where y: "y \<in> set (drop k (sort xs))" by (meson last_in_set)
  have "x \<in> set (take k (sort xs))" using n assms(1) by (metis Un_iff append_take_drop_id set_append set_sort)
  then have "x < y" using sorted_cut [of "sort xs" x k y] y assms(4) by simp
  moreover have "y \<in> set xs" using y by (metis in_set_dropD set_sort)
  ultimately show False using assms(2) by auto
qed

lemma WriteTier0_Inr:
  assumes "WriteTier0 c io opts d = (Inr res, d')"
  obtains opts1 k st wal aud tip ms where
    "validateOptions (bi_mkdir io) opts = Inr opts1" "bo_HostKey opts = Some k" "bo_Keep opts1 = keep_of opts"
    "0 < keep_of opts" "bo_ACMEDir opts1 = bo_ACMEDir opts" "bo_SystemdUnitPath opts1 = bo_SystemdUnitPath opts"
    "bi_state io = ReadOk st" "readOptional (bi_wal io) = Some wal"
    "readAuditLog c (bi_audit io) = Some (aud, tip)"
    "SignManifest c (tier0_manifest c opts1 k (bi_now io) st wal aud tip) (Some k) = Inr (br_Manifest res)"
    "write_members opts1 io st wal aud (cr_MarshalIndent c (br_Manifest res)) = Inr ms"
    "pruneOldest io (bo_BackupDir opts1) (keep_of opts)
       (gm_set (artifactName (bi_now io)) (BFile ms True) (gm_del (artifactName (bi_now io) @ ''.tmp'') d)) = (Inr (br_Pruned res), d')"
proof -
  obtain opts1 where v: "validateOptions (bi_mkdir io) opts = Inr opts1"
    using assms by (cases "validateOptions (bi_mkdir io) opts") (auto simp: WriteTier0_def)
  then have o: "bo_Keep opts1 = keep_of opts" "0 < keep_of opts" "bo_ACMEDir opts1 = bo_ACMEDir opts"
    "bo_SystemdUnitPath opts1 = bo_SystemdUnitPath opts" "bo_HostKey opts1 = bo_HostKey opts"
    by (auto simp: validateOptions_def keep_of_def Tier0Keep_def Let_def split: if_splits)
  note run = assms [unfolded WriteTier0_def v sum.case]
  from run obtain st where st: "bi_state io = ReadOk st" by (cases "bi_state io") auto
  from run st obtain wal where wal: "readOptional (bi_wal io) = Some wal" by (cases "readOptional (bi_wal io)") auto
  from run st wal obtain aud tip where aud: "readAuditLog c (bi_audit io) = Some (aud, tip)"
    by (cases "readAuditLog c (bi_audit io)") auto
  from run st wal aud obtain k where k: "bo_HostKey opts1 = Some k" by (cases "bo_HostKey opts1") auto
  from run st wal aud k obtain m where m: "SignManifest c (tier0_manifest c opts1 k (bi_now io) st wal aud tip) (Some k) = Inr m"
    by (cases "SignManifest c (tier0_manifest c opts1 k (bi_now io) st wal aud tip) (Some k)") auto
  let ?w = "writeArtifact opts1 io (artifactName (bi_now io)) st wal aud (cr_MarshalIndent c m) d"
  obtain e d1 where w: "?w = (e, d1)" by (metis surj_pair)
  obtain r d2 where p: "pruneOldest io (bo_BackupDir opts1) (bo_Keep opts1) d1 = (r, d2)" by (metis surj_pair)
  note run' = run [unfolded st wal aud k m Let_def read_result.case option.case sum.case prod.case w p]
  from run' have res: "e = None" "d2 = d'" "r = Inr (br_Pruned res)" "br_Manifest res = m"
    by (auto split: option.splits sum.splits)
  from w res(1) obtain ms where "write_members opts1 io st wal aud (cr_MarshalIndent c m) = Inr ms"
    "d1 = gm_set (artifactName (bi_now io)) (BFile ms True) (gm_del (artifactName (bi_now io) @ ''.tmp'') d)"
    by (auto simp: writeArtifact_def closeTmp_def Let_def split: sum.splits if_splits)
  moreover have "bo_HostKey opts = Some k" using o(5) k by simp
  ultimately show thesis using that [OF v _ _ o(2) _ _ st wal aud, of k ms] o(1,3,4) m p res by simp
qed

text \<open>Every earlier archive in the directory is named after an earlier time.\<close>

definition older_than :: "int \<Rightarrow> bdir \<Rightarrow> bool" where
  "older_than now d \<longleftrightarrow> (\<forall>n \<in> set (artifacts d). \<exists>t. 0 \<le> t \<and> t < now \<and> n = artifactName t)"

lemma older_less: "older_than now d \<Longrightarrow> now < 2 ^ 63 \<Longrightarrow> n \<in> set (artifacts d) \<Longrightarrow> n < artifactName now"
  using artifactName_less unfolding older_than_def by fastforce

lemma artifactName_is: "is_artifact (artifactName t, BFile ms b)" "\<not> is_artifact (artifactName t @ ''.tmp'', e)"
proof -
  have "HasSuffix (artifactName t) ''.tar.gz''" unfolding HasSuffix_iff artifactName_def by (metis append.assoc)
  then show "is_artifact (artifactName t, BFile ms b)" by (simp add: is_artifact_def artifactName_def HasPrefix_def)
  show "\<not> is_artifact (artifactName t @ ''.tmp'', e)" by (simp add: is_artifact_def HasSuffix_def artifactName_def)
qed

text \<open>The directory after the rename and before the pruning.\<close>

lemma artifacts_added:
  assumes "gm_ok d"
  shows "set (artifacts (gm_set (artifactName t) (BFile ms True) (gm_del (artifactName t @ ''.tmp'') d))) =
    insert (artifactName t) (set (artifacts d))" (is "set (artifacts ?d1) = _")
proof -
  have ok: "gm_ok ?d1" using assms by auto
  have "n \<in> set (artifacts ?d1) \<longleftrightarrow> n = artifactName t \<or> n \<in> set (artifacts d)" for n
    unfolding artifacts_mem [OF ok] artifacts_mem [OF assms] using artifactName_is by auto
  then show ?thesis by blast
qed

lemma extras_found:
  assumes "bo_ACMEDir opts \<noteq> []" and "bi_acme io = DirOk es" and "distinct (map fst es)" and "(f, False, ReadOk data) \<in> set es"
  shows "gm_get (fold (\<lambda>x. gm_set (tm_Name x) (tm_Data x)) (extra_members opts io) []) (''acme/'' @ f) = Some data"
proof -
  let ?xs = "map (\<lambda>(n, isDir, r). mem io (''acme/'' @ n) (data_of r)) (plain_entries es)"
  let ?us = "case bi_unit io of ReadOk data \<Rightarrow> if bo_SystemdUnitPath opts \<noteq> [] then [mem io ''creekd.service'' data] else [] | _ \<Rightarrow> []"
  have x: "extra_members opts io = ?xs @ ?us" using assms(1,2) by (simp add: extra_members_def)
  have us: "\<forall>u \<in> set ?us. tm_Name u = ''creekd.service''" by (cases "bi_unit io") (simp_all add: mem_def)
  have "distinct (map fst (sort_key fst es))" using assms(3) by (metis distinct_map distinct_sort set_sort)
  then have "distinct (map fst (plain_entries es))" by (simp add: plain_entries_def distinct_map_filter)
  moreover have "map tm_Name ?xs = map (\<lambda>n. ''acme/'' @ n) (map fst (plain_entries es))" by (auto simp: mem_def)
  ultimately have d: "distinct (map tm_Name ?xs)" by (simp add: distinct_map inj_on_def)
  have "(f, False, ReadOk data) \<in> set (plain_entries es)" using assms(4) by (simp add: plain_entries_def)
  then have "mem io (''acme/'' @ f) (data_of (ReadOk data)) \<in> set ?xs" unfolding list.set_map by (rule rev_image_eqI) simp
  from gm_get_fold_set [OF d this, of tm_Data "[]"]
  have found: "gm_get (fold (\<lambda>x. gm_set (tm_Name x) (tm_Data x)) ?xs []) (''acme/'' @ f) = Some data"
    unfolding mem_sel data_of_def read_result.case .
  have "''acme/'' @ f \<notin> tm_Name ` set ?us"
  proof
    assume "''acme/'' @ f \<in> tm_Name ` set ?us"
    then obtain u where "u \<in> set ?us" "''acme/'' @ f = tm_Name u" by (rule imageE)
    with us have "''acme/'' @ f = ''creekd.service''" by metis
    then show False by simp
  qed
  then have "gm_get (fold (\<lambda>x. gm_set (tm_Name x) (tm_Data x)) ?us m) (''acme/'' @ f) = gm_get m (''acme/'' @ f)" for m
    by (rule gm_get_fold_set_notin)
  then show ?thesis unfolding x using found by (simp only: fold_append o_apply)
qed

lemma pruned_dir:
  assumes "pruneOldest io dir keep (gm_set (artifactName now) (BFile ms True) (gm_del (artifactName now @ ''.tmp'') d)) = (Inr p, d')"
    and "0 < keep" and "gm_ok d" and "older_than now d" and "now < 2 ^ 63"
  shows "int (card (set (artifacts d'))) = min keep (int (card (set (artifacts d))) + 1)"
    and "artifactName now \<in> set (artifacts d')"
    and "\<And>n m. n \<in> set (artifacts d) \<Longrightarrow> n \<notin> set (artifacts d') \<Longrightarrow> m \<in> set (artifacts d') \<Longrightarrow> n < m"
    and "\<And>n. n \<noteq> artifactName now \<Longrightarrow> n \<noteq> artifactName now @ ''.tmp'' \<Longrightarrow> n \<notin> set (artifacts d) - set (artifacts d') \<Longrightarrow>
      gm_get d' n = gm_get d n"
    and "gm_get d' (artifactName now) = Some (BFile ms True)"
proof -
  let ?d1 = "gm_set (artifactName now) (BFile ms True) (gm_del (artifactName now @ ''.tmp'') d)"
  let ?L = "artifacts ?d1"
  define k where "k = nat (int (length ?L) - keep)"
  have ok: "gm_ok ?d1" using assms(3) by auto
  note pr = pruneOldest_Inr [OF assms(1) ok, folded k_def]
  have set1: "set ?L = insert (artifactName now) (set (artifacts d))" by (rule artifacts_added [OF assms(3)])
  have dis: "distinct ?L" by (rule artifacts_distinct [OF ok])
  have new: "artifactName now \<notin> set (artifacts d)" using older_less [OF assms(4,5)] by blast
  then have len: "length ?L = card (set (artifacts d)) + 1" using distinct_card [OF dis] set1 by simp
  have "card (set (drop k (sort ?L))) = length ?L - k" using dis by (simp add: distinct_card)
  then show "int (card (set (artifacts d'))) = min keep (int (card (set (artifacts d))) + 1)"
    using pr(3) len assms(2) by (auto simp: k_def)
  have "k < length ?L" using assms(2) len by (auto simp: k_def)
  with sorted_max_last [OF _ _ this dis, of "artifactName now"] older_less [OF assms(4,5)] set1
  show n: "artifactName now \<in> set (artifacts d')" using pr(3) by auto
  have cut: "x \<in> set (take k (sort ?L))" if "x \<in> set ?L" "x \<notin> set (artifacts d')" for x
    using that pr(3) by (metis Un_iff append_take_drop_id set_append set_sort)
  show "n < m" if "n \<in> set (artifacts d)" "n \<notin> set (artifacts d')" "m \<in> set (artifacts d')" for n m
    using cut [of n] that set1 pr(3) sorted_cut [of "sort ?L" n k m] dis by auto
  have gone: "x \<in> set ?L \<and> x \<notin> set (artifacts d')" if "x \<in> set (take k (sort ?L))" for x
    using that pr(3) sorted_cut [of "sort ?L" x k x] dis by (auto dest: in_set_takeD)
  show "gm_get d' n = gm_get d n" if "n \<noteq> artifactName now" "n \<noteq> artifactName now @ ''.tmp''" "n \<notin> set (artifacts d) - set (artifacts d')" for n
    using that gone [of n] set1 pr(2) by auto
  show "gm_get d' (artifactName now) = Some (BFile ms True)" using pr(2) gone n by auto
qed

section \<open>Properties\<close>

text \<open>
  C32: A backup can be restored and its manifest verifies. When \<open>WriteTier0\<close> returns a result and every
  archive already present is named after an earlier time, the directory holds the new archive; reading
  it gives back the state, the write-ahead log and the audit log that were read, the ACME files, and the
  manifest of the result, whose content hash is that of the three files and whose signature verifies under the
  public half of the host key. Ed25519 and the JSON round trip are hypotheses about this manifest. The
  copy of \<open>creekd.service\<close> that the archive may hold besides is not part of the claim.
\<close>

theorem backup_roundtrip:
  assumes "WriteTier0 c io opts d = (Inr res, d')"
    and "gm_ok d" and "older_than (bi_now io) d" and "bi_now io < 2 ^ 63"
    and "bo_HostKey opts = Some k" and "hk_Pub k = drop 32 (hk_Priv k)" and "hk_Fingerprint k = fingerprintPub c (hk_Pub k)"
    and "cr_Unmarshal c zero_manifest (cr_MarshalIndent c (br_Manifest res)) = Some (br_Manifest res)"
    and "cr_Verify c (hk_Pub k) (signableBytes c (br_Manifest res)) (cr_Sign c (hk_Priv k) (signableBytes c (br_Manifest res)))"
    and "cr_Sign c (hk_Priv k) (signableBytes c (br_Manifest res)) \<noteq> []"
  shows "\<exists>r st. ReadArtifact c (gm_get d' (artifactName (bi_now io))) = Inr r \<and>
    bi_state io = ReadOk st \<and> re_state r = Some st \<and> readOptional (bi_wal io) = Some (re_wal r) \<and>
    map_option fst (readAuditLog c (bi_audit io)) = Some (re_audit r) \<and>
    re_manifest r = Some (br_Manifest res) \<and> VerifyManifest c (br_Manifest res) (hk_Pub k) = None \<and>
    bk_ContentHash (br_Manifest res) = hashContent c st (re_wal r) (re_audit r) \<and>
    (\<forall>es f data. bo_ACMEDir opts \<noteq> [] \<and> bi_acme io = DirOk es \<and> distinct (map fst es) \<and> (f, False, ReadOk data) \<in> set es \<longrightarrow>
       gm_get (re_extras r) (''acme/'' @ f) = Some data)"
proof -
  let ?n = "artifactName (bi_now io)"
  obtain opts1 k' st wal aud tip ms where w: "bo_HostKey opts = Some k'" "0 < keep_of opts" "bo_ACMEDir opts1 = bo_ACMEDir opts"
      "bi_state io = ReadOk st" "readOptional (bi_wal io) = Some wal" "readAuditLog c (bi_audit io) = Some (aud, tip)"
      "SignManifest c (tier0_manifest c opts1 k' (bi_now io) st wal aud tip) (Some k') = Inr (br_Manifest res)"
      "write_members opts1 io st wal aud (cr_MarshalIndent c (br_Manifest res)) = Inr ms"
      "pruneOldest io (bo_BackupDir opts1) (keep_of opts) (gm_set ?n (BFile ms True) (gm_del (?n @ ''.tmp'') d)) = (Inr (br_Pruned res), d')"
    by (rule WriteTier0_Inr [OF assms(1)]) blast
  have k: "k' = k" using w(1) assms(5) by simp
  have f: "gm_get d' ?n = Some (BFile ms True)" by (rule pruned_dir(5) [OF w(9,2) assms(2-4)])
  note r = ReadArtifact_write_members [OF w(8) assms(8)]
  have v: "VerifyManifest c (br_Manifest res) (hk_Pub k) = None"
    using SignManifest_verifies [OF w(7) [unfolded k] assms(6,7,9,10)] .
  have h: "bk_ContentHash (br_Manifest res) = hashContent c st wal aud"
    using SignManifest_content [OF w(7)] by (simp add: tier0_manifest_def Let_def)
  have a: "map_option fst (readAuditLog c (bi_audit io)) = Some aud" using w(6) by simp
  show ?thesis
    unfolding f r using w(3,4,5) a v h extras_found [of opts1 io] by (intro exI [of _ "_ :: restored"] exI [of _ st]) auto
qed

text \<open>
  A concrete run with a stand-in signature scheme: the signature of a message is the message with the seed in
  front, and the indented JSON of a manifest is its signature field.
\<close>

definition demo_key :: HostKey where
  "demo_key = \<lparr>hk_Priv = replicate 64 (CHR ''k''), hk_Pub = replicate 32 (CHR ''k''), hk_Fingerprint = ''sha256:ff''\<rparr>"

definition demo_opts :: Tier0Options where
  "demo_opts = \<lparr>bo_StateDir = ''/s'', bo_BackupDir = ''/b'', bo_ACMEDir = ''/a'', bo_SystemdUnitPath = [], bo_CreekdVersion = ''1'',
     bo_SchemaVersion = 3, bo_Keep = 1, bo_HostKey = Some demo_key\<rparr>"

definition demo_signed :: BManifest where
  "demo_signed = \<lparr>bk_CreekdVersion = ''1'', bk_SchemaVersion = 3, bk_BackupTimestamp = ''now'', bk_AuditLogTipHash = ''none'',
     bk_FleetCAFingerprint = ''sha256:ff'', bk_ContentHash = ''sha256:ff'', bk_Files = [(''state.json'', ''sha256:ff'')],
     bk_SignedBy = ''host-key-fingerprint:sha256:ff'', bk_Signature = ''ed25519:c2ln''\<rparr>"

definition demo_crypto :: crypto where
  "demo_crypto = \<lparr>cr_sha256 = \<lambda>_. ''ff'', cr_Sign = \<lambda>_ _. ''sig'', cr_Verify = \<lambda>_ _ s. s = ''sig'', cr_Marshal = bk_ContentHash,
     cr_MarshalIndent = bk_Signature, cr_Unmarshal = \<lambda>_ s. if s = bk_Signature demo_signed then Some demo_signed else None,
     cr_RFC3339 = \<lambda>_. ''now''\<rparr>"

definition demo_bio :: backup_io where
  "demo_bio = \<lparr>bi_mkdir = True, bi_state = ReadOk ''{}'', bi_wal = ReadMissing, bi_audit = ReadMissing, bi_now = 20, bi_mtime = 21,
     bi_acme = DirOk [(''cert'', False, ReadOk ''pem'')], bi_unit = ReadMissing, bi_open = True, bi_member = \<lambda>_. True,
     bi_tarClose = True, bi_gzClose = True, bi_sync = True, bi_close = True, bi_rename = True, bi_removeTmp = True,
     bi_readdir = True, bi_remove = \<lambda>_. True\<rparr>"

definition demo_bdir :: bdir where
  "demo_bdir = [(artifactName 9, BFile [] True), (''notes'', BDir)]"

definition demo_res :: Tier0Result where
  "demo_res = \<lparr>br_ArtifactPath = Join ''/b'' (artifactName 20), br_Manifest = demo_signed, br_Pruned = [Join ''/b'' (artifactName 9)]\<rparr>"

definition demo_after :: bdir where
  "demo_after = snd (WriteTier0 demo_crypto demo_bio demo_opts demo_bdir)"

lemma demo_sig: "EncodeToString ''sig'' = ''c2ln''"
  by (simp add: Let_def b64_char_def b64_alphabet_def)

lemma demo_Sign:
  "SignManifest demo_crypto (tier0_manifest demo_crypto demo_opts demo_key 20 ''{}'' [] [] ''none'') (Some demo_key) = Inr demo_signed"
  by (simp add: SignManifest_def tier0_manifest_def demo_crypto_def demo_opts_def demo_key_def demo_signed_def hashOne_def
      hashContent_def sigPrefix_def demo_sig del: EncodeToString.simps)

definition demo_members :: "tarmember list" where
  "demo_members = [mem demo_bio ''state.json'' ''{}'', mem demo_bio ''acme/cert'' ''pem'', mem demo_bio ''MANIFEST.json'' ''ed25519:c2ln'']"

lemma demo_write: "write_members demo_opts demo_bio ''{}'' [] [] ''ed25519:c2ln'' = Inr demo_members"
  by (simp add: write_members_def demo_opts_def demo_bio_def writeTarFile_def writeTarDir_def demo_members_def mem_def)

lemma demo_oks: "bi_open demo_bio" "bi_tarClose demo_bio" "bi_gzClose demo_bio" "bi_sync demo_bio" "bi_close demo_bio" "bi_rename demo_bio"
  by (simp_all add: demo_bio_def)

lemma demo_names: "artifactName 9 < artifactName 20" "artifactName 9 \<noteq> ''notes''" "artifactName 20 \<noteq> ''notes''"
  "artifactName 20 @ ''.tmp'' \<noteq> ''notes''" "artifactName 20 @ ''.tmp'' \<noteq> artifactName 9"
proof -
  show "artifactName 9 < artifactName 20" by (simp add: artifactName_less)
  have "length (artifactName n) = 32" if "0 \<le> n" "n < 2 ^ 63" for n using pad19_props(1) [OF that] by (simp add: artifactName_def)
  then have "length (artifactName 9) = 32" "length (artifactName 20) = 32" by simp_all
  then show "artifactName 20 @ ''.tmp'' \<noteq> artifactName 9" by (metis length_append add_cancel_right_right list.size(3) length_0_conv list.distinct(1))
qed (simp_all add: artifactName_def)

lemma demo_run: "WriteTier0 demo_crypto demo_bio demo_opts demo_bdir = (Inr demo_res, demo_after)"
proof -
  define a b where "a = artifactName 9" and "b = artifactName 20"
  note n = demo_names [folded a_def b_def]
  have art: "is_artifact (a, BFile ms True)" "is_artifact (b, BFile ms True)" for ms unfolding a_def b_def by (rule artifactName_is)+
  have "writeArtifact demo_opts demo_bio b ''{}'' [] [] ''ed25519:c2ln'' demo_bdir =
      (None, gm_set b (BFile demo_members True) (gm_del (b @ ''.tmp'') demo_bdir))"
    using demo_oks by (simp add: writeArtifact_def demo_write)
  moreover have "gm_set b (BFile demo_members True) (gm_del (b @ ''.tmp'') demo_bdir) =
      [(a, BFile [] True), (''notes'', BDir), (b, BFile demo_members True)]"
    using n by (auto simp: demo_bdir_def a_def [symmetric])
  moreover have "artifacts [(a, BFile [] True), (''notes'', BDir), (b, BFile demo_members True)] = [a, b]"
    using art by (simp add: artifacts_def is_artifact_def [of "(''notes'', BDir)"])
  then obtain dd where "pruneOldest demo_bio ''/b'' 1 [(a, BFile [] True), (''notes'', BDir), (b, BFile demo_members True)] = (Inr [Join ''/b'' a], dd)"
    using n less_imp_le [OF n(1)] by (simp add: pruneOldest_def demo_bio_def)
  moreover have "validateOptions (bi_mkdir demo_bio) demo_opts = Inr demo_opts"
    by (simp add: validateOptions_def demo_opts_def demo_bio_def)
  moreover have "bi_state demo_bio = ReadOk ''{}''" "readOptional (bi_wal demo_bio) = Some []" "bi_now demo_bio = 20"
      "readAuditLog demo_crypto (bi_audit demo_bio) = Some ([], ''none'')"
    by (simp_all add: demo_bio_def readOptional_def readAuditLog_def)
  moreover have "bo_HostKey demo_opts = Some demo_key" "bo_BackupDir demo_opts = ''/b''" "bo_Keep demo_opts = 1"
      "cr_MarshalIndent demo_crypto demo_signed = ''ed25519:c2ln''"
    by (simp_all add: demo_opts_def demo_crypto_def demo_signed_def)
  ultimately have "fst (WriteTier0 demo_crypto demo_bio demo_opts demo_bdir) = Inr demo_res"
    using demo_Sign unfolding b_def a_def by (simp add: WriteTier0_def demo_res_def Let_def)
  then show ?thesis by (simp add: demo_after_def prod_eq_iff)
qed

lemma demo_older: "gm_ok demo_bdir" "older_than (bi_now demo_bio) demo_bdir" "bi_now demo_bio < 2 ^ 63"
proof -
  have "artifactName 9 \<noteq> ''notes''" by (simp add: artifactName_def)
  then show "gm_ok demo_bdir" by (simp add: gm_ok_def demo_bdir_def)
  have "artifacts demo_bdir = [artifactName 9]"
    using artifactName_is(1) [of 9 "[]" True] by (simp add: demo_bdir_def artifacts_def is_artifact_def [of "(n, BDir)" for n])
  then show "older_than (bi_now demo_bio) demo_bdir" unfolding older_than_def demo_bio_def by (auto intro: exI [of _ 9])
  show "bi_now demo_bio < 2 ^ 63" by (simp add: demo_bio_def)
qed

theorem backup_roundtrip_witness:
  "\<exists>r st. ReadArtifact demo_crypto (gm_get demo_after (artifactName 20)) = Inr r \<and> re_state r = Some st \<and> st = ''{}'' \<and>
     re_manifest r = Some demo_signed \<and> VerifyManifest demo_crypto demo_signed (hk_Pub demo_key) = None \<and>
     gm_get (re_extras r) (''acme/'' @ ''cert'') = Some ''pem''"
proof -
  have h: "bo_HostKey demo_opts = Some demo_key" "hk_Pub demo_key = drop 32 (hk_Priv demo_key)"
    "hk_Fingerprint demo_key = fingerprintPub demo_crypto (hk_Pub demo_key)"
    "cr_Unmarshal demo_crypto zero_manifest (cr_MarshalIndent demo_crypto (br_Manifest demo_res)) = Some (br_Manifest demo_res)"
    "cr_Verify demo_crypto (hk_Pub demo_key) (signableBytes demo_crypto (br_Manifest demo_res))
       (cr_Sign demo_crypto (hk_Priv demo_key) (signableBytes demo_crypto (br_Manifest demo_res)))"
    "cr_Sign demo_crypto (hk_Priv demo_key) (signableBytes demo_crypto (br_Manifest demo_res)) \<noteq> []"
    by (simp_all add: demo_opts_def demo_key_def demo_crypto_def demo_res_def fingerprintPub_def drop_replicate)
  have n: "bi_now demo_bio = 20" "bi_state demo_bio = ReadOk ''{}''" "br_Manifest demo_res = demo_signed" "bo_ACMEDir demo_opts \<noteq> []"
    "bi_acme demo_bio = DirOk [(''cert'', False, ReadOk ''pem'')]"
    by (simp_all add: demo_bio_def demo_res_def demo_opts_def)
  obtain r where r: "ReadArtifact demo_crypto (gm_get demo_after (artifactName 20)) = Inr r" "re_state r = Some ''{}''"
      "re_manifest r = Some demo_signed" "VerifyManifest demo_crypto demo_signed (hk_Pub demo_key) = None"
      "\<And>es f data. bi_acme demo_bio = DirOk es \<Longrightarrow> distinct (map fst es) \<Longrightarrow> (f, False, ReadOk data) \<in> set es \<Longrightarrow>
         gm_get (re_extras r) (''acme/'' @ f) = Some data"
    using backup_roundtrip [OF demo_run demo_older h, unfolded n(1-3) read_result.inject] n(4) by blast
  have "gm_get (re_extras r) (''acme/'' @ ''cert'') = Some ''pem''" by (rule r(5) [OF n(5)]) simp_all
  then show ?thesis using r(1-4) by blast
qed

text \<open>
  C33: Retention. A successful \<open>WriteTier0\<close> in a directory whose archives are all named after earlier times
  (the clock was not set back) leaves exactly as many archives as configured (168 by default) or all of them if there are fewer, the new one among
  them; the removed ones are older than every kept one, and no other entry of the directory changes.
\<close>

theorem backup_retention:
  assumes "WriteTier0 c io opts d = (Inr res, d')"
    and "gm_ok d" and "older_than (bi_now io) d" and "bi_now io < 2 ^ 63"
  shows "int (card (set (artifacts d'))) = min (keep_of opts) (int (card (set (artifacts d))) + 1) \<and>
    artifactName (bi_now io) \<in> set (artifacts d') \<and>
    (\<forall>t u. 0 \<le> t \<and> 0 \<le> u \<and> u < 2 ^ 63 \<and> artifactName t \<in> set (artifacts d) - set (artifacts d') \<and>
       artifactName u \<in> set (artifacts d') \<and> t < 2 ^ 63 \<longrightarrow> t < u) \<and>
    (\<forall>n. n \<noteq> artifactName (bi_now io) \<and> n \<noteq> artifactName (bi_now io) @ ''.tmp'' \<and> n \<notin> set (artifacts d) - set (artifacts d') \<longrightarrow>
       gm_get d' n = gm_get d n)"
proof -
  let ?n = "artifactName (bi_now io)"
  obtain opts1 :: Tier0Options and ms where w: "0 < keep_of opts"
      "pruneOldest io (bo_BackupDir opts1) (keep_of opts) (gm_set ?n (BFile ms True) (gm_del (?n @ ''.tmp'') d)) = (Inr (br_Pruned res), d')"
    by (rule WriteTier0_Inr [OF assms(1)]) blast
  note pd = pruned_dir [OF w(2,1) assms(2-4)]
  have "t < u" if "0 \<le> t" "0 \<le> u" "u < 2 ^ 63" "t < 2 ^ 63" "artifactName t \<in> set (artifacts d) - set (artifacts d')"
    "artifactName u \<in> set (artifacts d')" for t u
    using artifactName_less [OF that(1,4,2,3)] pd(3) that(5,6) by blast
  then show ?thesis using pd(1,2,4) by blast
qed

theorem backup_retention_witness:
  "artifactName 20 \<in> set (artifacts demo_after) \<and> int (card (set (artifacts demo_after))) = 1 \<and> gm_get demo_after ''notes'' = Some BDir"
proof -
  have n: "bi_now demo_bio = 20" "keep_of demo_opts = 1" "gm_get demo_bdir ''notes'' = Some BDir"
    "''notes'' \<noteq> artifactName 20" "''notes'' \<noteq> artifactName 20 @ ''.tmp''" "''notes'' \<notin> set (artifacts demo_bdir)"
    by (simp_all add: demo_bio_def keep_of_def demo_opts_def demo_bdir_def artifactName_def artifacts_def is_artifact_def)
  have "min 1 (int (card (set (artifacts demo_bdir))) + 1) = 1" by simp
  then show ?thesis using backup_retention [OF demo_run demo_older] n by auto
qed

end
