(* ===== verification/Log_Rotator.thy ===== *)
theory Log_Rotator
  imports Go_Strings
begin

text \<open>
  Per-app logs (internal/logs/rotator.go): the line splitting of the two stream writers, the JSON record per
  line, and the rotation of \<open>current.log\<close> through its numbered backups. A file is the bytes it holds; the
  writer's own state is the open handle and the size it has counted. The clock and the outcomes of the
  system calls are inputs per call of \<open>writeLine\<close>, indexed by the number of calls so far; \<open>enc\<close> is the JSON
  encoding of a record.
\<close>

section \<open>State\<close>

text \<open>
  The handle: closed and nil, open, or closed by a \<open>Close\<close> that returned an error, in which case the
  field keeps pointing at a file every further call of which fails.
\<close>

datatype handle = Nil_handle | Open_handle | Dead_handle

record LogOptions =
  lo_MaxSizeBytes :: int
  lo_MaxBackups :: int

record Rotator =
  ro_appID :: string
  ro_opts :: LogOptions
  ro_file :: handle
  ro_size :: int
  ro_stdout :: string
  ro_stderr :: string
  ro_cur :: "string option"
  ro_bak :: "nat \<Rightarrow> string option"
  ro_calls :: nat

datatype stream = Stdout | Stderr

datatype open_io = OpenOk | OpenFail | StatFail

record line_io =
  li_ts :: string
  li_close :: bool
  li_remove :: bool
  li_shift :: "nat \<Rightarrow> bool"
  li_promote :: bool
  li_open :: open_io
  li_short :: "nat option"

datatype log_error = LogEmptyApp | LogEmptyDir | LogMkdir | LogOpen | LogStat | LogClosed | LogClose | LogShift nat | LogPromote | LogWrite



section \<open>Rotation\<close>

definition openCurrent :: "open_io \<Rightarrow> Rotator \<Rightarrow> log_error option \<times> Rotator" where
  "openCurrent o1 r =
     (let content = (case ro_cur r of Some s \<Rightarrow> s | None \<Rightarrow> []) in
      case o1 of
        OpenFail \<Rightarrow> (Some LogOpen, r)
      | StatFail \<Rightarrow> (Some LogStat, r\<lparr>ro_cur := Some content\<rparr>)
      | OpenOk \<Rightarrow> (None, r\<lparr>ro_cur := Some content, ro_file := Open_handle, ro_size := int (length content)\<rparr>))"

text \<open>The loop over the backups from \<open>MaxBackups - 1\<close> down to 1.\<close>

fun shift_backups :: "line_io \<Rightarrow> nat \<Rightarrow> (nat \<Rightarrow> string option) \<Rightarrow> log_error option \<times> (nat \<Rightarrow> string option)" where
  "shift_backups io 0 b = (None, b)"
| "shift_backups io (Suc i) b =
     (case b (Suc i) of
        None \<Rightarrow> shift_backups io i b
      | Some content \<Rightarrow>
          if \<not> li_shift io (Suc i) then (Some (LogShift (Suc i)), b)
          else shift_backups io i (b(Suc (Suc i) := Some content, Suc i := None)))"

definition rotateLocked :: "line_io \<Rightarrow> Rotator \<Rightarrow> log_error option \<times> Rotator" where
  "rotateLocked io r =
     (if ro_file r = Dead_handle \<or> ro_file r = Open_handle \<and> \<not> li_close io
      then (Some LogClose, r\<lparr>ro_file := Dead_handle\<rparr>)
      else
        let n = nat (lo_MaxBackups (ro_opts r));
            r1 = r\<lparr>ro_file := Nil_handle\<rparr>;
            b0 = (if li_remove io then (ro_bak r1)(n := None) else ro_bak r1)
        in case shift_backups io (n - 1) b0 of
             (Some e, b1) \<Rightarrow> (Some e, r1\<lparr>ro_bak := b1\<rparr>)
           | (None, b1) \<Rightarrow>
               (case ro_cur r1 of
                  None \<Rightarrow> openCurrent (li_open io) (r1\<lparr>ro_bak := b1\<rparr>)
                | Some content \<Rightarrow>
                    if \<not> li_promote io then (Some LogPromote, r1\<lparr>ro_bak := b1\<rparr>)
                    else openCurrent (li_open io) (r1\<lparr>ro_bak := b1(1 := Some content), ro_cur := None\<rparr>)))"

section \<open>Writing\<close>

type_synonym encoder = "string \<Rightarrow> string \<Rightarrow> string \<Rightarrow> string \<Rightarrow> string"

definition stream_name :: "stream \<Rightarrow> string" where
  "stream_name st = (case st of Stdout \<Rightarrow> ''stdout'' | Stderr \<Rightarrow> ''stderr'')"

abbreviation newline :: char where "newline \<equiv> CHR 0x0A"

definition record_bytes :: "encoder \<Rightarrow> string \<Rightarrow> string \<Rightarrow> stream \<Rightarrow> string \<Rightarrow> string" where
  "record_bytes enc ts app st msg = enc ts app (stream_name st) msg @ [newline]"

definition append_line :: "line_io \<Rightarrow> string \<Rightarrow> Rotator \<Rightarrow> log_error option \<times> Rotator" where
  "append_line io buf r =
     (if ro_file r \<noteq> Open_handle then (Some LogWrite, r)
      else case li_short io of
        None \<Rightarrow> (None, r\<lparr>ro_cur := map_option (\<lambda>s. s @ buf) (ro_cur r), ro_size := wrap64 (ro_size r + int (length buf))\<rparr>)
      | Some n \<Rightarrow>
          (Some LogWrite, r\<lparr>ro_cur := map_option (\<lambda>s. s @ take n buf) (ro_cur r),
                            ro_size := wrap64 (ro_size r + int (length (take n buf)))\<rparr>))"

definition writeLine :: "encoder \<Rightarrow> (nat \<Rightarrow> line_io) \<Rightarrow> stream \<Rightarrow> string \<Rightarrow> Rotator \<Rightarrow> log_error option \<times> Rotator" where
  "writeLine enc ios st msg r0 =
     (let io = ios (ro_calls r0);
          r = r0\<lparr>ro_calls := Suc (ro_calls r0)\<rparr>
      in if ro_file r = Nil_handle then (Some LogClosed, r)
         else
           let buf = record_bytes enc (li_ts io) (ro_appID r) st msg in
           if wrap64 (ro_size r + int (length buf)) > lo_MaxSizeBytes (ro_opts r) then
             (case rotateLocked io r of
                (Some e, r1) \<Rightarrow> (Some e, r1)
              | (None, r1) \<Rightarrow> append_line io buf r1)
           else append_line io buf r)"

definition get_buf :: "stream \<Rightarrow> Rotator \<Rightarrow> string" where
  "get_buf st r = (case st of Stdout \<Rightarrow> ro_stdout r | Stderr \<Rightarrow> ro_stderr r)"

definition set_buf :: "stream \<Rightarrow> string \<Rightarrow> Rotator \<Rightarrow> Rotator" where
  "set_buf st b r = (case st of Stdout \<Rightarrow> r\<lparr>ro_stdout := b\<rparr> | Stderr \<Rightarrow> r\<lparr>ro_stderr := b\<rparr>)"

text \<open>The loop of \<open>StreamWriter.Write\<close>, on the buffered bytes; the buffer keeps what follows the last line handed on.\<close>

function write_loop :: "encoder \<Rightarrow> (nat \<Rightarrow> line_io) \<Rightarrow> stream \<Rightarrow> string \<Rightarrow> Rotator \<Rightarrow> log_error option \<times> Rotator" where
  "write_loop enc ios st data r =
     (if newline \<notin> set data then (None, set_buf st data r)
      else
        let line = takeWhile (\<lambda>c. c \<noteq> newline) data;
            rest = drop (length line + 1) data
        in case writeLine enc ios st line r of
             (Some e, r1) \<Rightarrow> (Some e, set_buf st rest r1)
           | (None, r1) \<Rightarrow> write_loop enc ios st rest r1)"
  by pat_completeness auto

termination
  by (relation "measure (\<lambda>(enc, ios, st, data, r). length data)") (auto intro!: diff_less length_pos_if_in_set)

declare write_loop.simps [simp del]

definition stream_Write :: "encoder \<Rightarrow> (nat \<Rightarrow> line_io) \<Rightarrow> stream \<Rightarrow> string \<Rightarrow> Rotator \<Rightarrow> (nat \<times> log_error option) \<times> Rotator" where
  "stream_Write enc ios st p r =
     (case write_loop enc ios st (get_buf st r @ p) r of
        (Some e, r1) \<Rightarrow> ((0, Some e), r1)
      | (None, r1) \<Rightarrow> ((length p, None), r1))"

definition stream_Close :: "encoder \<Rightarrow> (nat \<Rightarrow> line_io) \<Rightarrow> stream \<Rightarrow> Rotator \<Rightarrow> log_error option \<times> Rotator" where
  "stream_Close enc ios st r =
     (if get_buf st r = [] then (None, r)
      else writeLine enc ios st (get_buf st r) (set_buf st [] r))"

definition rotator_Close :: "encoder \<Rightarrow> (nat \<Rightarrow> line_io) \<Rightarrow> bool \<Rightarrow> Rotator \<Rightarrow> log_error option \<times> Rotator" where
  "rotator_Close enc ios close_ok r =
     (let r1 = snd (stream_Close enc ios Stdout r);
          r2 = snd (stream_Close enc ios Stderr r1)
      in case ro_file r2 of
           Nil_handle \<Rightarrow> (None, r2)
         | Open_handle \<Rightarrow> (if close_ok then None else Some LogClose, r2\<lparr>ro_file := Nil_handle\<rparr>)
         | Dead_handle \<Rightarrow> (Some LogClose, r2\<lparr>ro_file := Nil_handle\<rparr>))"


section \<open>What a run should record\<close>

datatype log_op = WriteTo stream string

definition exec_log :: "encoder \<Rightarrow> (nat \<Rightarrow> line_io) \<Rightarrow> log_op \<Rightarrow> Rotator \<Rightarrow> Rotator" where
  "exec_log enc ios op r = (case op of WriteTo st p \<Rightarrow> snd (stream_Write enc ios st p r))"






definition content :: "string option \<Rightarrow> string" where
  "content f = (case f of Some s \<Rightarrow> s | None \<Rightarrow> [])"

text \<open>The files from the oldest to the newest.\<close>

definition log_files :: "Rotator \<Rightarrow> string list" where
  "log_files r = map (\<lambda>i. content (ro_bak r i)) (rev [1..<Suc (nat (lo_MaxBackups (ro_opts r)))]) @ [content (ro_cur r)]"


section \<open>Lines do not depend on the chunks\<close>



section \<open>Rotation shifts the files by one\<close>




section \<open>The files hold the newest records\<close>








lemma length_log_files: "length (log_files r) = Suc (nat (lo_MaxBackups (ro_opts r)))"
  by (simp add: log_files_def)





section \<open>Runs\<close>




lemma set_buf_fields [simp]: "ro_appID (set_buf st d r) = ro_appID r" "ro_opts (set_buf st d r) = ro_opts r"
  by (cases st; simp add: set_buf_def)+





section \<open>A writer without a file\<close>

text \<open>Once the handle is gone no write changes a file, and the handle does not come back.\<close>

definition muted :: "string option \<Rightarrow> (nat \<Rightarrow> string option) \<Rightarrow> Rotator \<Rightarrow> bool" where
  "muted c b r \<longleftrightarrow> ro_file r \<noteq> Open_handle \<and> ro_cur r = c \<and> ro_bak r = b"

lemma writeLine_muted: "muted c b r \<Longrightarrow> \<exists>e r'. writeLine enc ios st msg r = (Some e, r') \<and> muted c b r'"
  by (cases "ro_file r") (auto simp: muted_def writeLine_def Let_def rotateLocked_def append_line_def)

lemma set_buf_muted [simp]: "muted c b (set_buf st d r) = muted c b r"
  by (cases st) (simp_all add: set_buf_def muted_def)

lemma exec_log_muted: "muted c b r \<Longrightarrow> muted c b (exec_log enc ios op r)"
proof (cases op)
  case (WriteTo st p)
  assume "muted c b r"
  moreover have "muted c b r \<Longrightarrow> muted c b (snd (write_loop enc ios st data r))" for data r
  proof -
    assume m: "muted c b r"
    obtain e r' where "writeLine enc ios st (takeWhile (\<lambda>c. c \<noteq> newline) data) r = (Some e, r') \<and> muted c b r'"
      using writeLine_muted [OF m] by blast
    then show ?thesis using m by (subst write_loop.simps) (simp add: Let_def)
  qed
  ultimately show ?thesis using WriteTo by (auto simp: exec_log_def stream_Write_def split: prod.splits option.splits dest: sym [of "(_, _)"]) (metis snd_conv)+
qed

interpretation mute_sys: op_system "exec_log enc ios" "\<lambda>_. True" "muted c b" for enc ios c b
  by unfold_locales (rule exec_log_muted)

lemma failed_rotation_muted:
  assumes "rotateLocked io r = (Some e, r')"
  shows "ro_file r' \<noteq> Open_handle"
  using assms
  by (auto simp: rotateLocked_def openCurrent_def Let_def split: if_splits prod.splits option.splits open_io.splits)

lemma failed_line_muted:
  assumes "writeLine enc ios st msg r = (Some e, r')" and "e \<noteq> LogWrite"
  shows "ro_file r' \<noteq> Open_handle"
  using assms failed_rotation_muted
  by (auto simp: writeLine_def append_line_def Let_def split: if_splits prod.splits option.splits)

section \<open>Properties\<close>


definition demo_enc :: encoder where
  "demo_enc ts app st msg = st @ '':'' @ msg"

definition demo_line :: line_io where
  "demo_line = \<lparr>li_ts = ''t'', li_close = True, li_remove = True, li_shift = \<lambda>_. True, li_promote = True, li_open = OpenOk, li_short = None\<rparr>"

definition demo_ops :: "log_op list" where
  "demo_ops = [WriteTo Stdout ''a'', WriteTo Stderr (''x'' @ [newline]), WriteTo Stdout (''b'' @ [newline] @ ''c'')]"

definition demo_rot :: Rotator where
  "demo_rot = \<lparr>ro_appID = ''web'', ro_opts = \<lparr>lo_MaxSizeBytes = 10, lo_MaxBackups = 1\<rparr>, ro_file = Open_handle, ro_size = 0, ro_stdout = [],
     ro_stderr = [], ro_cur = Some [], ro_bak = \<lambda>_. None, ro_calls = 0\<rparr>"


text \<open>
  A failed rotation silences the app for good. When the rotation inside a write fails at any step (the
  close, a rename, or the reopening), every later write returns an error and no file changes any more, even when
  all later system calls would succeed.
\<close>

theorem failed_rotation_silences:
  assumes "writeLine enc ios st msg r = (Some e, r')" and "e \<noteq> LogWrite"
  shows "ro_cur (fold (exec_log enc ios') ops r') = ro_cur r' \<and> ro_bak (fold (exec_log enc ios') ops r') = ro_bak r' \<and>
    fst (writeLine enc ios' st' msg' (fold (exec_log enc ios') ops r')) \<noteq> None"
proof -
  have "muted (ro_cur r') (ro_bak r') r'" using failed_line_muted [OF assms] by (simp add: muted_def)
  then have m: "muted (ro_cur r') (ro_bak r') (fold (exec_log enc ios') ops r')" using mute_sys.inv_run by (simp add: list_all_iff)
  then show ?thesis using writeLine_muted [OF m, of enc ios' st' msg'] by (auto simp: muted_def)
qed

theorem failed_rotation_silences_witness:
  "\<exists>r'. writeLine demo_enc (\<lambda>_. demo_line\<lparr>li_promote := False\<rparr>) Stdout ''long'' demo_rot = (Some LogPromote, r') \<and>
     ro_cur (fold (exec_log demo_enc (\<lambda>_. demo_line)) demo_ops r') = ro_cur r'"
proof -
  obtain r' where r: "writeLine demo_enc (\<lambda>_. demo_line\<lparr>li_promote := False\<rparr>) Stdout ''long'' demo_rot = (Some LogPromote, r')"
    by (simp add: writeLine_def record_bytes_def demo_enc_def stream_name_def wrap64_def rotateLocked_def demo_line_def demo_rot_def)
  show ?thesis using r failed_rotation_silences [OF r] by blast
qed

end
