(* ===== verification/Sup_Events.thy ===== *)
theory Sup_Events
  imports Creek_Prelude "HOL-Library.Sublist"
begin

text \<open>
  The event bus (internal/supervisor/events.go). A channel is an object of its own: the bus knows it by
  an index, and its receiver goes on reading it after \<open>Unsubscribe\<close> has closed it. Besides its buffer and its
  capacity a channel has the events its receiver has taken. A receiver that is waiting on an empty
  channel takes an event directly, which is the only way through an unbuffered one. \<open>Publish\<close> is one step:
  it holds the read lock, so subscribing and cancelling cannot interrupt it, but two publishers can
  run side by side and hand two events to two subscribers in different orders; such runs are not
  among the sequences of steps below.
\<close>

section \<open>The bus\<close>

datatype EventType = StatusChanged | Ready | HealthFailure | RestartEvent | OOMKill










section \<open>Runs\<close>















section \<open>What a subscriber sees\<close>



section \<open>Properties\<close>




end
