(* ===== verification/Host_Hardening.thy ===== *)
theory Host_Hardening
  imports Go_Strings
begin

text \<open>
  The check of the systemd unit (internal/hardening/validator.go): the directives the unit must have, the
  parser of its \<open>[Service]\<close> section, and the comparison of both.
\<close>

section \<open>Directives\<close>

abbreviation nl :: char where "nl \<equiv> CHR 0x0A"

datatype matcher = matchExact | matchSyscallFilter | matchPathSet

record Required =
  rq_Key :: string
  rq_Want :: string
  rq_Match :: matcher

record Drift =
  df_Key :: string
  df_Want :: string
  df_Got :: string
  df_Reason :: string

definition req :: "string \<Rightarrow> string \<Rightarrow> matcher \<Rightarrow> Required" where
  "req k w m = \<lparr>rq_Key = k, rq_Want = w, rq_Match = m\<rparr>"

definition caps_wanted :: string where
  "caps_wanted = ''CAP_NET_BIND_SERVICE CAP_SETUID CAP_SETGID CAP_KILL''"

definition RequiredDirectives :: "Required list" where
  "RequiredDirectives =
     [req ''NoNewPrivileges'' ''true'' matchExact,
      req ''ProtectSystem'' ''strict'' matchExact,
      req ''ProtectHome'' ''true'' matchExact,
      req ''PrivateTmp'' ''true'' matchExact,
      req ''PrivateDevices'' ''true'' matchExact,
      req ''ProtectKernelTunables'' ''true'' matchExact,
      req ''ProtectKernelModules'' ''true'' matchExact,
      req ''ProtectKernelLogs'' ''true'' matchExact,
      req ''ProtectControlGroups'' ''private'' matchExact,
      req ''Delegate'' ''yes'' matchExact,
      req ''ProtectClock'' ''true'' matchExact,
      req ''ProtectHostname'' ''true'' matchExact,
      req ''RestrictNamespaces'' ''true'' matchExact,
      req ''RestrictRealtime'' ''true'' matchExact,
      req ''RestrictSUIDSGID'' ''true'' matchExact,
      req ''LockPersonality'' ''true'' matchExact,
      req ''MemoryDenyWriteExecute'' ''true'' matchExact,
      req ''SystemCallArchitectures'' ''native'' matchExact,
      req ''SystemCallFilter'' (''@system-service'' @ [nl] @ ''~@privileged @resources'' @ [nl] @ ''@setuid capset'') matchSyscallFilter,
      req ''SystemCallErrorNumber'' ''EPERM'' matchExact,
      req ''CapabilityBoundingSet'' caps_wanted matchPathSet,
      req ''AmbientCapabilities'' caps_wanted matchPathSet,
      req ''LimitCORE'' ''0'' matchExact,
      req ''DynamicUser'' ''no'' matchExact,
      req ''ReadWritePaths'' ''/var/lib/creekd /var/log/creekd'' matchPathSet]"

section \<open>Comparison\<close>

text \<open>\<open>matchTokenSet\<close> and \<open>matchPathSet\<close> have the same body.\<close>

definition matchTokenSet :: "string \<Rightarrow> string \<Rightarrow> bool" where
  "matchTokenSet want got =
     (let w = Fields want; g = Fields got
      in if length w \<noteq> length g then False else list_all (\<lambda>t. t \<in> set g) w)"

definition filterLine :: "string \<Rightarrow> bool \<times> string" where
  "filterLine line0 =
     (let line = TrimSpace line0
      in case CutPrefix line ''~'' of Some rest \<Rightarrow> (True, rest) | None \<Rightarrow> (False, line))"

fun filter_lines_match :: "string list \<Rightarrow> string list \<Rightarrow> bool" where
  "filter_lines_match (w # ws) (g # gs) =
     (let (wDeny, wList) = filterLine w; (gDeny, gList) = filterLine g
      in if wDeny \<noteq> gDeny \<or> \<not> matchTokenSet wList gList then False else filter_lines_match ws gs)"
| "filter_lines_match _ _ = True"

definition match_value :: "matcher \<Rightarrow> string \<Rightarrow> string \<Rightarrow> bool" where
  "match_value m want got =
     (case m of
        matchExact \<Rightarrow> TrimSpace want = TrimSpace got
      | matchSyscallFilter \<Rightarrow>
          (let w = split_on nl want; g = split_on nl got
           in if length w \<noteq> length g then False else filter_lines_match w g)
      | matchPathSet \<Rightarrow> matchTokenSet want got)"

section \<open>Parsing\<close>

definition line_too_long :: "string \<Rightarrow> bool" where
  "line_too_long s \<longleftrightarrow> list_ex (\<lambda>l. int (length l) \<ge> 1024 * 1024) (split_on nl s)"

definition multiAssign :: "string \<Rightarrow> bool" where
  "multiAssign key \<longleftrightarrow> key = ''SystemCallFilter''"

text \<open>What a line is, in the order of the tests of the loop.\<close>

datatype line_kind = LSkip | LSection string | LJunk | LAssign string string

definition line_kind_of :: "string \<Rightarrow> line_kind" where
  "line_kind_of text =
     (let line = TrimSpace text in
      if line = [] \<or> HasPrefix line ''#'' \<or> HasPrefix line '';'' then LSkip
      else if HasPrefix line ''['' \<and> HasSuffix line '']'' then LSection (TrimSpace (butlast (tl line)))
      else
        let before = takeWhile (\<lambda>c. c \<noteq> CHR ''='') line in
        if length before = length line \<or> before = [] then LJunk
        else LAssign (TrimSpace before) (TrimSpace (drop (length before + 1) line)))"

definition assign :: "string \<Rightarrow> string \<Rightarrow> string gomap \<Rightarrow> string gomap" where
  "assign key val out =
     (if \<not> multiAssign key then gm_set key val out
      else if val = [] then gm_del key out
      else case gm_get out key of
        None \<Rightarrow> gm_set key val out
      | Some v \<Rightarrow> if v = [] then gm_set key val out else gm_set key (v @ [nl] @ val) out)"

fun parse_lines :: "string \<Rightarrow> string list \<Rightarrow> string gomap \<Rightarrow> string gomap" where
  "parse_lines sct [] out = out"
| "parse_lines sct (l # ls) out =
     (case line_kind_of l of
        LSkip \<Rightarrow> parse_lines sct ls out
      | LSection s \<Rightarrow> parse_lines s ls out
      | LJunk \<Rightarrow> parse_lines sct ls out
      | LAssign key val \<Rightarrow>
          if sct \<noteq> ''Service'' then parse_lines sct ls out
          else parse_lines sct ls (assign key val out))"

definition parseServiceSection :: "string \<Rightarrow> string gomap option" where
  "parseServiceSection unitContent =
     (if line_too_long unitContent then None else Some (parse_lines [] (ScanLines unitContent) []))"

definition drift_of :: "string gomap \<Rightarrow> Required \<Rightarrow> Drift list" where
  "drift_of parsed r =
     (case gm_get parsed (rq_Key r) of
        None \<Rightarrow> [\<lparr>df_Key = rq_Key r, df_Want = rq_Want r, df_Got = [], df_Reason = ''missing''\<rparr>]
      | Some got \<Rightarrow>
          if \<not> match_value (rq_Match r) (rq_Want r) got
          then [\<lparr>df_Key = rq_Key r, df_Want = rq_Want r, df_Got = got, df_Reason = ''weakened''\<rparr>] else [])"

definition hardening_Validate :: "string \<Rightarrow> Drift list option" where
  "hardening_Validate unitContent =
     (case parseServiceSection unitContent of
        None \<Rightarrow> None
      | Some parsed \<Rightarrow> Some (concat (map (drift_of parsed) RequiredDirectives)))"

definition CanonicalServiceSection :: string where
  "CanonicalServiceSection =
     concat (map (\<lambda>r. concat (map (\<lambda>v. rq_Key r @ ''='' @ v @ [nl]) (split_on nl (rq_Want r)))) RequiredDirectives)"

section \<open>What the validator reads\<close>

lemma canonical_no_drift: "hardening_Validate (''[Service]'' @ [nl] @ CanonicalServiceSection) = Some []"
  by code_simp

text \<open>The assignments of the \<open>[Service]\<close> section in the order of the file.\<close>

fun assignments :: "string \<Rightarrow> string list \<Rightarrow> (string \<times> string) list" where
  "assignments sct [] = []"
| "assignments sct (l # ls) =
     (case line_kind_of l of
        LSection s \<Rightarrow> assignments s ls
      | LAssign key val \<Rightarrow> (if sct = ''Service'' then [(key, val)] else []) @ assignments sct ls
      | _ \<Rightarrow> assignments sct ls)"

definition values_of :: "string \<Rightarrow> string \<Rightarrow> string list" where
  "values_of unitContent key = map snd (filter (\<lambda>a. fst a = key) (assignments [] (ScanLines unitContent)))"

text \<open>
  The validator accumulates one directive, the system-call filter, as the list of values since the last
  empty one; of any other it keeps the last value.
\<close>

definition since_reset :: "string list \<Rightarrow> string list" where
  "since_reset vs = rev (takeWhile (\<lambda>v. v \<noteq> []) (rev vs))"

definition effective :: "bool \<Rightarrow> string list \<Rightarrow> string option" where
  "effective multi vs =
     (if multi then let t = since_reset vs in if t = [] then None else Some (join_on nl t)
      else if vs = [] then None else Some (last vs))"

definition assign_value :: "bool \<Rightarrow> string \<Rightarrow> string option \<Rightarrow> string option" where
  "assign_value multi val cur =
     (if \<not> multi then Some val
      else if val = [] then None
      else case cur of None \<Rightarrow> Some val | Some v \<Rightarrow> if v = [] then Some val else Some (v @ [nl] @ val))"

lemma gm_get_assign:
  "gm_get (assign key val out) k = (if k = key then assign_value (multiAssign key) val (gm_get out key) else gm_get out k)"
  by (auto simp: assign_def assign_value_def split: option.split)

lemma parse_lines_get:
  "gm_get (parse_lines sct ls out) k =
     fold (assign_value (multiAssign k)) (map snd (filter (\<lambda>a. fst a = k) (assignments sct ls))) (gm_get out k)"
proof (induction sct ls out rule: parse_lines.induct)
  case (2 sct l ls out)
  then show ?case by (cases "line_kind_of l") (auto simp: gm_get_assign)
qed simp

lemma join_on_snoc: "t \<noteq> [] \<Longrightarrow> join_on c (t @ [v]) = join_on c t @ c # v"
proof (induction t)
  case (Cons a t)
  then show ?case by (cases t) auto
qed simp

lemma join_on_neq: "t \<noteq> [] \<Longrightarrow> \<forall>v \<in> set t. v \<noteq> [] \<Longrightarrow> join_on c t \<noteq> []"
  by (cases t; cases "tl t") auto

lemma fold_assign_value: "fold (assign_value multi) vs None = effective multi vs"
proof (induction vs rule: rev_induct)
  case (snoc v vs)
  let ?t = "since_reset vs"
  have "\<forall>v \<in> set ?t. v \<noteq> []" by (auto simp: since_reset_def dest: set_takeWhileD)
  then have "?t \<noteq> [] \<Longrightarrow> join_on nl ?t \<noteq> []" by (rule join_on_neq [rotated])
  then show ?case using snoc.IH by (auto simp: assign_value_def effective_def since_reset_def Let_def join_on_snoc)
qed (simp add: effective_def since_reset_def)

lemma token_set:
  assumes "distinct (Fields want)"
  shows "matchTokenSet want got \<longleftrightarrow> distinct (Fields got) \<and> set (Fields got) = set (Fields want)"
proof
  assume m: "matchTokenSet want got"
  then have l: "length (Fields want) = length (Fields got)" and s: "set (Fields want) \<subseteq> set (Fields got)"
    by (auto simp: matchTokenSet_def Let_def list_all_iff split: if_splits)
  have "card (set (Fields got)) \<le> card (set (Fields want))" using l assms by (metis card_length distinct_card)
  then have e: "set (Fields want) = set (Fields got)" using s by (intro card_seteq) auto
  moreover have "distinct (Fields got)" using e l assms by (metis card_distinct distinct_card)
  ultimately show "distinct (Fields got) \<and> set (Fields got) = set (Fields want)" by simp
next
  assume "distinct (Fields got) \<and> set (Fields got) = set (Fields want)"
  then show "matchTokenSet want got" using assms by (auto simp: matchTokenSet_def Let_def list_all_iff) (metis distinct_card)
qed

lemma Validate_effective:
  "hardening_Validate u = Some ds \<Longrightarrow>
     (ds = [] \<longleftrightarrow> (\<forall>r \<in> set RequiredDirectives. \<exists>v. effective (multiAssign (rq_Key r)) (values_of u (rq_Key r)) = Some v \<and>
        match_value (rq_Match r) (rq_Want r) v))"
proof -
  assume v: "hardening_Validate u = Some ds"
  let ?p = "parse_lines [] (ScanLines u) []"
  have "ds = concat (map (drift_of ?p) RequiredDirectives)"
    using v by (auto simp: hardening_Validate_def parseServiceSection_def split: if_splits)
  moreover have "gm_get ?p k = effective (multiAssign k) (values_of u k)" for k
    by (simp add: parse_lines_get values_of_def fold_assign_value)
  then have "drift_of ?p r = [] \<longleftrightarrow> (\<exists>v. effective (multiAssign (rq_Key r)) (values_of u (rq_Key r)) = Some v \<and>
      match_value (rq_Match r) (rq_Want r) v)" for r
    by (auto simp: drift_of_def split: option.split)
  ultimately show ?thesis by auto
qed

section \<open>The values of the system-call filter\<close>

text \<open>Values hold no newline, so the accumulated value splits into the assignments again.\<close>

lemma set_TrimSpace: "set (TrimSpace s) \<subseteq> set s"
  by (auto simp: TrimSpace_def dest!: set_dropWhileD)

lemma ScanLines_clean: "l \<in> set (ScanLines s) \<Longrightarrow> nl \<notin> set l"
proof -
  assume "l \<in> set (ScanLines s)"
  then obtain k where k: "k \<in> set (split_on nl s)" "l = TrimSuffix k [CHR 0x0D]"
    by (auto simp: ScanLines_def Let_def split: if_splits dest: in_set_butlastD)
  have "set l \<subseteq> set k" by (auto simp: k(2) TrimSuffix_def dest: in_set_takeD)
  with split_on_no_sep [OF k(1)] show ?thesis by blast
qed

lemma assignments_clean: "\<forall>l \<in> set ls. nl \<notin> set l \<Longrightarrow> kv \<in> set (assignments sct ls) \<Longrightarrow> nl \<notin> set (snd kv)"
proof (induction sct ls rule: assignments.induct)
  case (2 sct l ls)
  have "nl \<notin> set v" if "line_kind_of l = LAssign k v" for k v
  proof -
    from that have "v = TrimSpace (drop (length (takeWhile (\<lambda>c. c \<noteq> CHR ''='') (TrimSpace l)) + 1) (TrimSpace l))"
      by (simp add: line_kind_of_def Let_def split: if_splits)
    then have "set v \<subseteq> set l" using set_TrimSpace set_drop_subset by (metis subset_trans)
    with 2 show ?thesis by auto
  qed
  with 2 show ?case by (auto split: line_kind.splits if_splits)
qed simp

text \<open>One assignment of the filter: an allow list or, after a tilde, a deny list of these system calls.\<close>

definition filters :: "bool \<Rightarrow> string set \<Rightarrow> string \<Rightarrow> bool" where
  "filters deny names v \<longleftrightarrow>
     (\<exists>toks. TrimSpace v = (if deny then ''~'' else []) @ toks \<and> (\<not> deny \<longrightarrow> \<not> HasPrefix toks ''~'') \<and>
        distinct (Fields toks) \<and> set (Fields toks) = names)"

lemma filterLine_filters:
  assumes "filterLine w = (deny, ws)" and "distinct (Fields ws)"
  shows "(let (wDeny, wList) = filterLine w; (gDeny, gList) = filterLine g
      in \<not> (wDeny \<noteq> gDeny \<or> \<not> matchTokenSet wList gList)) \<longleftrightarrow> filters deny (set (Fields ws)) g"
  using assms token_set [OF assms(2)]
  by (auto simp: filters_def filterLine_def CutPrefix_def HasPrefix_iff Let_def split: if_splits)

lemma syscall_value:
  assumes "\<forall>v \<in> set vs. nl \<notin> set v"
  shows "(\<exists>v. effective True vs = Some v \<and>
      match_value matchSyscallFilter (''@system-service'' @ [nl] @ ''~@privileged @resources'' @ [nl] @ ''@setuid capset'') v) \<longleftrightarrow>
    (\<exists>a b c. since_reset vs = [a, b, c] \<and> filters False {''@system-service''} a \<and>
      filters True {''@privileged'', ''@resources''} b \<and> filters False {''@setuid'', ''capset''} c)"
proof -
  let ?w1 = "''@system-service''" and ?w2 = "''~@privileged @resources''" and ?w3 = "''@setuid capset''"
  have w: "split_on nl (?w1 @ [nl] @ ?w2 @ [nl] @ ?w3) = [?w1, ?w2, ?w3]" by code_simp
  have l: "filterLine ?w1 = (False, ?w1)" "filterLine ?w2 = (True, ''@privileged @resources'')" "filterLine ?w3 = (False, ?w3)"
    by code_simp+
  have f: "Fields ?w1 = [''@system-service'']" "Fields ''@privileged @resources'' = [''@privileged'', ''@resources'']"
    "Fields ?w3 = [''@setuid'', ''capset'']" by code_simp+
  have m: "filter_lines_match [?w1, ?w2, ?w3] [a, b, c] \<longleftrightarrow> filters False {''@system-service''} a \<and>
      filters True {''@privileged'', ''@resources''} b \<and> filters False {''@setuid'', ''capset''} c" for a b c
    using filterLine_filters [OF l(1), of a] filterLine_filters [OF l(2), of b] filterLine_filters [OF l(3), of c]
    by (simp add: f l split_beta Let_def) blast
  have t: "split_on nl (join_on nl (since_reset vs)) = since_reset vs" if "since_reset vs \<noteq> []"
    by (rule split_join [OF that]) (use assms in \<open>auto simp: since_reset_def dest: set_takeWhileD\<close>)
  have three: "length xs = 3 \<longleftrightarrow> (\<exists>a b c. xs = [a, b, c])" for xs :: "string list"
    by (auto simp: eval_nat_numeral length_Suc_conv)
  show ?thesis
  proof (cases "since_reset vs = []")
    case False
    have "match_value matchSyscallFilter (?w1 @ [nl] @ ?w2 @ [nl] @ ?w3) (join_on nl (since_reset vs)) \<longleftrightarrow>
        length (since_reset vs) = 3 \<and> filter_lines_match [?w1, ?w2, ?w3] (since_reset vs)"
      unfolding match_value_def matcher.case Let_def w t [OF False] by auto
    also have "\<dots> \<longleftrightarrow> (\<exists>a b c. since_reset vs = [a, b, c] \<and> filter_lines_match [?w1, ?w2, ?w3] [a, b, c])"
      unfolding three by (rule iffI; elim exE conjE; (simp only:)?; blast)
    finally have mv: "match_value matchSyscallFilter (?w1 @ [nl] @ ?w2 @ [nl] @ ?w3) (join_on nl (since_reset vs)) \<longleftrightarrow>
        (\<exists>a b c. since_reset vs = [a, b, c] \<and> filter_lines_match [?w1, ?w2, ?w3] [a, b, c])" .
    have "effective True vs = Some (join_on nl (since_reset vs))" using False by (simp add: effective_def)
    then show ?thesis unfolding m [symmetric] mv [symmetric] by (simp only: option.inject simp_thms ex_simps)
  qed (simp add: effective_def)
qed

section \<open>Properties\<close>

text \<open>
  C36: A unit without drift is hardened in the validator's reading of the file: the last assignment of a directive
  counts, and only those of \<open>SystemCallFilter\<close> are accumulated. The check reports nothing exactly when the
  last assignment of every required scalar directive is the wanted value up to surrounding white space;
  the last assignments of \<open>ReadWritePaths\<close> and of the two capability sets name exactly the wanted paths and
  capabilities, each once, in any order; and the assignments of \<open>SystemCallFilter\<close> since its last reset are
  three: allow \<open>@system-service\<close>, deny \<open>@privileged\<close> and \<open>@resources\<close>, allow \<open>@setuid\<close> and \<open>capset\<close>. The
  canonical section passes. (systemd joins repeated assignments of the paths and capability sets too:
  \<open>repeated_paths_undetected\<close> below.)
\<close>

theorem no_drift_hardened:
  "hardening_Validate (''[Service]'' @ [nl] @ CanonicalServiceSection) = Some [] \<and>
   (\<forall>ds. hardening_Validate u = Some ds \<longrightarrow>
     (ds = [] \<longleftrightarrow> (\<forall>r \<in> set RequiredDirectives. let vs = values_of u (rq_Key r) in
        case rq_Match r of
          matchExact \<Rightarrow> vs \<noteq> [] \<and> TrimSpace (last vs) = TrimSpace (rq_Want r)
        | matchPathSet \<Rightarrow> vs \<noteq> [] \<and> distinct (Fields (last vs)) \<and> set (Fields (last vs)) = set (Fields (rq_Want r))
        | matchSyscallFilter \<Rightarrow>
            (\<exists>a b c. since_reset vs = [a, b, c] \<and> filters False {''@system-service''} a \<and>
               filters True {''@privileged'', ''@resources''} b \<and> filters False {''@setuid'', ''capset''} c))))"
proof -
  let ?E = "\<lambda>r. \<exists>v. effective (multiAssign (rq_Key r)) (values_of u (rq_Key r)) = Some v \<and> match_value (rq_Match r) (rq_Want r) v"
  let ?sc = "''@system-service'' @ [nl] @ ''~@privileged @resources'' @ [nl] @ ''@setuid capset''"
  have d: "list_all (\<lambda>r. distinct (Fields (rq_Want r))) (filter (\<lambda>r. rq_Match r = matchPathSet) RequiredDirectives)" by code_simp
  have k: "list_all (\<lambda>r. (rq_Match r = matchSyscallFilter) = multiAssign (rq_Key r) \<and>
      (rq_Match r = matchSyscallFilter \<longrightarrow> rq_Want r = ?sc)) RequiredDirectives" by code_simp
  have clean: "\<forall>v \<in> set (values_of u key). nl \<notin> set v" for key
    using assignments_clean [of "ScanLines u"] ScanLines_clean by (auto simp: values_of_def)
  have "?E r \<longleftrightarrow> (let vs = values_of u (rq_Key r) in
        case rq_Match r of
          matchExact \<Rightarrow> vs \<noteq> [] \<and> TrimSpace (last vs) = TrimSpace (rq_Want r)
        | matchPathSet \<Rightarrow> vs \<noteq> [] \<and> distinct (Fields (last vs)) \<and> set (Fields (last vs)) = set (Fields (rq_Want r))
        | matchSyscallFilter \<Rightarrow>
            (\<exists>a b c. since_reset vs = [a, b, c] \<and> filters False {''@system-service''} a \<and>
               filters True {''@privileged'', ''@resources''} b \<and> filters False {''@setuid'', ''capset''} c))"
    if r: "r \<in> set RequiredDirectives" for r
  proof (cases "rq_Match r")
    case matchSyscallFilter
    with k r have "multiAssign (rq_Key r)" "rq_Want r = ?sc" by (auto simp: list_all_iff)
    with matchSyscallFilter show ?thesis using syscall_value [OF clean, of "rq_Key r"] by (simp only: Let_def matcher.case)
  next
    case matchExact
    with k r have "\<not> multiAssign (rq_Key r)" by (auto simp: list_all_iff)
    with matchExact show ?thesis by (auto simp: effective_def match_value_def)
  next
    case matchPathSet
    with k r have "\<not> multiAssign (rq_Key r)" by (auto simp: list_all_iff)
    moreover have "distinct (Fields (rq_Want r))" using d r matchPathSet by (simp add: list_all_iff)
    ultimately show ?thesis using matchPathSet token_set [of "rq_Want r"] by (auto simp: effective_def match_value_def Let_def)
  qed
  then show ?thesis using Validate_effective canonical_no_drift by blast
qed

theorem no_drift_hardened_witness:
  "set (Fields (last (values_of (''[Service]'' @ [nl] @ CanonicalServiceSection) ''ReadWritePaths''))) =
     {''/var/lib/creekd'', ''/var/log/creekd''}"
proof -
  let ?u = "''[Service]'' @ [nl] @ CanonicalServiceSection" and ?r = "req ''ReadWritePaths'' ''/var/lib/creekd /var/log/creekd'' matchPathSet"
  have r: "?r \<in> set RequiredDirectives" "rq_Match ?r = matchPathSet" by (simp_all add: RequiredDirectives_def req_def)
  have w: "set (Fields ''/var/lib/creekd /var/log/creekd'') = {''/var/lib/creekd'', ''/var/log/creekd''}" by code_simp
  from no_drift_hardened [of ?u, THEN conjunct2, THEN spec, THEN mp, OF canonical_no_drift, THEN iffD1, OF refl, THEN bspec, OF r(1)]
  have "set (Fields (last (values_of ?u (rq_Key ?r)))) = set (Fields (rq_Want ?r))" unfolding r(2) Let_def matcher.case by blast
  then show ?thesis by (simp only: req_def Required.simps w)
qed

text \<open>
  systemd joins repeated assignments of \<open>ReadWritePaths\<close>, the validator keeps the last one: a unit that opens the
  whole file system for writing in an earlier line passes.
\<close>

lemma repeated_paths_undetected:
  "hardening_Validate (''[Service]'' @ [nl] @ ''ReadWritePaths=/'' @ [nl] @ CanonicalServiceSection) = Some []"
  by code_simp

end
