(* ===== verification/Ctl_SelfUpgrade.thy ===== *)
theory Ctl_SelfUpgrade
  imports Host_Upgrade Sup_Volumes
begin

text \<open>
  \<open>creekctl self-upgrade\<close> (cmd/creekctl/commands.go): the choice of the release, the downloads, the
  verification, the extraction of the archive, and the swap of both binaries with the rollback of the
  first when the second fails. The network, gzip and tar are inputs; the temporary directory maps cleaned
  paths to files; the directories of the two binaries are the states of \<open>Host_Upgrade\<close>, at two different paths.
\<close>

section \<open>Choosing the release\<close>




section \<open>Extraction\<close>







section \<open>The command\<close>













section \<open>Lemmas\<close>







section \<open>Properties\<close>








end
