(* ===== verification/Spec2Isabelle.thy ===== *)
theory Spec2Isabelle
  imports State_Locks Admin_Guarantees Daemon_Restore Host_Upgrade Ctl_Manifest Host_Backup Log_Rotator Sup_Events
    Host_Hardening Ctl_SelfUpgrade
begin

text \<open>
  creekd is a process supervisor for one host: it starts apps as child processes, restarts them, routes HTTP
  requests to them, replaces a running version by a new one without losing requests, and keeps its
  state in a directory from which it comes back after a crash. creekctl is its client. This
  development models the Go code under src/ as HOL functions and proves what makes each part correct.

  \<^bold>\<open>The parts and how they interact.\<close>

  \<^item> The store (internal/state) holds the apps, their metadata, releases and volumes in memory and in
    \<open>state.json\<close>. Every mutation builds the next maps, appends a pending record to a write-ahead log,
    writes a temporary file, renames it, reads it back and appends a commit record; only then the maps in
    memory are swapped. Boot loads the file and replays the last orphan record.
  \<^item> The supervisor (internal/supervisor) keeps the registry of running apps. Spawn, Stop, StopAll, Reset, Restart and
    Deploy run under a lock that some of them release in the middle; one goroutine per process waits for its
    exit and decides about the restart, another one probes its health.
  \<^item> The dispatch router (internal/dispatch) maps an app id to a port and forwards requests.
  \<^item> The admin API (internal/adminapi) authenticates, audits and version-checks requests and calls the
    supervisor, the router and the store in an order that decides what survives a failure.
  \<^item> The daemon (cmd/creekd) reads the environment, opens the store, restores volumes and apps, and serves.
  \<^item> Around them: the app logs, the event bus, the address pool, the bind mounts, backups, the
    self-upgrade, the check of the systemd unit, and the manifest and project file creekctl reads.

  \<^bold>\<open>How the model is written.\<close> A Go struct is a record, a string constant type a datatype or a string, an
  error a constructor of a datatype, a Go map an association list with distinct keys (\<open>gomap\<close>), a Go \<open>int64\<close>
  an \<open>int\<close> with \<open>wrap64\<close> where a sum or product can leave the range, a file mode a 32-bit word. A function takes the
  state and the outcomes of its system calls (an \<open>io\<close> record: which call fails and how) and returns its result
  with the new state. Where a crash between two system calls matters, a function returns the list of states it goes
  through. Where a lock is released, the operation takes the steps that run in the window as an argument:
  the waits of Stop and StopAll, the gap in Reset, the HTTP check of a probe, and four windows of Deploy
  (before the spawn of the new version, while it is polled, after the swap, and while the old version
  stops). Operations in a window complete inside it, so the model covers nested interleavings to any depth and not
  operations that overlap each other partly; what a partial overlap can do is among the findings. HTTP
  requests are handled one at a time, and an event is published in one step. Everything is
  executable; there is no fuel: every loop is structural or has a termination proof, and a wait that may last forever
  returns \<open>None\<close> or a result of its own.

  \<^bold>\<open>The theories.\<close>

  \<^item> \<open>Creek_Prelude\<close>: machine integers, Go maps, the insertion sort the code writes by hand, and the contracts
    \<open>op_system\<close>, \<open>fallible_system\<close> and \<open>monotone_system\<close>: an invariant every operation keeps, errors that
    leave a view unchanged, a preorder every operation climbs. Each is interpreted by the components below.
  \<^item> \<open>Go_Strings\<close>: what the code uses of strings, strconv and path/filepath; a cleaned absolute path is
    studied by its segments.
  \<^item> \<open>State_Wal\<close>, \<open>State_Store\<close>, \<open>State_Release\<close>, \<open>State_Boot\<close>, \<open>State_Locks\<close> (wal.go, store.go,
    release.go, locks.go of internal/state): the log records and their scan, the flush with every failure point, the
    mutations, releases and resource versions, NewStore with migration and replay, the lock registry. Shown: the store
    invariant, errors leave memory unchanged, identity and versions of apps, the active release is unique, a
    reboot after any history reloads the state, a crash after any system call of a flush recovers
    the old or the new state, and the deadlock freedom of LockMany; also the failures after which this is
    not so: an error after the rename, a stale orphan record, a torn append, a lost page.
  \<^item> \<open>Sup_Config\<close>, \<open>Sup_RunAs\<close>, \<open>Sup_Lifecycle\<close>, \<open>Sup_Registry\<close>, \<open>Sup_System\<close>, \<open>Sup_Shrink\<close>
    (supervisor.go, runas.go, id.go, runtime.go, sandbox.go): configuration and validation, users per app and the
    persisted high-water mark, one app's start, restart and probe decisions, the registry operations, and
    the whole as a transition system with nested interleaving. Shown: the registry invariant under all
    nested interleavings, what Deploy does when it succeeds and that it keeps the old version when it fails, that a failed Spawn
    rolls back, that Stop returns and frees the id when the kill is delivered and no descendant holds the output pipe,
    that StopAll empties the registry, the crash-loop policy, that the allocator never reuses a user id.
    The lazy set-up of the network (netReady) is a definition of its own and not a step of Spawn: the
    address pool is an input of the boot.
  \<^item> \<open>Sup_Volumes\<close>, \<open>Sup_Mounts\<close> (volume.go, volumemount.go, volumemount_linux.go,
    mount_atomic_linux.go): the volume registry, the resolution of mounts (contained in the volume and the allowed targets),
    and the bind protocol over an explicit mount table (only a checked volume is attached, and a new read-only
    mount is verified).
  \<^item> \<open>Sup_Events\<close> (events.go) and \<open>Log_Rotator\<close> (internal/logs): a subscriber's stream is an in-order subsequence
    and complete when it fits; the log files hold the newest records, whole ones, and the records are the lines of
    the streams however they are cut. A failed rotation silences an app.
  \<^item> \<open>Net_Pool\<close> (network.go): the lowest free address; byte-wise arithmetic equals arithmetic on numbers.
  \<^item> \<open>Dispatch_Router\<close> (router.go): requests follow the last effective update of the route.
  \<^item> \<open>Admin_Audit\<close>, \<open>Admin_Convert\<close>, \<open>Admin_Conditions\<close>, \<open>Admin_Server\<close>, \<open>Admin_Consistency\<close>,
    \<open>Admin_Guarantees\<close> (audit.go, convert.go, conditions.go, server.go, cas.go of internal/adminapi and the request types
    of types.gen.go): the hash chain with the scanner's line limit and carriage returns, the conversions, conditions as a function of the history, the middleware
    and the handlers; then, over supervisor, router and store together: whatever runs is routed and persisted, no update is
    lost under If-Match, a rollback restores the snapshot, nothing happens without the token.
  \<^item> \<open>Daemon_Config\<close>, \<open>Daemon_Restore\<close> (cmd/creekd/main.go): the environment, sizes, the boot sequence and the
    restore loop. Shown: a daemon that comes up from a state directory and serves any requests is in step
    with its store, and the restore handles every persisted app and volume.
  \<^item> \<open>Host_Backup\<close> (internal/backup): the host key, signed manifests, archives and retention: what is
    written can be read back and verifies, and the newest archives are kept.
  \<^item> \<open>Host_Upgrade\<close> (internal/upgrade) and \<open>Ctl_SelfUpgrade\<close> (self-upgrade of cmd/creekctl/commands.go): a swap
    is all or nothing at every crash point; an upgrade installs two verified binaries or leaves the old ones,
    unless its rollback fails as well.
  \<^item> \<open>Host_Hardening\<close> (internal/hardening): the unit check reports nothing exactly when every required
    directive has the wanted value in the validator's reading, which joins fewer directives than systemd does.
  \<^item> \<open>Ctl_Manifest\<close> (api/manifest, internal/creektoml, manifest.go of cmd/creekctl): an accepted manifest
    names an entry inside its project.

  \<^bold>\<open>Parameters and hypotheses.\<close> SHA-256, Ed25519, JSON and TOML encoders, cosign, the validity of a parsed URL and
  the kernel are arguments. Theorems name what they need of them, or what breaks otherwise: a digest collision among the records
  at hand, that a signature made with a key verifies, that a manifest survives its encoding. Boundedness
  hypotheses exclude the wrap-around of 64-bit counters and sizes.

  \<^bold>\<open>Not modelled.\<close> The bytes of JSON and TOML files (a file holds a decoded value or damaged bytes), the 1 MB
  line limit of the log scanner and the 16 MB one of the write-ahead log; the generated
  router and most generated types of internal/apitypes; HTTP itself, the reverse proxy, the streaming endpoints for logs and
  events, metrics and pprof; the commands of creekctl that only parse flags, call the API and print, and the API
  client; cgroupfs, network namespaces and iptables, the clone flags of the sandbox and the spawn gate, whose
  outcomes are inputs; the file-system check; lima, workerd and the sandbox subcommand, which run external tools on developer
  machines; signal handling and the shutdown of the daemon; log lines; the examples and benchmarks. Time is a number
  that the environment supplies; fairness of the scheduler is not assumed.
\<close>

end
